(* ===== verification/Prelude.thy ===== *)
theory Prelude
  imports Main "HOL-Library.Word" "HOL-Library.List_Lexorder"
begin

text \<open>
  Shared vocabulary of the development: the machine integers of a 64-bit target, the
  parts of Rust's core library that the sources use (checked and saturating arithmetic,
  powers of two, slices that panic, UTF-8 validation, little-endian decoding), and the
  lemmas about them that every component theory reuses.  Three collections of facts are
  filled here and further down: \<open>rust_arith\<close> (values of checked arithmetic),
  \<open>no_panic\<close> (operations that return under an invariant) and \<open>run_simps\<close>
  (evaluation of code that may panic).
\<close>

unbundle bit_operations_syntax

named_theorems rust_arith
named_theorems no_panic
named_theorems run_simps

section \<open>Machine integers\<close>

type_synonym u8 = "8 word"
type_synonym u16 = "16 word"
type_synonym u32 = "32 word"
type_synonym u64 = "64 word"
type_synonym usize = "64 word"

text \<open>A byte string; a Rust \<open>str\<close> is one that satisfies \<open>utf8_valid\<close> below, ordered
  lexicographically by bytes.\<close>

type_synonym bytes = "u8 list"

definition ascii :: "string \<Rightarrow> bytes" where
  "ascii s = map of_char s"

lemma length_ascii [simp]: "length (ascii s) = length s"
  by (simp add: ascii_def)

lemma unat_of_char: "unat (of_char c :: u8) = of_char c"
proof -
  have "unat (of_nat (of_char c) :: u8) = of_char c mod 256" by (simp add: unat_of_nat)
  then show ?thesis by (simp add: of_nat_of_char)
qed

lemma ascii_eq_iff: "ascii s = ascii t \<longleftrightarrow> s = t"
proof -
  have "inj (of_char :: char \<Rightarrow> u8)" by (rule injI) (metis unat_of_char of_char_eq_iff)
  then show ?thesis unfolding ascii_def by (simp add: inj_map_eq_map)
qed

lemma zero_in_ascii: "0 \<in> set (ascii s) \<longleftrightarrow> CHR 0x00 \<in> set s"
proof -
  have "(of_char c :: u8) = 0 \<longleftrightarrow> c = CHR 0x00" for c
  proof -
    have "(of_char c :: u8) = 0 \<longleftrightarrow> ascii [c] = ascii [CHR 0x00]" by (simp add: ascii_def)
    then show ?thesis by (simp add: ascii_eq_iff)
  qed
  then show ?thesis unfolding ascii_def by (auto simp: image_iff)
qed

definition checked_add :: "'a::len word \<Rightarrow> 'a word \<Rightarrow> 'a word option" where
  "checked_add a b = (if unat a + unat b < 2 ^ LENGTH('a) then Some (a + b) else None)"

definition checked_mul :: "'a::len word \<Rightarrow> 'a word \<Rightarrow> 'a word option" where
  "checked_mul a b = (if unat a * unat b < 2 ^ LENGTH('a) then Some (a * b) else None)"

definition saturating_sub :: "'a::len word \<Rightarrow> 'a word \<Rightarrow> 'a word" where
  "saturating_sub a b = (if b \<le> a then a - b else 0)"

definition saturating_add :: "'a::len word \<Rightarrow> 'a word \<Rightarrow> 'a word" where
  "saturating_add a b = (if unat a + unat b < 2 ^ LENGTH('a) then a + b else - 1)"

lemma checked_add_Some [rust_arith]:
  "checked_add a b = Some c \<longleftrightarrow> unat c = unat a + unat b"
proof
  assume "checked_add a b = Some c"
  then show "unat c = unat a + unat b"
    by (auto simp: checked_add_def unat_word_ariths split: if_splits)
next
  assume c: "unat c = unat a + unat b"
  then have lt: "unat a + unat b < 2 ^ LENGTH('a)"
    by (metis unsigned_less)
  then have "unat (a + b) = unat c"
    using c by (simp add: unat_word_ariths)
  with lt show "checked_add a b = Some c"
    by (simp add: checked_add_def word_unat_eq_iff)
qed

lemma checked_add_None [rust_arith]:
  "checked_add (a :: 'a::len word) b = None \<longleftrightarrow> 2 ^ LENGTH('a) \<le> unat a + unat b"
  by (auto simp: checked_add_def)

lemma checked_mul_Some [rust_arith]:
  "checked_mul a b = Some c \<Longrightarrow> unat c = unat a * unat b"
  by (auto simp: checked_mul_def unat_word_ariths split: if_splits)

lemma unat_saturating_sub [rust_arith]: "unat (saturating_sub a b) = unat a - unat b"
  by (auto simp: saturating_sub_def word_le_nat_alt unat_sub)

text \<open>Loop counters below a bound do not wrap.\<close>

lemma unat_succ_less [rust_arith]:
  fixes i n :: "'a::len word"
  assumes "i < n"
  shows "unat (i + 1) = Suc (unat i)"
proof -
  have "unat n < 2 ^ LENGTH('a)" by (rule unsigned_less)
  moreover have "unat i < unat n"
    using assms by (simp only: word_less_nat_alt)
  ultimately have "Suc (unat i) < 2 ^ LENGTH('a)" by linarith
  then show ?thesis
    by (simp add: unat_word_ariths)
qed

lemma succ_le_iff_less:
  fixes i n j :: "'a::len word"
  assumes "i < n"
  shows "i + 1 \<le> j \<longleftrightarrow> i < j"
  using unat_succ_less [OF assms] by (simp add: word_le_nat_alt word_less_nat_alt Suc_le_eq)

lemma eq_add_iff_diff_eq:
  fixes a p k :: "'a::len word"
  shows "a = p + k \<longleftrightarrow> a - p = k"
  by (auto simp: algebra_simps)

lemma unat_add_no_wrap:
  fixes a b :: "'a::len word"
  assumes "unat a + unat b < 2 ^ LENGTH('a)"
  shows "unat (a + b) = unat a + unat b"
  using assms by (simp add: unat_word_ariths)

lemma unat_usize_bound: "unat (x :: usize) < 2 ^ 64"
proof -
  have "unat x < 2 ^ LENGTH(64)" by (rule unsigned_less)
  then show ?thesis by simp
qed

lemma unat_of_nat_usize: "n < 2 ^ 64 \<Longrightarrow> unat (of_nat n :: usize) = n"
  by (simp add: unat_of_nat)

lemma of_nat_usize_inject: "a < 2 ^ 64 \<Longrightarrow> b < 2 ^ 64 \<Longrightarrow> (of_nat a :: usize) = of_nat b \<longleftrightarrow> a = b"
  by (metis unat_of_nat_usize)

text \<open>\<open>usize::checked_next_power_of_two\<close>: the least power of two not below the value.\<close>

definition checked_next_power_of_two :: "usize \<Rightarrow> usize option" where
  "checked_next_power_of_two x =
     map_option (\<lambda>k. 2 ^ k) (find (\<lambda>k. unat x \<le> 2 ^ k) [0..<64])"

lemma unat_pow2_usize: "k < 64 \<Longrightarrow> unat ((2::usize) ^ k) = 2 ^ k"
proof -
  assume "k < 64"
  then have "(2::nat) ^ k < 2 ^ 64" by (rule power_strict_increasing) simp
  then have "unat (of_nat (2 ^ k) :: usize) = 2 ^ k"
    by (simp only: unat_of_nat) simp
  then show ?thesis by simp
qed

lemma unat_pow2_minus_1: "k < 64 \<Longrightarrow> unat ((2::usize) ^ k - 1) = 2 ^ k - 1"
proof -
  assume k: "k < 64"
  have "(1::usize) \<le> 2 ^ k" using unat_pow2_usize [OF k] by (simp add: word_le_nat_alt)
  then show ?thesis using unat_pow2_usize [OF k] by (simp add: unat_sub)
qed

lemma uint_diff_mod:
  fixes a b :: usize
  assumes "k \<le> 64"
  shows "uint (a - b) mod 2 ^ k = (uint a - uint b) mod 2 ^ k"
proof -
  have "(2::int) ^ k dvd 2 ^ 64" using assms by (rule le_imp_power_dvd)
  then show ?thesis by (simp add: uint_word_ariths mod_mod_cancel)
qed

lemma int_unat_mod: "int (unat (w :: usize) mod 2 ^ k) = uint w mod 2 ^ k"
  by (simp add: zmod_int)

lemma checked_next_power_of_two_Some:
  assumes "checked_next_power_of_two x = Some p"
  obtains k where "k < 64" "p = 2 ^ k" "unat p = 2 ^ k" "unat x \<le> 2 ^ k"
    "\<And>j. unat x \<le> 2 ^ j \<Longrightarrow> k \<le> j"
proof -
  from assms obtain k where f: "find (\<lambda>k. unat x \<le> 2 ^ k) [0..<64] = Some k" and p: "p = 2 ^ k"
    by (auto simp: checked_next_power_of_two_def)
  from f obtain i where i: "i < 64" "k = i" "unat x \<le> 2 ^ i" "\<forall>j<i. \<not> unat x \<le> 2 ^ j"
    by (auto simp: find_Some_iff)
  have "k \<le> j" if "unat x \<le> 2 ^ j" for j
    using i that by (meson not_le)
  with i p show thesis
    by (intro that [of k]) (auto simp: unat_pow2_usize)
qed

lemma checked_next_power_of_two_None:
  "checked_next_power_of_two x = None \<longleftrightarrow> 2 ^ 63 < unat x"
proof
  assume "checked_next_power_of_two x = None"
  then have "\<forall>k\<in>set [0..<64]. \<not> unat x \<le> 2 ^ k"
    by (auto simp: checked_next_power_of_two_def find_None_iff)
  then have "\<not> unat x \<le> 2 ^ 63"
    by (rule bspec) simp
  then show "2 ^ 63 < unat x" by simp
next
  assume big: "2 ^ 63 < unat x"
  have "\<not> unat x \<le> 2 ^ k" if "k < 64" for k
    using that big power_increasing [of k 63 "2::nat"] by linarith
  then show "checked_next_power_of_two x = None"
    by (auto simp: checked_next_power_of_two_def find_None_iff)
qed

text \<open>Masking with \<open>align - 1\<close> and \<open>!(align - 1)\<close> for a power of two.\<close>

lemma unat_and_pow2_minus_1:
  fixes x :: "'a::len word"
  shows "unat (x AND (2 ^ k - 1)) = unat x mod 2 ^ k"
proof -
  have "x AND (2 ^ k - 1) = take_bit k x"
    by (simp add: take_bit_eq_mask mask_eq_exp_minus_1)
  then have "unat (x AND (2 ^ k - 1)) = take_bit k (unat x)"
    by (simp only: unsigned_take_bit_eq)
  then show ?thesis
    by (simp only: take_bit_eq_mod)
qed

lemma unat_and_not_pow2_minus_1:
  fixes x :: "'a::len word"
  shows "unat (x AND NOT (2 ^ k - 1)) = unat x - unat x mod 2 ^ k"
proof -
  have m: "(2 ^ k - 1 :: 'a word) = mask k"
    by (simp add: mask_eq_exp_minus_1)
  have "x AND NOT (mask k) = x - (x AND mask k)"
  proof -
    have "NOT x AND (x AND mask k) = 0"
      by (rule bit_eqI) (simp add: bit_and_iff bit_not_iff)
    then have "x - (x AND mask k) = x AND NOT (x AND mask k)"
      by (rule disjunctive_diff_eq_and_not)
    also have "\<dots> = x AND NOT (mask k)"
      by (rule bit_eqI) (auto simp: bit_and_iff bit_not_iff bit_or_iff)
    finally show ?thesis by simp
  qed
  moreover have "x AND mask k \<le> x"
    by (rule word_and_le2)
  ultimately show ?thesis
    using unat_and_pow2_minus_1 [of x k] by (simp add: m unat_sub)
qed

text \<open>Rounding up to a multiple, on natural numbers.\<close>

definition round_up :: "nat \<Rightarrow> nat \<Rightarrow> nat" where
  "round_up n s = s + (n - 1) - (s + (n - 1)) mod n"

lemma round_up_eq: "round_up n s = n * ((s + (n - 1)) div n)"
  by (simp add: round_up_def minus_mod_eq_mult_div)

lemma round_up_mod [simp]: "round_up n s mod n = 0"
  by (simp add: round_up_eq)

lemma round_up_ge: "0 < n \<Longrightarrow> s \<le> round_up n s"
  unfolding round_up_def using mod_less_divisor [of n "s + (n - 1)"] by linarith

lemma round_up_less: "0 < n \<Longrightarrow> round_up n s < s + n"
  by (simp add: round_up_def)

lemma round_up_least:
  assumes "s \<le> t" "t mod n = 0" "0 < n"
  shows "round_up n s \<le> t"
proof -
  from assms obtain q where q: "t = n * q" by auto
  have "(s + (n - 1)) div n \<le> q"
  proof -
    have "s + (n - 1) < n * Suc q" using assms q by simp
    then show ?thesis by (metis less_Suc_eq_le less_mult_imp_div_less mult.commute)
  qed
  then show ?thesis unfolding round_up_eq q by (rule mult_le_mono2)
qed

section \<open>Lists\<close>

text \<open>\<open>Iterator::find_map\<close> and \<open>Iterator::position\<close>.\<close>

fun find_map :: "('a \<Rightarrow> 'b option) \<Rightarrow> 'a list \<Rightarrow> 'b option" where
  "find_map f [] = None"
| "find_map f (x # xs) = (case f x of None \<Rightarrow> find_map f xs | Some y \<Rightarrow> Some y)"

lemma find_map_Some:
  "find_map f xs = Some y \<longleftrightarrow>
     (\<exists>us x vs. xs = us @ x # vs \<and> f x = Some y \<and> (\<forall>u\<in>set us. f u = None))"
proof (induction xs)
  case Nil
  then show ?case by simp
next
  case (Cons a xs)
  show ?case
  proof (cases "f a")
    case None
    have "(\<exists>us x vs. a # xs = us @ x # vs \<and> f x = Some y \<and> (\<forall>u\<in>set us. f u = None)) \<longleftrightarrow>
      (\<exists>us x vs. xs = us @ x # vs \<and> f x = Some y \<and> (\<forall>u\<in>set us. f u = None))"
      (is "?l \<longleftrightarrow> ?r")
    proof
      assume ?l
      then obtain us x vs where "a # xs = us @ x # vs" "f x = Some y" "\<forall>u\<in>set us. f u = None"
        by blast
      with None show ?r by (cases us) auto
    next
      assume ?r
      then obtain us x vs where "xs = us @ x # vs" "f x = Some y" "\<forall>u\<in>set us. f u = None"
        by blast
      with None show ?l by (intro exI [of _ "a # us"] exI [of _ x] exI [of _ vs]) simp
    qed
    with None Cons show ?thesis by simp
  next
    case (Some b)
    have "b = y" if "a # xs = us @ x # vs" "f x = Some y" "\<forall>u\<in>set us. f u = None" for us x vs
      using that Some by (cases us) auto
    moreover have "a # xs = [] @ a # xs" by simp
    ultimately show ?thesis using Some
      by (metis empty_iff find_map.simps(2) list.set(1) option.inject option.simps(5))
  qed
qed

lemma find_map_None: "find_map f xs = None \<longleftrightarrow> (\<forall>x\<in>set xs. f x = None)"
  by (induction xs) (auto split: option.splits)

lemma find_map_append:
  "find_map f (xs @ ys) = (case find_map f xs of None \<Rightarrow> find_map f ys | Some y \<Rightarrow> Some y)"
  by (induction xs) (auto split: option.splits)

fun position :: "('a \<Rightarrow> bool) \<Rightarrow> 'a list \<Rightarrow> nat option" where
  "position p [] = None"
| "position p (x # xs) = (if p x then Some 0 else map_option Suc (position p xs))"

lemma position_Some:
  "position p xs = Some i \<longleftrightarrow> i < length xs \<and> p (xs ! i) \<and> (\<forall>j<i. \<not> p (xs ! j))"
proof (induction xs arbitrary: i)
  case Nil
  then show ?case by simp
next
  case (Cons x xs)
  show ?case
  proof (cases i)
    case 0
    then show ?thesis by (simp add: Cons)
  next
    case (Suc k)
    then show ?thesis by (auto simp: Cons All_less_Suc2)
  qed
qed

lemma position_None: "position p xs = None \<longleftrightarrow> (\<forall>x\<in>set xs. \<not> p x)"
  by (induction xs) auto

section \<open>Code that may panic\<close>

text \<open>
  \<open>Done v\<close> is a normal return, \<open>Panic\<close> an unwinding or aborting panic: an index or a slice
  out of range, an \<open>expect\<close> on \<open>None\<close>, an \<open>assert!\<close> that fails.
\<close>

datatype 'a run = Done 'a | Panic

fun run_bind :: "'a run \<Rightarrow> ('a \<Rightarrow> 'b run) \<Rightarrow> 'b run" where
  "run_bind (Done v) f = f v"
| "run_bind Panic f = Panic"

lemma run_bind_Done [run_simps]:
  "run_bind m f = Done w \<longleftrightarrow> (\<exists>v. m = Done v \<and> f v = Done w)"
  by (cases m) auto

lemma run_bind_case: "run_bind m f = (case m of Done v \<Rightarrow> f v | Panic \<Rightarrow> Panic)"
  by (cases m) auto

text \<open>Case splits in assumptions, for inverting an equation between results.\<close>

lemmas split_asms = option.split_asm prod.split_asm if_split_asm bool.split_asm sum.split_asm run.split_asm

text \<open>\<open>Option::expect\<close>.\<close>

fun expect :: "'a option \<Rightarrow> 'a run" where
  "expect (Some v) = Done v"
| "expect None = Panic"

lemma expect_Done [run_simps]: "expect x = Done v \<longleftrightarrow> x = Some v"
  by (cases x) auto

text \<open>Slicing: \<open>&xs[a..b]\<close> and \<open>&xs[a..]\<close>.\<close>

definition slice_range :: "'a list \<Rightarrow> nat \<Rightarrow> nat \<Rightarrow> 'a list run" where
  "slice_range xs a b = (if a \<le> b \<and> b \<le> length xs then Done (take (b - a) (drop a xs)) else Panic)"

definition slice_from :: "'a list \<Rightarrow> nat \<Rightarrow> 'a list run" where
  "slice_from xs a = (if a \<le> length xs then Done (drop a xs) else Panic)"

lemma slice_range_Done [run_simps]:
  "a \<le> b \<Longrightarrow> b \<le> length xs \<Longrightarrow> slice_range xs a b = Done (take (b - a) (drop a xs))"
  by (simp add: slice_range_def)

lemma slice_from_Done [run_simps]: "a \<le> length xs \<Longrightarrow> slice_from xs a = Done (drop a xs)"
  by (simp add: slice_from_def)

section \<open>Bytes\<close>

text \<open>\<open>u32::from_le_bytes\<close> and its kin, as the natural number the bytes denote.\<close>

fun le_nat :: "bytes \<Rightarrow> nat" where
  "le_nat [] = 0"
| "le_nat (b # bs) = unat b + 256 * le_nat bs"

fun le_enc :: "nat \<Rightarrow> nat \<Rightarrow> bytes" where
  "le_enc 0 n = []"
| "le_enc (Suc k) n = of_nat (n mod 256) # le_enc k (n div 256)"

lemma length_le_enc [simp]: "length (le_enc k n) = k"
  by (induction k arbitrary: n) auto

lemma le_nat_bound: "le_nat bs < 256 ^ length bs"
proof (induction bs)
  case Nil
  then show ?case by simp
next
  case (Cons b bs)
  have "unat b < 256"
    using unsigned_less [of b] by simp
  with Cons show ?case by simp
qed

lemma unat_of_nat_byte: "unat (of_nat n :: u8) = n mod 256"
  by (simp add: unat_of_nat)

lemma le_nat_enc: "le_nat (le_enc k n) = n mod 256 ^ k"
proof (induction k arbitrary: n)
  case 0
  then show ?case by simp
next
  case (Suc k)
  have "n mod (256 * 256 ^ k) = 256 * (n div 256 mod 256 ^ k) + n mod 256"
    by (rule mod_mult2_eq)
  with Suc show ?case by (simp add: unat_of_nat_byte)
qed

text \<open>
  \<open>core::str::from_utf8\<close> succeeds exactly on well-formed UTF-8: the shortest form of a
  code point that is not a surrogate.
\<close>

definition cont_byte :: "u8 \<Rightarrow> bool" where
  "cont_byte b \<longleftrightarrow> 0x80 \<le> b \<and> b \<le> 0xBF"

fun utf8_valid :: "bytes \<Rightarrow> bool" where
  "utf8_valid [] = True"
| "utf8_valid (b # bs) =
     (if b < 0x80 then utf8_valid bs
      else if 0xC2 \<le> b \<and> b \<le> 0xDF then
        (case bs of c # cs \<Rightarrow> cont_byte c \<and> utf8_valid cs | _ \<Rightarrow> False)
      else if 0xE0 \<le> b \<and> b \<le> 0xEF then
        (case bs of c # d # cs \<Rightarrow>
           (if b = 0xE0 then 0xA0 \<le> c \<and> c \<le> 0xBF
            else if b = 0xED then 0x80 \<le> c \<and> c \<le> 0x9F
            else cont_byte c) \<and> cont_byte d \<and> utf8_valid cs
         | _ \<Rightarrow> False)
      else if 0xF0 \<le> b \<and> b \<le> 0xF4 then
        (case bs of c # d # e # cs \<Rightarrow>
           (if b = 0xF0 then 0x90 \<le> c \<and> c \<le> 0xBF
            else if b = 0xF4 then 0x80 \<le> c \<and> c \<le> 0x8F
            else cont_byte c) \<and> cont_byte d \<and> cont_byte e \<and> utf8_valid cs
         | _ \<Rightarrow> False)
      else False)"

definition from_utf8 :: "bytes \<Rightarrow> bytes option" where
  "from_utf8 bs = (if utf8_valid bs then Some bs else None)"

text \<open>\<open>Ord::cmp\<close>.\<close>

datatype ordering = Less | Equal | Greater

definition cmp :: "'a::linorder \<Rightarrow> 'a \<Rightarrow> ordering" where
  "cmp a b = (if a < b then Less else if a = b then Equal else Greater)"

lemma cmp_simps [simp]:
  "cmp a b = Less \<longleftrightarrow> a < b" "cmp a b = Equal \<longleftrightarrow> a = b" "cmp a b = Greater \<longleftrightarrow> b < a"
  by (auto simp: cmp_def)

end
