(* ===== verification/Loader_Lock.thy ===== *)
theory Loader_Lock
  imports Prelude
begin

text \<open>
  The recursive lock that serialises the registry (\<open>src/src/registry/loader_lock.rs\<close>), in its two
  builds: the \<open>std\<close> one, a mutex-protected owner and depth with a condition variable, and the
  \<open>no_std\<close> one, a futex on the owner word.  Threads interleave: a step of the \<open>std\<close> machine is one
  critical section of the mutex, a step of the futex machine is one atomic access or one system
  call.  \<open>guards\<close> counts the \<open>LoaderGuard\<close>s a thread owns; it is not read by the code.
  Both machines satisfy the contract stated by the locale \<open>exclusive_lock\<close>.
\<close>

section \<open>The contract of a recursive lock\<close>

locale exclusive_lock =
  fixes step :: "'s \<Rightarrow> 's \<Rightarrow> bool"
    and start :: 's
    and guards_of :: "'s \<Rightarrow> 't \<Rightarrow> nat"
    and lock_inv :: "'s \<Rightarrow> bool"
  assumes inv_start: "lock_inv start"
    and inv_step: "lock_inv s \<Longrightarrow> step s s' \<Longrightarrow> lock_inv s'"
    and inv_excl: "lock_inv s \<Longrightarrow> 0 < guards_of s t \<Longrightarrow> 0 < guards_of s u \<Longrightarrow> t = u"
begin

lemma reachable_inv: "step\<^sup>*\<^sup>* start s \<Longrightarrow> lock_inv s"
  by (induction rule: rtranclp_induct) (auto intro: inv_start inv_step)

lemma reachable_exclusive:
  "step\<^sup>*\<^sup>* start s \<Longrightarrow> 0 < guards_of s t \<Longrightarrow> 0 < guards_of s u \<Longrightarrow> t = u"
  by (blast intro: inv_excl reachable_inv)

end

section \<open>The \<open>std\<close> build\<close>

type_synonym thread = nat

datatype std_pc = SIdle | SWant | SWait

record std_lock =
  s_owner :: "thread option"
  s_depth :: usize
  s_pc :: "thread \<Rightarrow> std_pc"
  s_guards :: "thread \<Rightarrow> nat"

definition std_new :: std_lock where
  "std_new = \<lparr>s_owner = None, s_depth = 0, s_pc = (\<lambda>_. SIdle), s_guards = (\<lambda>_. 0)\<rparr>"

text \<open>The outcome of one pass through the critical section of \<open>lock\<close> and of \<open>unlock\<close>.\<close>

datatype 'a lock_outcome = Blocks | Panics | Proceeds 'a

definition std_lock_body :: "std_lock \<Rightarrow> thread \<Rightarrow> std_lock lock_outcome" where
  "std_lock_body s t =
     (if (case s_owner s of None \<Rightarrow> False | Some owner \<Rightarrow> owner \<noteq> t) then Blocks
      else case checked_add (s_depth s) 1 of
             None \<Rightarrow> Panics
           | Some d \<Rightarrow> Proceeds (s\<lparr>s_owner := Some t, s_depth := d\<rparr>))"

text \<open>The second component says whether \<open>notify_one\<close> is called.\<close>

definition std_unlock_body :: "std_lock \<Rightarrow> thread \<Rightarrow> (std_lock \<times> bool) lock_outcome" where
  "std_unlock_body s t =
     (if s_depth s = 0 then Panics
      else let d = s_depth s - 1 in
           if d = 0 then Proceeds (s\<lparr>s_depth := d, s_owner := None\<rparr>, True)
           else Proceeds (s\<lparr>s_depth := d\<rparr>, False))"

inductive std_step :: "std_lock \<Rightarrow> std_lock \<Rightarrow> bool" where
  s_call: "s_pc s t = SIdle \<Longrightarrow> std_step s (s\<lparr>s_pc := (s_pc s)(t := SWant)\<rparr>)"
| s_acquire: "s_pc s t = SWant \<Longrightarrow> std_lock_body s t = Proceeds s' \<Longrightarrow>
    std_step s (s'\<lparr>s_pc := (s_pc s)(t := SIdle), s_guards := (s_guards s)(t := Suc (s_guards s t))\<rparr>)"
| s_wait: "s_pc s t = SWant \<Longrightarrow> std_lock_body s t = Blocks \<Longrightarrow>
    std_step s (s\<lparr>s_pc := (s_pc s)(t := SWait)\<rparr>)"
| s_spurious: "s_pc s t = SWait \<Longrightarrow> std_step s (s\<lparr>s_pc := (s_pc s)(t := SWant)\<rparr>)"
| s_drop: "s_pc s t = SIdle \<Longrightarrow> s_guards s t = Suc n \<Longrightarrow> std_unlock_body s t = Proceeds (s', False) \<Longrightarrow>
    std_step s (s'\<lparr>s_guards := (s_guards s)(t := n)\<rparr>)"
| s_drop_notify: "s_pc s t = SIdle \<Longrightarrow> s_guards s t = Suc n \<Longrightarrow>
    std_unlock_body s t = Proceeds (s', True) \<Longrightarrow> s_pc s u = SWait \<Longrightarrow>
    std_step s (s'\<lparr>s_guards := (s_guards s)(t := n), s_pc := (s_pc s)(u := SWant)\<rparr>)"
| s_drop_silent: "s_pc s t = SIdle \<Longrightarrow> s_guards s t = Suc n \<Longrightarrow>
    std_unlock_body s t = Proceeds (s', True) \<Longrightarrow> (\<And>u. s_pc s u \<noteq> SWait) \<Longrightarrow>
    std_step s (s'\<lparr>s_guards := (s_guards s)(t := n)\<rparr>)"

inductive_cases std_stepE: "std_step s s'"

section \<open>The \<open>no_std\<close> build\<close>

type_synonym tid = u32

text \<open>
  \<open>Loaded o\<close>: \<open>lock\<close> has loaded \<open>o\<close> from \<open>owner\<close>; \<open>StoreDepth\<close>: its \<open>compare_exchange\<close> succeeded;
  \<open>CallWait o\<close>: it is about to enter \<open>FUTEX_WAIT\<close> with expected value \<open>o\<close>; \<open>FetchSub\<close>, \<open>StoreZero\<close>
  and \<open>CallWake\<close> are the three accesses of \<open>unlock\<close>.
\<close>

datatype fpc = Idle | LoadOwner | Loaded tid | StoreDepth | CallWait tid | Sleeping
  | FetchSub | StoreZero | CallWake

record futex_lock =
  owner :: tid
  depth :: usize
  pc :: "tid \<Rightarrow> fpc"
  guards :: "tid \<Rightarrow> nat"

definition futex_new :: futex_lock where
  "futex_new = \<lparr>owner = 0, depth = 0, pc = (\<lambda>_. Idle), guards = (\<lambda>_. 0)\<rparr>"

abbreviation goto :: "futex_lock \<Rightarrow> tid \<Rightarrow> fpc \<Rightarrow> futex_lock" where
  "goto s t p \<equiv> s\<lparr>pc := (pc s)(t := p)\<rparr>"

inductive futex_step :: "futex_lock \<Rightarrow> futex_lock \<Rightarrow> bool" where
  call_lock: "t \<noteq> 0 \<Longrightarrow> pc s t = Idle \<Longrightarrow> futex_step s (goto s t LoadOwner)"
| load: "pc s t = LoadOwner \<Longrightarrow> futex_step s (goto s t (Loaded (owner s)))"
| reenter: "pc s t = Loaded t \<Longrightarrow> checked_add (depth s) 1 = Some d \<Longrightarrow>
    futex_step s (s\<lparr>depth := d, pc := (pc s)(t := Idle), guards := (guards s)(t := Suc (guards s t))\<rparr>)"
| cas_ok: "pc s t = Loaded 0 \<Longrightarrow> t \<noteq> 0 \<Longrightarrow> owner s = 0 \<Longrightarrow>
    futex_step s (s\<lparr>owner := t, pc := (pc s)(t := StoreDepth)\<rparr>)"
| cas_fail: "pc s t = Loaded 0 \<Longrightarrow> t \<noteq> 0 \<Longrightarrow> owner s \<noteq> 0 \<Longrightarrow> futex_step s (goto s t (CallWait 0))"
| busy: "pc s t = Loaded v \<Longrightarrow> v \<noteq> t \<Longrightarrow> v \<noteq> 0 \<Longrightarrow> futex_step s (goto s t (CallWait v))"
| store_depth: "pc s t = StoreDepth \<Longrightarrow>
    futex_step s (s\<lparr>depth := 1, pc := (pc s)(t := Idle), guards := (guards s)(t := Suc (guards s t))\<rparr>)"
| wait_sleep: "pc s t = CallWait v \<Longrightarrow> owner s = v \<Longrightarrow> futex_step s (goto s t Sleeping)"
| wait_again: "pc s t = CallWait v \<Longrightarrow> owner s \<noteq> v \<Longrightarrow> futex_step s (goto s t LoadOwner)"
| interrupt: "pc s t = Sleeping \<Longrightarrow> futex_step s (goto s t LoadOwner)"
| call_unlock: "pc s t = Idle \<Longrightarrow> 0 < guards s t \<Longrightarrow> futex_step s (goto s t FetchSub)"
| fetch_sub_last: "pc s t = FetchSub \<Longrightarrow> depth s = 1 \<Longrightarrow>
    futex_step s (s\<lparr>depth := 0, pc := (pc s)(t := StoreZero), guards := (guards s)(t := guards s t - 1)\<rparr>)"
| fetch_sub_inner: "pc s t = FetchSub \<Longrightarrow> depth s \<noteq> 1 \<Longrightarrow>
    futex_step s (s\<lparr>depth := depth s - 1, pc := (pc s)(t := Idle), guards := (guards s)(t := guards s t - 1)\<rparr>)"
| store_zero: "pc s t = StoreZero \<Longrightarrow> futex_step s (s\<lparr>owner := 0, pc := (pc s)(t := CallWake)\<rparr>)"
| wake_one: "pc s t = CallWake \<Longrightarrow> pc s u = Sleeping \<Longrightarrow>
    futex_step s (s\<lparr>pc := (pc s)(t := Idle, u := LoadOwner)\<rparr>)"
| wake_none: "pc s t = CallWake \<Longrightarrow> (\<And>u. pc s u \<noteq> Sleeping) \<Longrightarrow> futex_step s (goto s t Idle)"

section \<open>Invariants\<close>

definition std_inv :: "std_lock \<Rightarrow> bool" where
  "std_inv s \<longleftrightarrow>
     (\<forall>t. 0 < s_guards s t \<longrightarrow> s_owner s = Some t) \<and>
     (\<forall>t. s_owner s = Some t \<longrightarrow> 0 < s_guards s t \<and> unat (s_depth s) = s_guards s t) \<and>
     (s_owner s = None \<longrightarrow> s_depth s = 0)"

text \<open>No lost wake-up: a free lock with a waiter has a thread on its way to take it.\<close>

definition std_live :: "std_lock \<Rightarrow> bool" where
  "std_live s \<longleftrightarrow> (s_owner s = None \<and> (\<exists>t. s_pc s t = SWait) \<longrightarrow> (\<exists>t. s_pc s t = SWant))"

lemma std_inv_new: "std_inv std_new" "std_live std_new"
  by (simp_all add: std_inv_def std_live_def std_new_def)

lemma std_invD:
  assumes "std_inv s"
  shows "0 < s_guards s t \<Longrightarrow> s_owner s = Some t"
    and "s_owner s = Some t \<Longrightarrow> 0 < s_guards s t"
    and "s_owner s = Some t \<Longrightarrow> unat (s_depth s) = s_guards s t"
    and "s_owner s = None \<Longrightarrow> s_depth s = 0"
    and "s_owner s \<noteq> Some t \<Longrightarrow> s_guards s t = 0"
  using assms unfolding std_inv_def by blast+

lemma std_lock_body_ProceedsE:
  assumes "std_lock_body s t = Proceeds s'"
  obtains d where "s_owner s = None \<or> s_owner s = Some t"
    "unat d = Suc (unat (s_depth s))" "s' = s\<lparr>s_owner := Some t, s_depth := d\<rparr>"
proof -
  from assms have own: "s_owner s = None \<or> s_owner s = Some t"
    by (auto simp: std_lock_body_def split: option.splits if_splits)
  then obtain d where "checked_add (s_depth s) 1 = Some d" "s' = s\<lparr>s_owner := Some t, s_depth := d\<rparr>"
    using assms by (auto simp: std_lock_body_def split: option.splits)
  with own show thesis
    by (intro that [of d]) (simp_all add: checked_add_Some)
qed

lemma std_lock_body_Blocks:
  "std_lock_body s t = Blocks \<longleftrightarrow> (\<exists>u. s_owner s = Some u \<and> u \<noteq> t)"
  by (auto simp: std_lock_body_def split: option.splits)

lemma std_unlock_body_ProceedsE:
  assumes "std_unlock_body s t = Proceeds (s', b)"
  obtains (inner) d where "\<not> b" "unat (s_depth s) = Suc (unat d)" "d \<noteq> 0" "s' = s\<lparr>s_depth := d\<rparr>"
  | (final) "b" "unat (s_depth s) = 1" "s' = s\<lparr>s_depth := 0, s_owner := None\<rparr>"
proof (cases "s_depth s - 1 = 0")
  case True
  with assms final show thesis
    by (auto simp: std_unlock_body_def Let_def split: if_splits)
next
  case False
  with assms inner [of "s_depth s - 1"] show thesis
    by (auto simp: std_unlock_body_def Let_def unat_minus_one unat_gt_0 split: if_splits)
qed

text \<open>Changing program counters only does not touch the invariant.\<close>

lemma std_inv_pc [simp]: "std_inv (s\<lparr>s_pc := p\<rparr>) = std_inv s"
  by (simp add: std_inv_def)

lemma std_inv_acquire:
  assumes inv: "std_inv s" and own: "s_owner s = None \<or> s_owner s = Some t"
    and d: "unat d = Suc (unat (s_depth s))"
  shows "std_inv (s\<lparr>s_owner := Some t, s_depth := d, s_pc := p,
    s_guards := (s_guards s)(t := Suc (s_guards s t))\<rparr>)"
proof -
  have "s_guards s u = 0" if "u \<noteq> t" for u
    using own that std_invD(5) [OF inv, of u] by auto
  moreover have "unat (s_depth s) = s_guards s t"
    using own std_invD(3) [OF inv, of t] std_invD(4,5) [OF inv] by fastforce
  ultimately show ?thesis using d by (simp add: std_inv_def)
qed

lemma std_inv_inner:
  assumes inv: "std_inv s" and g: "s_guards s t = Suc n" and d: "unat (s_depth s) = Suc (unat d)" "d \<noteq> 0"
  shows "std_inv (s\<lparr>s_depth := d, s_guards := (s_guards s)(t := n)\<rparr>)"
proof -
  have own: "s_owner s = Some t" using std_invD(1) [OF inv, of t] g by simp
  moreover have "unat d = n" using std_invD(3) [OF inv own] g d by simp
  moreover have "0 < n" using d(2) \<open>unat d = n\<close> by (metis gr0I unat_eq_zero)
  moreover have "s_guards s u = 0" if "u \<noteq> t" for u
    using own that std_invD(5) [OF inv, of u] by auto
  ultimately show ?thesis by (simp add: std_inv_def)
qed

lemma std_inv_final:
  assumes inv: "std_inv s" and g: "s_guards s t = Suc n" and d: "unat (s_depth s) = 1"
  shows "std_inv (s\<lparr>s_depth := 0, s_owner := None, s_guards := (s_guards s)(t := n)\<rparr>)"
proof -
  have own: "s_owner s = Some t" using std_invD(1) [OF inv, of t] g by simp
  moreover have "n = 0" using std_invD(3) [OF inv own] g d by simp
  moreover have "s_guards s u = 0" if "u \<noteq> t" for u
    using own that std_invD(5) [OF inv, of u] by auto
  ultimately show ?thesis by (simp add: std_inv_def)
qed

lemma std_inv_step: "std_step s s' \<Longrightarrow> std_inv s \<Longrightarrow> std_inv s'"
proof (induction rule: std_step.induct)
  case (s_acquire s t s')
  from s_acquire(2) show ?case
    by (cases rule: std_lock_body_ProceedsE)
      (use s_acquire std_inv_acquire [of s t] in simp)
next
  case (s_drop s t n s')
  from s_drop(3) show ?case
    by (cases rule: std_unlock_body_ProceedsE) (use s_drop std_inv_inner [of s t n] in simp_all)
next
  case (s_drop_notify s t n s' u)
  from s_drop_notify(3) show ?case
    by (cases rule: std_unlock_body_ProceedsE)
      (use s_drop_notify std_inv_final [of s t n] std_inv_pc in simp_all)
next
  case (s_drop_silent s t n s')
  from s_drop_silent(3) show ?case
    by (cases rule: std_unlock_body_ProceedsE) (use s_drop_silent std_inv_final [of s t n] in simp_all)
qed simp_all

lemma std_live_want: "s_pc s v = SWant \<Longrightarrow> std_live s"
  by (auto simp: std_live_def)

lemma std_live_step: "std_step s s' \<Longrightarrow> std_inv s \<Longrightarrow> std_live s \<Longrightarrow> std_live s'"
proof (induction rule: std_step.induct)
  case (s_acquire s t s')
  from s_acquire(2) show ?case by (cases rule: std_lock_body_ProceedsE) (simp add: std_live_def)
next
  case (s_wait s t)
  then obtain u where "s_owner s = Some u" by (auto simp only: std_lock_body_Blocks)
  then show ?case by (simp add: std_live_def)
next
  case (s_drop s t n s')
  have "s_owner s = Some t" using std_invD(1) [of s t] s_drop by simp
  with s_drop(3) show ?case
    by (cases rule: std_unlock_body_ProceedsE) (simp_all add: std_live_def)
next
  case (s_drop_notify s t n s' u)
  show ?case by (rule std_live_want [of _ u]) simp
next
  case (s_drop_silent s t n s')
  from s_drop_silent(3) show ?case
    by (cases rule: std_unlock_body_ProceedsE) (use s_drop_silent in \<open>simp_all add: std_live_def\<close>)
next
  case (s_call s t)
  show ?case by (rule std_live_want [of _ t]) simp
next
  case (s_spurious s t)
  show ?case by (rule std_live_want [of _ t]) simp
qed

interpretation std_excl: exclusive_lock std_step std_new s_guards std_inv
proof unfold_locales
  show "std_inv std_new" by (rule std_inv_new)
next
  fix s s' assume "std_inv s" "std_step s s'"
  then show "std_inv s'" by (blast intro: std_inv_step)
next
  fix s t u assume "std_inv s" "0 < s_guards s t" "0 < s_guards s u"
  then show "t = u" using std_invD(1) [of s t] std_invD(1) [of s u] by simp
qed

lemma std_live_reachable: "std_step\<^sup>*\<^sup>* std_new s \<Longrightarrow> std_live s"
proof (induction rule: rtranclp_induct)
  case base
  then show ?case by (rule std_inv_new)
next
  case (step s s')
  then show ?case using std_excl.reachable_inv [OF step(1)] by (blast intro: std_live_step)
qed


text \<open>
  What the futex machine keeps.  A thread is in its section when it owns guards, or stands
  between the successful exchange and the store of the depth, or between the last decrement and
  the store of the owner; then it is the recorded owner, and while it owns guards the depth is
  their number.
\<close>

definition in_section :: "fpc \<Rightarrow> nat \<Rightarrow> bool" where
  "in_section p g \<longleftrightarrow> 0 < g \<or> p = StoreDepth \<or> p = StoreZero"

fun pc_ok :: "fpc \<Rightarrow> nat \<Rightarrow> tid \<Rightarrow> bool" where
  "pc_ok Idle g t = True"
| "pc_ok LoadOwner g t = True"
| "pc_ok (Loaded v) g t = ((v = t) = (0 < g))"
| "pc_ok FetchSub g t = (0 < g)"
| "pc_ok p g t = (g = 0)"

definition thread_ok :: "tid \<Rightarrow> usize \<Rightarrow> fpc \<Rightarrow> nat \<Rightarrow> tid \<Rightarrow> bool" where
  "thread_ok w d p g t \<longleftrightarrow>
     pc_ok p g t \<and> (in_section p g \<longrightarrow> w = t) \<and> (0 < g \<longrightarrow> unat d = g)"

definition futex_inv :: "futex_lock \<Rightarrow> bool" where
  "futex_inv s \<longleftrightarrow>
     pc s 0 = Idle \<and> guards s 0 = 0 \<and>
     (\<forall>t. thread_ok (owner s) (depth s) (pc s t) (guards s t) t) \<and>
     (owner s \<noteq> 0 \<longrightarrow> in_section (pc s (owner s)) (guards s (owner s)))"

lemma futex_inv_new: "futex_inv futex_new"
  by (simp add: futex_inv_def futex_new_def thread_ok_def in_section_def)

lemma futex_invD:
  assumes "futex_inv s"
  shows "pc s 0 = Idle" and "guards s 0 = 0"
    and "thread_ok (owner s) (depth s) (pc s t) (guards s t) t"
    and "owner s \<noteq> 0 \<Longrightarrow> in_section (pc s (owner s)) (guards s (owner s))"
  using assms unfolding futex_inv_def by blast+

lemma thread_ok_outside: "thread_ok w d p g u \<Longrightarrow> w \<noteq> u \<Longrightarrow> thread_ok w' d' p g u"
  by (auto simp: thread_ok_def in_section_def)

text \<open>A step of one thread \<open>t\<close> that either keeps owner and depth, or is taken in its section, or
  takes the free lock.\<close>

lemma futex_inv_frame:
  assumes inv: "futex_inv s" and t: "t \<noteq> 0"
    and ch: "(w = owner s \<and> d = depth s) \<or> owner s = t \<or> owner s = 0"
    and ok: "thread_ok w d p g t"
    and own: "w = t \<and> in_section p g \<or> w = 0 \<or> w = owner s \<and> w \<noteq> t"
  shows "futex_inv (s\<lparr>owner := w, depth := d, pc := (pc s)(t := p), guards := (guards s)(t := g)\<rparr>)"
proof -
  have other: "thread_ok w d (pc s u) (guards s u) u" if "u \<noteq> t" for u
  proof (cases "w = owner s \<and> d = depth s")
    case True
    then show ?thesis using futex_invD(3) [OF inv, of u] by simp
  next
    case False
    have "thread_ok w d (pc s 0) (guards s 0) 0"
      using futex_invD(1,2) [OF inv] by (simp add: thread_ok_def in_section_def)
    moreover have "owner s \<noteq> u" if "u \<noteq> 0"
      using False ch that \<open>u \<noteq> t\<close> by auto
    ultimately show ?thesis
      using thread_ok_outside [OF futex_invD(3) [OF inv, of u]] by (cases "u = 0") auto
  qed
  show ?thesis
    unfolding futex_inv_def using t futex_invD [OF inv] ok own other by auto
qed

lemma futex_step_inv_cases:
  assumes inv: "futex_inv s" and p: "pc s t \<noteq> Idle"
  shows "t \<noteq> 0"
  using futex_invD(1) [OF inv] p by auto

text \<open>Moves that keep owner, depth and guards.\<close>

lemma futex_inv_goto:
  assumes inv: "futex_inv s" and t: "t \<noteq> 0"
    and p: "pc_ok p (guards s t) t" "p \<noteq> StoreDepth" "p \<noteq> StoreZero"
      "pc s t \<noteq> StoreDepth" "pc s t \<noteq> StoreZero"
  shows "futex_inv (goto s t p)"
proof -
  have "thread_ok (owner s) (depth s) p (guards s t) t"
    using futex_invD(3) [OF inv, of t] p by (simp add: thread_ok_def in_section_def)
  moreover have "owner s = t \<Longrightarrow> in_section p (guards s t)"
    using futex_invD(4) [OF inv] t p by (auto simp: in_section_def)
  ultimately have "futex_inv (s\<lparr>owner := owner s, depth := depth s, pc := (pc s)(t := p),
      guards := (guards s)(t := guards s t)\<rparr>)"
    using futex_inv_frame [OF inv t] by blast
  then show ?thesis by simp
qed

lemma futex_inv_step: "futex_step s s' \<Longrightarrow> futex_inv s \<Longrightarrow> futex_inv s'"
proof (induction rule: futex_step.induct)
  case (call_lock t s)
  then show ?case by (intro futex_inv_goto) auto
next
  case (load s t)
  have t: "t \<noteq> 0" using futex_step_inv_cases [OF load(2)] load(1) by auto
  have "(owner s = t) = (0 < guards s t)"
    using futex_invD(3) [OF load(2), of t] futex_invD(4) [OF load(2)] t load(1)
    by (auto simp: thread_ok_def in_section_def)
  with load t show ?case by (intro futex_inv_goto) auto
next
  case (reenter s t d)
  have t: "t \<noteq> 0" using futex_step_inv_cases [OF reenter(3)] reenter(1) by auto
  have g: "0 < guards s t" "owner s = t" "unat (depth s) = guards s t"
    using futex_invD(3) [OF reenter(3), of t] reenter(1) by (auto simp: thread_ok_def in_section_def)
  then have "thread_ok t d Idle (Suc (guards s t)) t"
    using reenter(2) by (simp add: thread_ok_def checked_add_Some)
  then have "futex_inv (s\<lparr>owner := owner s, depth := d, pc := (pc s)(t := Idle),
      guards := (guards s)(t := Suc (guards s t))\<rparr>)"
    using futex_inv_frame [OF reenter(3) t, of "owner s" d] g by (simp add: in_section_def)
  then show ?case by simp
next
  case (cas_ok s t)
  have "guards s t = 0" using futex_invD(3) [OF cas_ok(4), of t] cas_ok by (auto simp: thread_ok_def)
  then have "futex_inv (s\<lparr>owner := t, depth := depth s, pc := (pc s)(t := StoreDepth),
      guards := (guards s)(t := guards s t)\<rparr>)"
    using cas_ok by (intro futex_inv_frame) (auto simp: thread_ok_def in_section_def)
  then show ?case by simp
next
  case (cas_fail s t)
  have "guards s t = 0" using futex_invD(3) [OF cas_fail(4), of t] cas_fail by (auto simp: thread_ok_def)
  with cas_fail show ?case by (intro futex_inv_goto) auto
next
  case (busy s t v)
  have "guards s t = 0" using futex_invD(3) [OF busy(4), of t] busy by (auto simp: thread_ok_def)
  with busy show ?case using futex_step_inv_cases [OF busy(4)] by (intro futex_inv_goto) auto
next
  case (store_depth s t)
  have t: "t \<noteq> 0" using futex_step_inv_cases [OF store_depth(2)] store_depth(1) by auto
  have g: "guards s t = 0" "owner s = t"
    using futex_invD(3) [OF store_depth(2), of t] store_depth(1) by (auto simp: thread_ok_def in_section_def)
  then have "futex_inv (s\<lparr>owner := owner s, depth := 1, pc := (pc s)(t := Idle),
      guards := (guards s)(t := Suc (guards s t))\<rparr>)"
    using store_depth t by (intro futex_inv_frame) (auto simp: thread_ok_def in_section_def)
  then show ?case by simp
next
  case (wait_sleep s t v)
  have "guards s t = 0" using futex_invD(3) [OF wait_sleep(3), of t] wait_sleep(1) by (auto simp: thread_ok_def)
  with wait_sleep show ?case using futex_step_inv_cases [OF wait_sleep(3)] by (intro futex_inv_goto) auto
next
  case (wait_again s t v)
  then show ?case using futex_step_inv_cases [OF wait_again(3)] by (intro futex_inv_goto) auto
next
  case (interrupt s t)
  then show ?case using futex_step_inv_cases [OF interrupt(2)] by (intro futex_inv_goto) auto
next
  case (call_unlock s t)
  then have "t \<noteq> 0" using futex_invD(2) [OF call_unlock(3)] by auto
  with call_unlock show ?case by (intro futex_inv_goto) auto
next
  case (fetch_sub_last s t)
  have t: "t \<noteq> 0" using futex_step_inv_cases [OF fetch_sub_last(3)] fetch_sub_last(1) by auto
  have g: "guards s t = 1" "owner s = t"
    using futex_invD(3) [OF fetch_sub_last(3), of t] fetch_sub_last(1,2)
    by (auto simp: thread_ok_def in_section_def)
  then have "futex_inv (s\<lparr>owner := owner s, depth := 0, pc := (pc s)(t := StoreZero),
      guards := (guards s)(t := guards s t - 1)\<rparr>)"
    using fetch_sub_last t by (intro futex_inv_frame) (auto simp: thread_ok_def in_section_def)
  then show ?case by simp
next
  case (fetch_sub_inner s t)
  have t: "t \<noteq> 0" using futex_step_inv_cases [OF fetch_sub_inner(3)] fetch_sub_inner(1) by auto
  have g: "0 < guards s t" "owner s = t" "unat (depth s) = guards s t"
    using futex_invD(3) [OF fetch_sub_inner(3), of t] fetch_sub_inner(1)
    by (auto simp: thread_ok_def in_section_def)
  then have nz: "depth s \<noteq> 0" by auto
  then have d: "unat (depth s - 1) = guards s t - 1" using g by (simp add: unat_minus_one)
  have "guards s t \<noteq> 1"
    using fetch_sub_inner(2) g(3) by (metis unat_1 word_unat_eq_iff)
  then have "futex_inv (s\<lparr>owner := owner s, depth := depth s - 1, pc := (pc s)(t := Idle),
      guards := (guards s)(t := guards s t - 1)\<rparr>)"
    using fetch_sub_inner(3) t g d by (intro futex_inv_frame) (auto simp: thread_ok_def in_section_def)
  then show ?case by simp
next
  case (store_zero s t)
  have t: "t \<noteq> 0" using futex_step_inv_cases [OF store_zero(2)] store_zero(1) by auto
  have g: "guards s t = 0" "owner s = t"
    using futex_invD(3) [OF store_zero(2), of t] store_zero(1) by (auto simp: thread_ok_def in_section_def)
  then have "futex_inv (s\<lparr>owner := 0, depth := depth s, pc := (pc s)(t := CallWake),
      guards := (guards s)(t := guards s t)\<rparr>)"
    using store_zero t by (intro futex_inv_frame) (auto simp: thread_ok_def in_section_def)
  then show ?case by simp
next
  case (wake_one s t u)
  have ne: "t \<noteq> 0" "u \<noteq> 0" "u \<noteq> t"
    using futex_step_inv_cases [OF wake_one(3)] wake_one(1,2) by auto
  have "futex_inv (goto s t Idle)" using wake_one ne by (intro futex_inv_goto) auto
  then have "futex_inv (goto (goto s t Idle) u LoadOwner)"
    using wake_one ne by (intro futex_inv_goto) auto
  then show ?case by simp
next
  case (wake_none s t)
  then show ?case using futex_step_inv_cases [OF wake_none(3)] by (intro futex_inv_goto) auto
qed

interpretation futex_excl: exclusive_lock futex_step futex_new guards futex_inv
proof unfold_locales
  show "futex_inv futex_new" by (rule futex_inv_new)
next
  fix s s' assume "futex_inv s" "futex_step s s'"
  then show "futex_inv s'" by (blast intro: futex_inv_step)
next
  fix s t u assume "futex_inv s" "0 < guards s t" "0 < guards s u"
  then show "t = u"
    using futex_invD(3) [of s t] futex_invD(3) [of s u] by (simp add: thread_ok_def in_section_def)
qed

section \<open>Properties\<close>

text \<open>C7. In every reachable state of the \<open>std\<close> lock a thread that owns a guard is the recorded
  owner, the depth is the number of its guards, no other thread owns a guard, and dropping the guard
  does not panic.\<close>

theorem std_lock_safe:
  assumes "std_step\<^sup>*\<^sup>* std_new s" and "0 < s_guards s t"
  shows "s_owner s = Some t \<and> unat (s_depth s) = s_guards s t \<and>
    {u. 0 < s_guards s u} = {t} \<and> std_unlock_body s t \<noteq> Panics"
proof -
  have inv: "std_inv s" by (rule std_excl.reachable_inv [OF assms(1)])
  have own: "s_owner s = Some t" using std_invD(1) [OF inv] assms(2) by blast
  have d: "unat (s_depth s) = s_guards s t" by (rule std_invD(3) [OF inv own])
  then have "std_unlock_body s t \<noteq> Panics"
    using assms(2) by (auto simp: std_unlock_body_def Let_def)
  with own d show ?thesis using std_excl.reachable_exclusive [OF assms(1)] assms(2) by blast
qed

definition std_held :: std_lock where
  "std_held = \<lparr>s_owner = Some 7, s_depth = 1, s_pc = (\<lambda>_. SIdle), s_guards = (\<lambda>_. 0)(7 := 1)\<rparr>"

lemma std_held_reachable: "std_step\<^sup>*\<^sup>* std_new std_held"
proof -
  let ?s1 = "std_new\<lparr>s_pc := (s_pc std_new)(7 := SWant)\<rparr>"
  have 1: "std_step std_new ?s1" by (rule s_call) (simp add: std_new_def)
  have "std_lock_body ?s1 7 = Proceeds (?s1\<lparr>s_owner := Some 7, s_depth := 1\<rparr>)"
    by (simp add: std_lock_body_def std_new_def checked_add_def)
  then have "std_step ?s1 std_held"
    using s_acquire [of ?s1 7] by (simp add: std_new_def std_held_def fun_upd_idem)
  with 1 show ?thesis by (meson converse_rtranclp_into_rtranclp rtranclp.rtrancl_refl)
qed

theorem std_lock_safe_witness: "s_owner std_held = Some 7 \<and> {u. 0 < s_guards std_held u} = {7}"
  using std_lock_safe [OF std_held_reachable, of 7] by (simp add: std_held_def)

text \<open>C18. The \<open>std\<close> lock loses no wake-up: whenever the lock is free and some thread waits on the
  condition variable, some thread is on its way to take the lock.\<close>

theorem std_no_lost_wakeup:
  assumes "std_step\<^sup>*\<^sup>* std_new s" and "s_owner s = None" and "s_pc s t = SWait"
  shows "\<exists>u. s_pc s u = SWant"
  using std_live_reachable [OF assms(1)] assms(2,3) by (auto simp: std_live_def)

definition std_woken :: std_lock where
  "std_woken = \<lparr>s_owner = None, s_depth = 0, s_pc = (\<lambda>_. SIdle)(8 := SWant, 9 := SWait), s_guards = (\<lambda>_. 0)\<rparr>"

lemma std_woken_reachable: "std_step\<^sup>*\<^sup>* std_new std_woken"
proof -
  let ?a = "std_held\<lparr>s_pc := (\<lambda>_. SIdle)(8 := SWant)\<rparr>"
  let ?b = "std_held\<lparr>s_pc := (\<lambda>_. SIdle)(8 := SWait)\<rparr>"
  let ?c = "std_held\<lparr>s_pc := (\<lambda>_. SIdle)(8 := SWait, 9 := SWant)\<rparr>"
  let ?d = "std_held\<lparr>s_pc := (\<lambda>_. SIdle)(8 := SWait, 9 := SWait)\<rparr>"
  have a: "std_step std_held ?a" using s_call [of std_held 8] by (simp add: std_held_def)
  have b: "std_step ?a ?b"
    using s_wait [of ?a 8] by (simp add: std_held_def std_lock_body_def)
  have c: "std_step ?b ?c" using s_call [of ?b 9] by (simp add: std_held_def)
  have d: "std_step ?c ?d"
    using s_wait [of ?c 9] by (simp add: std_held_def std_lock_body_def fun_upd_twist)
  have e: "std_step ?d std_woken"
    using s_drop_notify [of ?d 7 0 "?d\<lparr>s_depth := 0, s_owner := None\<rparr>" 8]
    by (simp add: std_held_def std_woken_def std_unlock_body_def fun_upd_idem fun_upd_twist)
  show ?thesis using std_held_reachable a b c d e by (meson rtranclp.rtrancl_into_rtrancl)
qed

theorem std_no_lost_wakeup_witness: "\<exists>u. s_pc std_woken u = SWant"
  using std_no_lost_wakeup [OF std_woken_reachable, of 9] by (simp add: std_woken_def)

text \<open>C17. In every reachable state of the futex lock a thread that owns a guard is the recorded owner,
  the depth is the number of its guards, and no other thread owns a guard.\<close>

theorem futex_lock_safe:
  assumes "futex_step\<^sup>*\<^sup>* futex_new s" and "0 < guards s t"
  shows "owner s = t \<and> unat (depth s) = guards s t \<and> {u. 0 < guards s u} = {t}"
  using futex_invD(3) [OF futex_excl.reachable_inv [OF assms(1)], of t]
    futex_excl.reachable_exclusive [OF assms(1)] assms(2)
  by (auto simp: thread_ok_def in_section_def)

definition futex_at :: "tid \<Rightarrow> usize \<Rightarrow> fpc \<Rightarrow> fpc \<Rightarrow> nat \<Rightarrow> futex_lock" where
  "futex_at w d p1 p2 g =
     \<lparr>owner = w, depth = d, pc = (\<lambda>_. Idle)(1 := p1, 2 := p2), guards = (\<lambda>_. 0)(2 := g)\<rparr>"

lemma futex_at_start: "futex_new = futex_at 0 0 Idle Idle 0"
  by (simp add: futex_new_def futex_at_def fun_eq_iff)

lemma futex_at_upd1: "(futex_at w d p1 p2 g)\<lparr>pc := (pc (futex_at w d p1 p2 g))(1 := q)\<rparr> = futex_at w d q p2 g"
  by (simp add: futex_at_def fun_upd_twist)

lemma futex_at_sel:
  "pc (futex_at w d p1 p2 g) 1 = p1" "pc (futex_at w d p1 p2 g) 2 = p2" "owner (futex_at w d p1 p2 g) = w"
  "depth (futex_at w d p1 p2 g) = d" "guards (futex_at w d p1 p2 g) 2 = g"
  by (simp_all add: futex_at_def)

lemma futex_at_held: "futex_step\<^sup>*\<^sup>* futex_new (futex_at 2 1 (Loaded 0) Idle 1)"
proof -
  have a: "futex_step (futex_at 0 0 Idle Idle 0) (futex_at 0 0 LoadOwner Idle 0)"
    using call_lock [of 1 "futex_at 0 0 Idle Idle 0"] by (simp add: futex_at_upd1 futex_at_sel)
  have b: "futex_step (futex_at 0 0 LoadOwner Idle 0) (futex_at 0 0 (Loaded 0) Idle 0)"
    using load [of "futex_at 0 0 LoadOwner Idle 0" 1] by (simp add: futex_at_upd1 futex_at_sel)
  have c: "futex_step (futex_at 0 0 (Loaded 0) Idle 0) (futex_at 0 0 (Loaded 0) LoadOwner 0)"
    using call_lock [of 2 "futex_at 0 0 (Loaded 0) Idle 0"] by (simp add: futex_at_def)
  have d: "futex_step (futex_at 0 0 (Loaded 0) LoadOwner 0) (futex_at 0 0 (Loaded 0) (Loaded 0) 0)"
    using load [of "futex_at 0 0 (Loaded 0) LoadOwner 0" 2] by (simp add: futex_at_def)
  have e: "futex_step (futex_at 0 0 (Loaded 0) (Loaded 0) 0) (futex_at 2 0 (Loaded 0) StoreDepth 0)"
    using cas_ok [of "futex_at 0 0 (Loaded 0) (Loaded 0) 0" 2] by (simp add: futex_at_def)
  have f: "futex_step (futex_at 2 0 (Loaded 0) StoreDepth 0) (futex_at 2 1 (Loaded 0) Idle 1)"
    using store_depth [of "futex_at 2 0 (Loaded 0) StoreDepth 0" 2] by (simp add: futex_at_def)
  show ?thesis unfolding futex_at_start using a b c d e f
    by (meson converse_rtranclp_into_rtranclp rtranclp.rtrancl_refl)
qed

theorem futex_lock_safe_witness:
  "{u. 0 < guards (futex_at 2 1 (Loaded 0) Idle 1) u} = {2}"
  using futex_lock_safe [OF futex_at_held, of 2] by (simp add: futex_at_sel)

text \<open>The futex lock can lose a wake-up.  A thread that loaded a free owner word and then lost
  the exchange calls \<open>FUTEX_WAIT\<close> with the expected value 0; if the winner has released the lock in
  between, the kernel finds the expected value and the thread sleeps on a free lock: there is a
  reachable state in which nobody holds the lock, nobody else is running and thread 1 sleeps.\<close>

theorem futex_lost_wakeup:
  "\<exists>s. futex_step\<^sup>*\<^sup>* futex_new s \<and> owner s = 0 \<and> depth s = 0 \<and> guards s = (\<lambda>_. 0) \<and>
     pc s = (\<lambda>_. Idle)(1 := Sleeping)"
proof -
  let ?s = "futex_at 0 0 Sleeping Idle 0"
  have a: "futex_step (futex_at 2 1 (Loaded 0) Idle 1) (futex_at 2 1 (CallWait 0) Idle 1)"
    using cas_fail [of "futex_at 2 1 (Loaded 0) Idle 1" 1] by (simp add: futex_at_upd1 futex_at_sel)
  have b: "futex_step (futex_at 2 1 (CallWait 0) Idle 1) (futex_at 2 1 (CallWait 0) FetchSub 1)"
    using call_unlock [of "futex_at 2 1 (CallWait 0) Idle 1" 2] by (simp add: futex_at_def)
  have c: "futex_step (futex_at 2 1 (CallWait 0) FetchSub 1) (futex_at 2 0 (CallWait 0) StoreZero 0)"
    using fetch_sub_last [of "futex_at 2 1 (CallWait 0) FetchSub 1" 2] by (simp add: futex_at_def)
  have d: "futex_step (futex_at 2 0 (CallWait 0) StoreZero 0) (futex_at 0 0 (CallWait 0) CallWake 0)"
    using store_zero [of "futex_at 2 0 (CallWait 0) StoreZero 0" 2] by (simp add: futex_at_def)
  have e: "futex_step (futex_at 0 0 (CallWait 0) CallWake 0) (futex_at 0 0 (CallWait 0) Idle 0)"
    using wake_none [of "futex_at 0 0 (CallWait 0) CallWake 0" 2] by (simp add: futex_at_def)
  have f: "futex_step (futex_at 0 0 (CallWait 0) Idle 0) ?s"
    using wait_sleep [of "futex_at 0 0 (CallWait 0) Idle 0" 1 0] by (simp add: futex_at_upd1 futex_at_sel)
  have "futex_step\<^sup>*\<^sup>* futex_new ?s"
    using futex_at_held a b c d e f by (meson rtranclp.rtrancl_into_rtrancl)
  then show ?thesis
    by (intro exI [of _ ?s]) (simp add: futex_at_def fun_eq_iff)
qed

end
