(* ===== verification/Registry.thy ===== *)
theory Registry
  imports Loader_Lock
begin

text \<open>
  The registry of the process (\<open>Registry\<close> and \<open>RegistryGuard\<close> of \<open>src/src/registry/loader_lock.rs\<close>): the manager in
  a \<open>RefCell\<close> behind the recursive lock.  A thread that holds the lock may borrow the manager again, so the lock
  alone does not exclude two accesses, and the cell alone is not safe between threads.  The step relation is
  parameterised by the lock and is used with both builds; the lemmas are proved from the contract \<open>exclusive_lock\<close>.
\<close>

section \<open>The registry\<close>

text \<open>The flag of the \<open>RefCell\<close> counts shared borrows, and is \<open>-1\<close> during an exclusive one.  \<open>refs\<close> and \<open>muts\<close> count
  the \<open>Ref\<close>s and \<open>RefMut\<close>s a thread has; the code does not read them.\<close>

record ('s, 't) registry =
  loader :: 's
  cell :: int
  refs :: "'t \<Rightarrow> nat"
  muts :: "'t \<Rightarrow> nat"

definition registry_new :: "'s \<Rightarrow> ('s, 't) registry" where
  "registry_new l = \<lparr>loader = l, cell = 0, refs = (\<lambda>_. 0), muts = (\<lambda>_. 0)\<rparr>"

text \<open>\<open>None\<close> is the panic of a conflicting borrow, or of the counter of shared ones.\<close>

definition guard_borrow :: "('s, 't) registry \<Rightarrow> 't \<Rightarrow> ('s, 't) registry option" where
  "guard_borrow r t =
     (if cell r < 0 \<or> cell r + 1 = 2 ^ 63 then None
      else Some (r\<lparr>cell := cell r + 1, refs := (refs r)(t := Suc (refs r t))\<rparr>))"

definition guard_borrow_mut :: "('s, 't) registry \<Rightarrow> 't \<Rightarrow> ('s, 't) registry option" where
  "guard_borrow_mut r t =
     (if cell r \<noteq> 0 then None else Some (r\<lparr>cell := - 1, muts := (muts r)(t := Suc (muts r t))\<rparr>))"

text \<open>A borrow is taken through a guard, and its lifetime ends before that of the guard.\<close>

inductive reg_step :: "('s \<Rightarrow> 's \<Rightarrow> bool) \<Rightarrow> ('s \<Rightarrow> 't \<Rightarrow> nat) \<Rightarrow> ('s, 't) registry \<Rightarrow> ('s, 't) registry \<Rightarrow> bool"
  for step and guards_of where
  r_lock: "step (loader r) s' \<Longrightarrow> (\<And>t. 0 < refs r t + muts r t \<Longrightarrow> 0 < guards_of s' t) \<Longrightarrow>
    reg_step step guards_of r (r\<lparr>loader := s'\<rparr>)"
| r_borrow: "0 < guards_of (loader r) t \<Longrightarrow> guard_borrow r t = Some r' \<Longrightarrow> reg_step step guards_of r r'"
| r_borrow_mut: "0 < guards_of (loader r) t \<Longrightarrow> guard_borrow_mut r t = Some r' \<Longrightarrow> reg_step step guards_of r r'"
| r_drop_ref: "refs r t = Suc n \<Longrightarrow> reg_step step guards_of r (r\<lparr>cell := cell r - 1, refs := (refs r)(t := n)\<rparr>)"
| r_drop_mut: "muts r t = Suc n \<Longrightarrow> reg_step step guards_of r (r\<lparr>cell := cell r + 1, muts := (muts r)(t := n)\<rparr>)"

section \<open>Borrows of one thread\<close>

text \<open>Only thread \<open>t\<close> has borrows, and the flag counts them.\<close>

definition borrows_of :: "('s, 't) registry \<Rightarrow> 't \<Rightarrow> bool" where
  "borrows_of r t \<longleftrightarrow>
     (\<forall>u. u \<noteq> t \<longrightarrow> refs r u = 0 \<and> muts r u = 0) \<and> cell r = int (refs r t) - int (muts r t) \<and>
     muts r t \<le> 1 \<and> (muts r t = 0 \<or> refs r t = 0)"

lemma borrows_of_loader [simp]: "borrows_of (r\<lparr>loader := s\<rparr>) t = borrows_of r t"
  by (simp add: borrows_of_def)

lemma borrows_move:
  assumes "borrows_of r t" and "refs r t + muts r t = 0"
  shows "borrows_of r u"
proof -
  have "refs r v = 0 \<and> muts r v = 0" for v using assms by (cases "v = t") (auto simp: borrows_of_def)
  with assms(1) show ?thesis by (simp add: borrows_of_def)
qed

lemma guard_borrow_SomeE:
  assumes "guard_borrow r t = Some r'"
  obtains "loader r' = loader r" "muts r' = muts r" "refs r' = (refs r)(t := Suc (refs r t))" "cell r' = cell r + 1" "0 \<le> cell r"
  using assms by (auto simp: guard_borrow_def split: if_splits)

lemma guard_borrow_mut_SomeE:
  assumes "guard_borrow_mut r t = Some r'"
  obtains "loader r' = loader r" "refs r' = refs r" "muts r' = (muts r)(t := Suc (muts r t))" "cell r' = - 1" "cell r = 0"
  using assms by (auto simp: guard_borrow_mut_def split: if_splits)

lemma borrows_of_unique: "borrows_of r t \<Longrightarrow> 0 < refs r u + muts r u \<Longrightarrow> u = t"
  by (auto simp: borrows_of_def)

lemma guard_borrow_keeps: "borrows_of r t \<Longrightarrow> guard_borrow r t = Some r' \<Longrightarrow> borrows_of r' t"
  by (erule guard_borrow_SomeE) (auto simp: borrows_of_def)

lemma guard_borrow_mut_keeps: "borrows_of r t \<Longrightarrow> guard_borrow_mut r t = Some r' \<Longrightarrow> borrows_of r' t"
  by (erule guard_borrow_mut_SomeE) (auto simp: borrows_of_def)

lemma guard_borrow_panics:
  "borrows_of r t \<Longrightarrow> guard_borrow r t = None \<longleftrightarrow> 0 < muts r t \<or> refs r t = 2 ^ 63 - 1"
  by (auto simp: borrows_of_def guard_borrow_def)

lemma guard_borrow_mut_panics: "borrows_of r t \<Longrightarrow> guard_borrow_mut r t = None \<longleftrightarrow> 0 < refs r t + muts r t"
  by (auto simp: borrows_of_def guard_borrow_mut_def)

section \<open>The lock and the cell together\<close>

context exclusive_lock
begin

definition reg_inv :: "('s, 't) registry \<Rightarrow> bool" where
  "reg_inv r \<longleftrightarrow> lock_inv (loader r) \<and> (\<forall>t. 0 < refs r t + muts r t \<longrightarrow> 0 < guards_of (loader r) t) \<and> (\<exists>t. borrows_of r t)"

lemma reg_invI:
  assumes "lock_inv (loader r)" and "borrows_of r t" and "0 < guards_of (loader r) t"
  shows "reg_inv r"
  using assms borrows_of_unique [OF assms(2)] by (auto simp: reg_inv_def)

lemma reg_inv_lock: "reg_inv r \<Longrightarrow> lock_inv (loader r)"
  by (simp add: reg_inv_def)

lemma reg_inv_holder: "reg_inv r \<Longrightarrow> 0 < refs r t + muts r t \<Longrightarrow> 0 < guards_of (loader r) t"
  by (auto simp: reg_inv_def)

lemma reg_inv_guard:
  assumes "reg_inv r" and "0 < guards_of (loader r) t"
  shows "borrows_of r t"
proof -
  obtain u where u: "borrows_of r u" using assms(1) by (auto simp: reg_inv_def)
  show ?thesis
  proof (cases "refs r u + muts r u = 0")
    case True
    with u show ?thesis by (rule borrows_move)
  next
    case False
    then have "0 < guards_of (loader r) u" using assms(1) by (simp add: reg_inv_holder)
    then have "u = t" using assms inv_excl reg_inv_lock by blast
    with u show ?thesis by simp
  qed
qed

lemma reg_inv_step: "reg_step step guards_of r r' \<Longrightarrow> reg_inv r \<Longrightarrow> reg_inv r'"
proof (induction rule: reg_step.induct)
  case (r_lock r s')
  then show ?case by (auto simp: reg_inv_def intro: inv_step)
next
  case (r_borrow r t r')
  have "borrows_of r' t" using guard_borrow_keeps [OF reg_inv_guard] r_borrow by blast
  moreover have "loader r' = loader r" using r_borrow(2) by (rule guard_borrow_SomeE)
  ultimately show ?case using r_borrow reg_invI reg_inv_lock by metis
next
  case (r_borrow_mut r t r')
  have "borrows_of r' t" using guard_borrow_mut_keeps [OF reg_inv_guard] r_borrow_mut by blast
  moreover have "loader r' = loader r" using r_borrow_mut(2) by (rule guard_borrow_mut_SomeE)
  ultimately show ?case using r_borrow_mut reg_invI reg_inv_lock by metis
next
  case (r_drop_ref r t n)
  have g: "0 < guards_of (loader r) t" using r_drop_ref by (intro reg_inv_holder) simp_all
  have "borrows_of (r\<lparr>cell := cell r - 1, refs := (refs r)(t := n)\<rparr>) t"
    using reg_inv_guard [OF r_drop_ref(2) g] r_drop_ref(1) by (auto simp: borrows_of_def)
  then show ?case using g reg_inv_lock [OF r_drop_ref(2)] by (intro reg_invI) simp_all
next
  case (r_drop_mut r t n)
  have g: "0 < guards_of (loader r) t" using r_drop_mut by (intro reg_inv_holder) simp_all
  have "borrows_of (r\<lparr>cell := cell r + 1, muts := (muts r)(t := n)\<rparr>) t"
    using reg_inv_guard [OF r_drop_mut(2) g] r_drop_mut(1) by (auto simp: borrows_of_def)
  then show ?case using g reg_inv_lock [OF r_drop_mut(2)] by (intro reg_invI) simp_all
qed

lemma reg_reachable: "(reg_step step guards_of)\<^sup>*\<^sup>* (registry_new start) r \<Longrightarrow> reg_inv r"
proof (induction rule: rtranclp_induct)
  case base
  then show ?case by (simp add: reg_inv_def registry_new_def borrows_of_def inv_start)
qed (blast intro: reg_inv_step)

lemma reg_lock_only: "step\<^sup>*\<^sup>* start s \<Longrightarrow> (reg_step step guards_of)\<^sup>*\<^sup>* (registry_new start) (registry_new s)"
proof (induction rule: rtranclp_induct)
  case (step s s')
  have "reg_step step guards_of (registry_new s) ((registry_new s)\<lparr>loader := s'\<rparr>)"
    using step(2) by (intro r_lock) (simp_all add: registry_new_def)
  then show ?case using step(3) by (simp add: registry_new_def)
qed simp

lemma reg_borrow_results:
  assumes "(reg_step step guards_of)\<^sup>*\<^sup>* (registry_new start) r"
  shows "(\<forall>t. 0 < guards_of (loader r) t \<longrightarrow>
        (guard_borrow r t = None \<longleftrightarrow> 0 < muts r t \<or> refs r t = 2 ^ 63 - 1) \<and>
        (guard_borrow_mut r t = None \<longleftrightarrow> 0 < refs r t + muts r t)) \<and>
     (\<forall>t u. 0 < muts r t \<longrightarrow> refs r u = 0 \<and> muts r u = (if u = t then 1 else 0))"
proof -
  have inv: "reg_inv r" using assms by (rule reg_reachable)
  have "refs r u = 0 \<and> muts r u = (if u = t then 1 else 0)" if "0 < muts r t" for t u
  proof -
    have "borrows_of r t" using inv that by (intro reg_inv_guard reg_inv_holder) simp_all
    with that show ?thesis by (auto simp: borrows_of_def)
  qed
  moreover have "(guard_borrow r t = None \<longleftrightarrow> 0 < muts r t \<or> refs r t = 2 ^ 63 - 1) \<and>
        (guard_borrow_mut r t = None \<longleftrightarrow> 0 < refs r t + muts r t)" if "0 < guards_of (loader r) t" for t
    using guard_borrow_panics [OF reg_inv_guard [OF inv that]] guard_borrow_mut_panics [OF reg_inv_guard [OF inv that]] by (rule conjI)
  ultimately show ?thesis by blast
qed

end

text \<open>C19. In both builds, however threads lock, borrow and release the registry: a thread with a guard gets its
  borrow unless it already has a conflicting one itself, so no thread makes another one panic, and while a thread
  borrows the manager exclusively nobody else borrows it at all.\<close>

theorem registry_borrows:
  "((reg_step std_step s_guards)\<^sup>*\<^sup>* (registry_new std_new) r \<longrightarrow>
     (\<forall>t. 0 < s_guards (loader r) t \<longrightarrow>
        (guard_borrow r t = None \<longleftrightarrow> 0 < muts r t \<or> refs r t = 2 ^ 63 - 1) \<and>
        (guard_borrow_mut r t = None \<longleftrightarrow> 0 < refs r t + muts r t)) \<and>
     (\<forall>t u. 0 < muts r t \<longrightarrow> refs r u = 0 \<and> muts r u = (if u = t then 1 else 0))) \<and>
   ((reg_step futex_step guards)\<^sup>*\<^sup>* (registry_new futex_new) q \<longrightarrow>
     (\<forall>t. 0 < guards (loader q) t \<longrightarrow>
        (guard_borrow q t = None \<longleftrightarrow> 0 < muts q t \<or> refs q t = 2 ^ 63 - 1) \<and>
        (guard_borrow_mut q t = None \<longleftrightarrow> 0 < refs q t + muts q t)) \<and>
     (\<forall>t u. 0 < muts q t \<longrightarrow> refs q u = 0 \<and> muts q u = (if u = t then 1 else 0)))"
  using std_excl.reg_borrow_results [of r] futex_excl.reg_borrow_results [of q] by (intro conjI impI) simp_all

definition borrowed :: "(std_lock, thread) registry" where
  "borrowed = \<lparr>loader = std_held, cell = - 1, refs = (\<lambda>_. 0), muts = (\<lambda>_. 0)(7 := 1)\<rparr>"

lemma borrowed_reachable: "(reg_step std_step s_guards)\<^sup>*\<^sup>* (registry_new std_new) borrowed"
proof -
  have "guard_borrow_mut (registry_new std_held) 7 = Some borrowed"
    by (simp add: guard_borrow_mut_def registry_new_def borrowed_def)
  then have "reg_step std_step s_guards (registry_new std_held) borrowed"
    by (rule r_borrow_mut [rotated]) (simp add: registry_new_def std_held_def)
  then show ?thesis using std_excl.reg_lock_only [OF std_held_reachable] by simp
qed

definition held :: "(futex_lock, tid) registry" where
  "held = registry_new (futex_at 2 1 (Loaded 0) Idle 1)"

lemma held_reachable: "(reg_step futex_step guards)\<^sup>*\<^sup>* (registry_new futex_new) held"
  using futex_excl.reg_lock_only [OF futex_at_held] by (simp add: held_def)

theorem registry_borrows_witness:
  "guard_borrow borrowed 7 = None \<and> refs borrowed 8 = 0 \<and> muts borrowed 8 = 0 \<and>
   guard_borrow_mut held 2 \<noteq> None"
proof -
  have "0 < s_guards (loader borrowed) 7" "0 < muts borrowed 7" by (simp_all add: borrowed_def std_held_def)
  moreover have "0 < guards (loader held) 2"
    by (simp add: held_def registry_new_def futex_at_sel)
  moreover have "refs held 2 + muts held 2 = 0"
    by (simp add: held_def registry_new_def)
  moreover note registry_borrows [of borrowed held, THEN conjunct1, rule_format,
      OF borrowed_reachable, THEN conjunct1, rule_format, of 7]
    registry_borrows [of borrowed held, THEN conjunct1, rule_format,
      OF borrowed_reachable, THEN conjunct2, rule_format, of 7 8]
    registry_borrows [of borrowed held, THEN conjunct2, rule_format,
      OF held_reachable, THEN conjunct1, rule_format, of 2]
  ultimately show ?thesis by simp
qed

end
