(* ===== verification/Reentrancy.thy ===== *)
theory Reentrancy
  imports Registry
begin

text \<open>
  How the functions of the library use the registry, and why nested calls are safe.  A function of \<open>src/src\<close> takes a
  guard (\<open>REGISTRY.lock()\<close>), borrows the manager through it, and gives both back at the end of their scopes; between
  them it may call code of the loaded objects: constructors, destructors, resolvers of indirect functions, callbacks.
  Such code may call the library again on the same thread, where the lock lets it in and the \<open>RefCell\<close> panics on a
  conflicting borrow.  Each function is described by the nesting of its scopes; the runs of a thread are the
  sequences of accesses that follow from them with arbitrary nested calls, and threads interleave on the machine of
  \<open>Registry\<close>.  The theorem is that no access ever panics.
\<close>

section \<open>Scopes\<close>

text \<open>\<open>Guarded\<close>, \<open>Shared\<close> and \<open>Exclusive\<close> are the scopes of a \<open>RegistryGuard\<close>, a \<open>Ref\<close> and a \<open>RefMut\<close>.  \<open>Foreign\<close> is a call
  of code outside the library.  \<open>Notify\<close> is a call that does not come back to the library: the debugger's hook, the
  logger.\<close>

datatype act = Guarded "act list" | Shared "act list" | Exclusive "act list" | Foreign | Notify

definition quiet :: "act list \<Rightarrow> bool" where
  "quiet as \<longleftrightarrow> list_all (\<lambda>a. a = Notify) as"

text \<open>Borrows are taken under a guard, and nothing that could come back happens during a borrow.\<close>

fun calm :: "bool \<Rightarrow> act list \<Rightarrow> bool" where
  "calm h [] \<longleftrightarrow> True"
| "calm h (Guarded b # as) \<longleftrightarrow> calm True b \<and> calm h as"
| "calm h (Shared b # as) \<longleftrightarrow> h \<and> quiet b \<and> calm h as"
| "calm h (Exclusive b # as) \<longleftrightarrow> h \<and> quiet b \<and> calm h as"
| "calm h (Foreign # as) \<longleftrightarrow> calm h as"
| "calm h (Notify # as) \<longleftrightarrow> calm h as"

section \<open>The functions of the library\<close>

text \<open>\<open>elf\<close> is what the link context of \<open>elf_loader\<close> does while the manager is borrowed.\<close>

definition acc_global_find :: "act list \<Rightarrow> act list" where "acc_global_find elf = [Guarded [Shared elf]]"
definition acc_next_find :: "act list \<Rightarrow> act list" where "acc_next_find elf = [Guarded [Exclusive elf]]"
definition acc_register_handle :: "act list \<Rightarrow> act list" where "acc_register_handle elf = [Guarded [Exclusive elf]]"
definition acc_handle_find :: "act list \<Rightarrow> act list" where "acc_handle_find elf = [Guarded [Shared elf]]"
definition acc_handle_link_map :: "act list \<Rightarrow> act list" where "acc_handle_link_map elf = [Guarded [Shared elf]]"
definition acc_library_by_addr :: "act list \<Rightarrow> act list" where "acc_library_by_addr elf = [Guarded [Exclusive elf]]"
definition acc_loaded_by_addr :: "act list \<Rightarrow> act list" where "acc_loaded_by_addr elf = [Guarded [Exclusive elf]]"
definition acc_library_flags :: "act list \<Rightarrow> act list" where "acc_library_flags elf = [Guarded [Shared elf]]"
definition acc_open_main :: "act list \<Rightarrow> act list" where "acc_open_main elf = [Guarded [Exclusive elf]]"
definition acc_register_loaded :: "act list \<Rightarrow> act list" where "acc_register_loaded elf = [Guarded [Exclusive elf]]"
definition acc_startup_state :: "act list \<Rightarrow> act list" where "acc_startup_state elf = [Guarded [Exclusive elf]]"
definition acc_find_loaded_symbol :: "act list \<Rightarrow> act list" where "acc_find_loaded_symbol elf = [Guarded [Shared elf]]"

text \<open>The unloaded group is dropped after the guard, and its destructors run then.\<close>

definition acc_release_handle :: "act list \<Rightarrow> act list" where "acc_release_handle elf = [Guarded [Exclusive elf], Foreign]"

definition acc_drop_lease :: "act list \<Rightarrow> bool \<Rightarrow> act list" where
  "acc_drop_lease elf live = (if live then [Guarded [Exclusive elf], Foreign] else [])"

text \<open>\<open>for_each_phdr\<close>: the callbacks and the drops of the snapshots happen under the guard, after the borrow.\<close>

definition acc_for_each_phdr :: "act list \<Rightarrow> nat \<Rightarrow> nat \<Rightarrow> act list" where
  "acc_for_each_phdr elf callbacks snapshots =
     [Guarded (Exclusive elf # replicate callbacks Foreign @ concat (replicate snapshots (acc_drop_lease elf True)))]"

text \<open>Where \<open>open_with\<close> ends.  \<open>looks\<close>: the root is a file or a binary, so that a loaded library may be reused; the
  borrow of that lookup lasts through the body of the \<open>if let\<close>.  \<open>Relocate\<close> runs resolvers, \<open>Initialise\<close> constructors.\<close>

datatype open_end = AtReuse | AtNoload | AtBinary | AtCommitted | AtPrepare | AtRelocate | AtPublish | AtHook | AtInit | AtSuccess

fun acc_open_phases :: "act list \<Rightarrow> act list \<Rightarrow> open_end \<Rightarrow> act list" where
  "acc_open_phases elf hook AtReuse = []"
| "acc_open_phases elf hook AtNoload = []"
| "acc_open_phases elf hook AtBinary = [Notify]"
| "acc_open_phases elf hook AtCommitted = [Notify, Exclusive elf]"
| "acc_open_phases elf hook AtPrepare = [Notify, Exclusive elf]"
| "acc_open_phases elf hook AtRelocate = [Notify, Exclusive elf, Foreign]"
| "acc_open_phases elf hook AtPublish = [Notify, Exclusive elf, Foreign, Exclusive elf]"
| "acc_open_phases elf hook AtHook = [Notify, Exclusive elf, Foreign, Exclusive elf] @ hook @ [Exclusive elf]"
| "acc_open_phases elf hook AtInit = [Notify, Exclusive elf, Foreign, Exclusive elf] @ hook @ [Foreign, Exclusive elf]"
| "acc_open_phases elf hook AtSuccess = [Notify, Exclusive elf, Foreign, Exclusive elf] @ hook @ [Foreign, Exclusive elf]"

definition acc_open_with :: "act list \<Rightarrow> bool \<Rightarrow> act list \<Rightarrow> open_end \<Rightarrow> act list" where
  "acc_open_with elf looks hook e =
     [Guarded ((if looks then [Exclusive (elf @ (if e = AtReuse then [Notify] else []))] else []) @ acc_open_phases elf hook e)]"

definition open_succeeds :: "open_end \<Rightarrow> bool" where
  "open_succeeds e \<longleftrightarrow> e \<in> {AtReuse, AtCommitted, AtSuccess}"

text \<open>The start of a program: \<open>startup_state\<close> may fail, and libc's early initialisation is called if it is found.\<close>

definition acc_startup_hook :: "act list \<Rightarrow> bool \<Rightarrow> bool \<Rightarrow> act list" where
  "acc_startup_hook elf fails early =
     acc_startup_state elf @ (if fails then [] else acc_find_loaded_symbol elf @ (if early then [Foreign] else []))"

definition acc_link_mapped_root :: "act list \<Rightarrow> bool \<Rightarrow> bool \<Rightarrow> open_end \<Rightarrow> act list" where
  "acc_link_mapped_root elf fails early e =
     acc_open_with elf False (acc_startup_hook elf fails early) e @ acc_drop_lease elf (e = AtSuccess)"

text \<open>The group is fetched under a guard and its finalisers run after it.\<close>

definition acc_finalize_startup :: "act list \<Rightarrow> nat \<Rightarrow> act list" where
  "acc_finalize_startup elf modules = Guarded [Exclusive elf] # replicate modules Foreign"

definition acc_register_thread_destructor :: "act list \<Rightarrow> bool \<Rightarrow> bool \<Rightarrow> act list" where
  "acc_register_thread_destructor elf lease failed =
     [Guarded [Exclusive elf], Foreign] @ (if failed then acc_drop_lease elf lease else [])"

definition acc_run_thread_destructor :: "act list \<Rightarrow> bool \<Rightarrow> act list" where
  "acc_run_thread_destructor elf lease = Foreign # acc_drop_lease elf lease"

section \<open>The calls from outside\<close>

datatype api_call =
    DlOpenMain | DlOpenBadName | DlOpen open_end
  | DlSymDefault | DlSymNext | DlSymHandle
  | DlCloseNull | DlClose
  | DlAddr bool | DlFindObject | DlIteratePhdr nat nat
  | LibraryThis | LibraryOpen open_end | LibraryDrop bool | LibraryFlags
  | ThreadAtexit bool bool | ThreadExit bool
  | RegisterLoaded | LinkMappedRoot bool bool open_end | FinalizeStartup nat | HandleLinkMap

fun api_code :: "act list \<Rightarrow> api_call \<Rightarrow> act list" where
  "api_code elf DlOpenMain = acc_open_main elf @ acc_register_handle elf"
| "api_code elf DlOpenBadName = []"
| "api_code elf (DlOpen e) = acc_open_with elf True [] e @ (if open_succeeds e then acc_register_handle elf else [])"
| "api_code elf DlSymDefault = acc_global_find elf"
| "api_code elf DlSymNext = acc_next_find elf"
| "api_code elf DlSymHandle = acc_handle_find elf"
| "api_code elf DlCloseNull = []"
| "api_code elf DlClose = acc_release_handle elf"
| "api_code elf (DlAddr found) = acc_library_by_addr elf @ acc_drop_lease elf found"
| "api_code elf DlFindObject = acc_loaded_by_addr elf"
| "api_code elf (DlIteratePhdr callbacks snapshots) = acc_for_each_phdr elf callbacks snapshots"
| "api_code elf LibraryThis = acc_open_main elf"
| "api_code elf (LibraryOpen e) = acc_open_with elf True [] e"
| "api_code elf (LibraryDrop final) = acc_drop_lease elf final"
| "api_code elf LibraryFlags = acc_library_flags elf"
| "api_code elf (ThreadAtexit lease failed) = acc_register_thread_destructor elf lease failed"
| "api_code elf (ThreadExit lease) = acc_run_thread_destructor elf lease"
| "api_code elf RegisterLoaded = acc_register_loaded elf"
| "api_code elf (LinkMappedRoot fails early e) = acc_link_mapped_root elf fails early e"
| "api_code elf (FinalizeStartup modules) = acc_finalize_startup elf modules"
| "api_code elf HandleLinkMap = acc_handle_link_map elf"

section \<open>Runs of a thread\<close>

datatype access = ALock | AUnlock | ARef | ADropRef | AMut | ADropMut

text \<open>Foreign code calls the library any number of times, and what it calls runs in the same way.\<close>

inductive runs :: "('a \<Rightarrow> act list) \<Rightarrow> act list \<Rightarrow> access list \<Rightarrow> bool" for code where
  run_nil: "runs code [] []"
| run_guarded: "runs code b tb \<Longrightarrow> runs code as ta \<Longrightarrow> runs code (Guarded b # as) (ALock # tb @ AUnlock # ta)"
| run_shared: "runs code b tb \<Longrightarrow> runs code as ta \<Longrightarrow> runs code (Shared b # as) (ARef # tb @ ADropRef # ta)"
| run_exclusive: "runs code b tb \<Longrightarrow> runs code as ta \<Longrightarrow> runs code (Exclusive b # as) (AMut # tb @ ADropMut # ta)"
| run_foreign: "runs code (concat (map code cs)) tf \<Longrightarrow> runs code as ta \<Longrightarrow> runs code (Foreign # as) (tf @ ta)"
| run_notify: "runs code as ta \<Longrightarrow> runs code (Notify # as) ta"

text \<open>A thread's own view: its guards, shared and exclusive borrows.  \<open>None\<close> is a panic, or the end of a guard before
  that of a borrow.\<close>

fun own :: "access \<Rightarrow> nat \<times> nat \<times> nat \<Rightarrow> (nat \<times> nat \<times> nat) option" where
  "own ALock (g, r, m) = Some (Suc g, r, m)"
| "own AUnlock (g, r, m) = (if g = 0 \<or> (g = 1 \<and> 0 < r + m) then None else Some (g - 1, r, m))"
| "own ARef (g, r, m) = (if g = 0 \<or> 0 < m \<or> r = 2 ^ 63 - 1 then None else Some (g, Suc r, m))"
| "own ADropRef (g, r, m) = (if r = 0 then None else Some (g, r - 1, m))"
| "own AMut (g, r, m) = (if g = 0 \<or> 0 < r + m then None else Some (g, r, Suc m))"
| "own ADropMut (g, r, m) = (if m = 0 then None else Some (g, r, m - 1))"

fun own_run :: "access list \<Rightarrow> nat \<times> nat \<times> nat \<Rightarrow> (nat \<times> nat \<times> nat) option" where
  "own_run [] v = Some v"
| "own_run (a # as) v = Option.bind (own a v) (own_run as)"

lemma own_run_append: "own_run (as @ bs) v = Option.bind (own_run as v) (own_run bs)"
  by (induction as v rule: own_run.induct) (auto split: bind_splits)

lemma runs_quiet: "runs code as ta \<Longrightarrow> quiet as \<Longrightarrow> ta = []"
  by (induction rule: runs.induct) (auto simp: quiet_def)

lemma calm_append [simp]: "calm h (as @ bs) \<longleftrightarrow> calm h as \<and> calm h bs"
  by (induction h as rule: calm.induct) auto

lemma calm_concat: "(\<And>a. a \<in> set ass \<Longrightarrow> calm h a) \<Longrightarrow> calm h (concat ass)"
  by (induction ass) simp_all

text \<open>A calm run never panics and leaves the thread as it was.\<close>

lemma runs_own:
  assumes "\<And>c. calm False (code c)"
  shows "runs code as ta \<Longrightarrow> calm h as \<Longrightarrow> (h \<longrightarrow> 0 < g) \<Longrightarrow> own_run ta (g, 0, 0) = Some (g, 0, 0)"
proof (induction arbitrary: h g rule: runs.induct)
  case (run_guarded b tb as ta)
  have "own_run tb (Suc g, 0, 0) = Some (Suc g, 0, 0)" using run_guarded(3) [of True "Suc g"] run_guarded(5) by simp
  moreover have "own_run ta (g, 0, 0) = Some (g, 0, 0)" using run_guarded(4) [of h g] run_guarded(5,6) by simp
  ultimately show ?case by (simp add: own_run_append)
next
  case (run_shared b tb as ta)
  have "tb = []" using runs_quiet [OF run_shared(1)] run_shared(5) by simp
  moreover have "own_run ta (g, 0, 0) = Some (g, 0, 0)" using run_shared(4) [of h g] run_shared(5,6) by auto
  ultimately show ?case using run_shared(5,6) by simp
next
  case (run_exclusive b tb as ta)
  have "tb = []" using runs_quiet [OF run_exclusive(1)] run_exclusive(5) by simp
  moreover have "own_run ta (g, 0, 0) = Some (g, 0, 0)" using run_exclusive(4) [of h g] run_exclusive(5,6) by auto
  ultimately show ?case using run_exclusive(5,6) by simp
next
  case (run_foreign cs tf as ta)
  have "calm False (concat (map code cs))" by (rule calm_concat) (auto simp: assms)
  then have "own_run tf (g, 0, 0) = Some (g, 0, 0)" using run_foreign(3) [of False g] by simp
  moreover have "own_run ta (g, 0, 0) = Some (g, 0, 0)" using run_foreign(4) [of h g] run_foreign(5,6) by simp
  ultimately show ?case by (simp add: own_run_append)
qed simp_all

section \<open>The functions are calm\<close>

lemmas acc_defs = acc_global_find_def acc_next_find_def acc_register_handle_def acc_handle_find_def acc_handle_link_map_def
  acc_library_by_addr_def acc_loaded_by_addr_def acc_library_flags_def acc_open_main_def acc_register_loaded_def
  acc_startup_state_def acc_find_loaded_symbol_def acc_release_handle_def acc_drop_lease_def acc_for_each_phdr_def
  acc_open_with_def acc_startup_hook_def acc_link_mapped_root_def acc_finalize_startup_def
  acc_register_thread_destructor_def acc_run_thread_destructor_def

lemma quiet_simps [simp]: "quiet []" "quiet (Notify # as) = quiet as" "quiet (as @ bs) \<longleftrightarrow> quiet as \<and> quiet bs"
  by (auto simp: quiet_def)

lemma calm_replicate [simp]: "calm h (replicate n Foreign)"
  by (induction n) simp_all

lemma calm_open_phases: "quiet elf \<Longrightarrow> calm True hook \<Longrightarrow> calm True (acc_open_phases elf hook e)"
  by (cases e) simp_all

lemma api_code_calm: "quiet elf \<Longrightarrow> calm False (api_code elf c)"
  by (cases c) (auto simp: acc_defs calm_open_phases intro: calm_concat)

section \<open>Threads\<close>

record ('s, 't) system =
  reg :: "('s, 't) registry"
  todo :: "'t \<Rightarrow> access list"

text \<open>A thread makes its next access; a step of the lock that gives nobody a guard and takes nobody's is on its own.\<close>

inductive sys_step :: "('s \<Rightarrow> 's \<Rightarrow> bool) \<Rightarrow> ('s \<Rightarrow> 't \<Rightarrow> nat) \<Rightarrow> ('s, 't) system \<Rightarrow> ('s, 't) system \<Rightarrow> bool"
  for step and guards_of where
  y_internal: "step (loader (reg y)) s' \<Longrightarrow> guards_of s' = guards_of (loader (reg y)) \<Longrightarrow>
    sys_step step guards_of y (y\<lparr>reg := (reg y)\<lparr>loader := s'\<rparr>\<rparr>)"
| y_lock: "todo y t = ALock # as \<Longrightarrow> step (loader (reg y)) s' \<Longrightarrow>
    guards_of s' = (guards_of (loader (reg y)))(t := Suc (guards_of (loader (reg y)) t)) \<Longrightarrow>
    sys_step step guards_of y (y\<lparr>reg := (reg y)\<lparr>loader := s'\<rparr>, todo := (todo y)(t := as)\<rparr>)"
| y_unlock: "todo y t = AUnlock # as \<Longrightarrow> step (loader (reg y)) s' \<Longrightarrow>
    guards_of (loader (reg y)) t = Suc n \<Longrightarrow> guards_of s' = (guards_of (loader (reg y)))(t := n) \<Longrightarrow>
    sys_step step guards_of y (y\<lparr>reg := (reg y)\<lparr>loader := s'\<rparr>, todo := (todo y)(t := as)\<rparr>)"
| y_ref: "todo y t = ARef # as \<Longrightarrow> guard_borrow (reg y) t = Some r' \<Longrightarrow>
    sys_step step guards_of y (y\<lparr>reg := r', todo := (todo y)(t := as)\<rparr>)"
| y_mut: "todo y t = AMut # as \<Longrightarrow> guard_borrow_mut (reg y) t = Some r' \<Longrightarrow>
    sys_step step guards_of y (y\<lparr>reg := r', todo := (todo y)(t := as)\<rparr>)"
| y_drop_ref: "todo y t = ADropRef # as \<Longrightarrow> refs (reg y) t = Suc n \<Longrightarrow>
    sys_step step guards_of y
      (y\<lparr>reg := (reg y)\<lparr>cell := cell (reg y) - 1, refs := (refs (reg y))(t := n)\<rparr>, todo := (todo y)(t := as)\<rparr>)"
| y_drop_mut: "todo y t = ADropMut # as \<Longrightarrow> muts (reg y) t = Suc n \<Longrightarrow>
    sys_step step guards_of y
      (y\<lparr>reg := (reg y)\<lparr>cell := cell (reg y) + 1, muts := (muts (reg y))(t := n)\<rparr>, todo := (todo y)(t := as)\<rparr>)"

definition sys_start :: "'s \<Rightarrow> ('t \<Rightarrow> access list) \<Rightarrow> ('s, 't) system" where
  "sys_start l work = \<lparr>reg = registry_new l, todo = work\<rparr>"

text \<open>The next access of a thread does not panic; a thread that is done has nothing left.\<close>

definition next_ok :: "('s, 't) system \<Rightarrow> 't \<Rightarrow> bool" where
  "next_ok y t \<longleftrightarrow> (case todo y t of
       ARef # as \<Rightarrow> guard_borrow (reg y) t \<noteq> None
     | AMut # as \<Rightarrow> guard_borrow_mut (reg y) t \<noteq> None
     | [] \<Rightarrow> refs (reg y) t = 0 \<and> muts (reg y) t = 0
     | _ \<Rightarrow> True)"

definition view :: "('s \<Rightarrow> 't \<Rightarrow> nat) \<Rightarrow> ('s, 't) registry \<Rightarrow> 't \<Rightarrow> nat \<times> nat \<times> nat" where
  "view guards_of r t = (guards_of (loader r) t, refs r t, muts r t)"

text \<open>Every thread can finish its work by itself.\<close>

definition all_finish :: "('s \<Rightarrow> 't \<Rightarrow> nat) \<Rightarrow> ('s, 't) system \<Rightarrow> bool" where
  "all_finish guards_of y \<longleftrightarrow> (\<forall>t. own_run (todo y t) (view guards_of (reg y) t) = Some (0, 0, 0))"

lemma all_finishD:
  assumes "all_finish guards_of y" and "todo y t = a # as"
  obtains v where "own a (view guards_of (reg y) t) = Some v" "own_run as v = Some (0, 0, 0)"
proof -
  have "Option.bind (own a (view guards_of (reg y) t)) (own_run as) = Some (0, 0, 0)"
    using assms by (metis all_finish_def own_run.simps(2))
  then show thesis using that by (auto simp: bind_eq_Some_conv)
qed

text \<open>One thread moves: its view changes as its access says, the views of the others do not.\<close>

lemma all_finish_move:
  assumes "all_finish guards_of y" and "todo y t = a # as"
    and "own a (view guards_of (reg y) t) = Some (view guards_of r' t)"
    and "\<And>u. u \<noteq> t \<Longrightarrow> view guards_of r' u = view guards_of (reg y) u"
  shows "all_finish guards_of (y\<lparr>reg := r', todo := (todo y)(t := as)\<rparr>)"
proof -
  obtain v where v: "own a (view guards_of (reg y) t) = Some v" "own_run as v = Some (0, 0, 0)"
    using assms(1,2) by (rule all_finishD)
  then have "own_run as (view guards_of r' t) = Some (0, 0, 0)" using assms(3) by simp
  then show ?thesis using assms(1,4) by (simp add: all_finish_def)
qed

context exclusive_lock
begin

lemma sys_step_reg:
  assumes "sys_step step guards_of y y'" and "all_finish guards_of y" and "reg_inv (reg y)"
  shows "reg_step step guards_of (reg y) (reg y') \<or> reg y' = reg y"
  using assms
proof (induction rule: sys_step.induct)
  case (y_internal y s')
  then have "reg_step step guards_of (reg y) ((reg y)\<lparr>loader := s'\<rparr>)"
    by (intro r_lock) (auto dest: reg_inv_holder)
  then show ?case by simp
next
  case (y_lock y t as s')
  have "0 < guards_of s' u" if "0 < refs (reg y) u + muts (reg y) u" for u
    using reg_inv_holder [OF y_lock(5) that] y_lock(3) by simp
  then have "reg_step step guards_of (reg y) ((reg y)\<lparr>loader := s'\<rparr>)" using y_lock(2) by (rule r_lock [rotated])
  then show ?case by simp
next
  case (y_unlock y t as s' n)
  obtain v where "own AUnlock (view guards_of (reg y) t) = Some v" using y_unlock(5,1) by (rule all_finishD)
  then have t: "n = 0 \<longrightarrow> refs (reg y) t + muts (reg y) t = 0" using y_unlock(3) by (auto simp: view_def split: if_splits)
  have "0 < guards_of s' u" if "0 < refs (reg y) u + muts (reg y) u" for u
    using reg_inv_holder [OF y_unlock(6) that] t that y_unlock(4) by (cases "u = t") auto
  then have "reg_step step guards_of (reg y) ((reg y)\<lparr>loader := s'\<rparr>)" using y_unlock(2) by (rule r_lock [rotated])
  then show ?case by simp
next
  case (y_ref y t as r')
  obtain v where "own ARef (view guards_of (reg y) t) = Some v" using y_ref(3,1) by (rule all_finishD)
  then have "0 < guards_of (loader (reg y)) t" by (simp add: view_def split: if_splits)
  then show ?case using y_ref(2) by (simp add: r_borrow)
next
  case (y_mut y t as r')
  obtain v where "own AMut (view guards_of (reg y) t) = Some v" using y_mut(3,1) by (rule all_finishD)
  then have "0 < guards_of (loader (reg y)) t" by (simp add: view_def split: if_splits)
  then show ?case using y_mut(2) by (simp add: r_borrow_mut)
next
  case (y_drop_ref y t as n)
  then show ?case using r_drop_ref [of "reg y" t n] by simp
next
  case (y_drop_mut y t as n)
  then show ?case using r_drop_mut [of "reg y" t n] by simp
qed

lemma sys_step_finish:
  assumes "sys_step step guards_of y y'" and "all_finish guards_of y"
  shows "all_finish guards_of y'"
  using assms
proof (induction rule: sys_step.induct)
  case (y_internal y s')
  then show ?case by (simp add: all_finish_def view_def)
next
  case (y_lock y t as s')
  show ?case by (rule all_finish_move [OF y_lock(4,1)]) (simp_all add: view_def y_lock(3))
next
  case (y_unlock y t as s' n)
  obtain v where "own AUnlock (view guards_of (reg y) t) = Some v" using y_unlock(5,1) by (rule all_finishD)
  then show ?case using y_unlock(3,4)
    by (intro all_finish_move [OF y_unlock(5,1)]) (auto simp: view_def split: if_splits)
next
  case (y_ref y t as r')
  obtain v where "own ARef (view guards_of (reg y) t) = Some v" using y_ref(3,1) by (rule all_finishD)
  then show ?case using y_ref(2)
    by (intro all_finish_move [OF y_ref(3,1)]) (auto simp: view_def elim!: guard_borrow_SomeE split: if_splits)
next
  case (y_mut y t as r')
  obtain v where "own AMut (view guards_of (reg y) t) = Some v" using y_mut(3,1) by (rule all_finishD)
  then show ?case using y_mut(2)
    by (intro all_finish_move [OF y_mut(3,1)]) (auto simp: view_def elim!: guard_borrow_mut_SomeE split: if_splits)
next
  case (y_drop_ref y t as n)
  show ?case by (rule all_finish_move [OF y_drop_ref(3,1)]) (simp_all add: view_def y_drop_ref(2))
next
  case (y_drop_mut y t as n)
  show ?case by (rule all_finish_move [OF y_drop_mut(3,1)]) (simp_all add: view_def y_drop_mut(2))
qed

lemma all_finish_next_ok:
  assumes "all_finish guards_of y" and "reg_inv (reg y)"
  shows "next_ok y t"
proof (cases "todo y t")
  case Nil
  then have "own_run [] (view guards_of (reg y) t) = Some (0, 0, 0)" using assms(1) by (metis all_finish_def)
  then show ?thesis using Nil by (simp add: next_ok_def view_def)
next
  case (Cons a as)
  obtain v where v: "own a (view guards_of (reg y) t) = Some v" using assms(1) Cons by (rule all_finishD)
  show ?thesis
  proof (cases a)
    case ARef
    with v have "0 < guards_of (loader (reg y)) t" "muts (reg y) t = 0" "refs (reg y) t \<noteq> 2 ^ 63 - 1"
      by (simp_all add: view_def split: if_splits)
    then show ?thesis using guard_borrow_panics [OF reg_inv_guard [OF assms(2)]] Cons ARef by (simp add: next_ok_def)
  next
    case AMut
    with v have "0 < guards_of (loader (reg y)) t" "refs (reg y) t + muts (reg y) t = 0"
      by (simp_all add: view_def split: if_splits)
    then show ?thesis using guard_borrow_mut_panics [OF reg_inv_guard [OF assms(2)]] Cons AMut by (simp add: next_ok_def)
  qed (simp_all add: next_ok_def Cons)
qed

lemma sys_reachable:
  assumes "(sys_step step guards_of)\<^sup>*\<^sup>* (sys_start start work) y" and "all_finish guards_of (sys_start start work)"
  shows "all_finish guards_of y \<and> reg_inv (reg y)"
  using assms(1)
proof (induction rule: rtranclp_induct)
  case base
  have "reg_inv (registry_new start)" by (rule reg_reachable) simp
  then show ?case using assms(2) by (simp add: sys_start_def)
next
  case (step y y')
  then show ?case using sys_step_finish [OF step(2)] sys_step_reg [OF step(2)] reg_inv_step by metis
qed

lemma calls_never_panic:
  assumes "(sys_step step guards_of)\<^sup>*\<^sup>* (sys_start start work) y" and "quiet elf" and "\<And>t. guards_of start t = 0"
    and "\<And>t. \<exists>cs. runs (api_code elf) (concat (map (api_code elf) cs)) (work t)"
  shows "next_ok y t \<and> (todo y t = [] \<longrightarrow> guards_of (loader (reg y)) t = 0)"
proof -
  have "own_run (work u) (0, 0, 0) = Some (0, 0, 0)" for u
  proof -
    obtain cs where "runs (api_code elf) (concat (map (api_code elf) cs)) (work u)" using assms(4) by blast
    moreover have "calm False (concat (map (api_code elf) cs))"
      by (rule calm_concat) (auto simp: api_code_calm assms(2))
    ultimately show ?thesis using runs_own [of "api_code elf" _ "work u" False 0] api_code_calm [OF assms(2)] by simp
  qed
  then have "all_finish guards_of (sys_start start work)"
    by (simp add: all_finish_def sys_start_def view_def registry_new_def assms(3))
  then have "all_finish guards_of y" "reg_inv (reg y)" using sys_reachable [OF assms(1)] by simp_all
  moreover have "guards_of (loader (reg y)) t = 0" if "todo y t = []"
  proof -
    have "own_run [] (view guards_of (reg y) t) = Some (0, 0, 0)"
      using \<open>all_finish guards_of y\<close> that by (metis all_finish_def)
    then show ?thesis by (simp add: view_def)
  qed
  ultimately show ?thesis using all_finish_next_ok by blast
qed

end


text \<open>Thread 7 closes a library whose destructor looks a symbol up.\<close>

definition close_work :: "thread \<Rightarrow> access list" where
  "close_work t = (if t = 7 then [ALock, AMut, ADropMut, AUnlock, ALock, ARef, ADropRef, AUnlock] else [])"

lemma close_work_runs: "\<exists>cs. runs (api_code [Notify]) (concat (map (api_code [Notify]) cs)) (close_work t)"
proof (cases "t = 7")
  case True
  let ?c = "api_code [Notify]"
  have n: "runs ?c [Notify] []" using run_notify [OF run_nil] .
  have "runs ?c [Guarded [Shared [Notify]]] [ALock, ARef, ADropRef, AUnlock]"
    using run_guarded [OF run_shared [OF n run_nil] run_nil] by simp
  then have f: "runs ?c (concat (map ?c [DlSymDefault])) [ALock, ARef, ADropRef, AUnlock]"
    by (simp add: acc_global_find_def)
  have "runs ?c [Guarded [Exclusive [Notify]], Foreign] (close_work t)"
    using run_guarded [OF run_exclusive [OF n run_nil] run_foreign [OF f run_nil]] by (simp add: close_work_def True)
  then have "runs ?c (concat (map ?c [DlClose])) (close_work t)" by (simp add: acc_release_handle_def)
  then show ?thesis by blast
next
  case False
  then have "runs (api_code [Notify]) (concat (map (api_code [Notify]) [])) (close_work t)"
    by (simp add: close_work_def run_nil)
  then show ?thesis by blast
qed

definition closing :: "(std_lock, thread) system" where
  "closing = \<lparr>reg = registry_new std_held, todo = close_work(7 := [AMut, ADropMut, AUnlock, ALock, ARef, ADropRef, AUnlock])\<rparr>"

lemma closing_reachable: "(sys_step std_step s_guards)\<^sup>*\<^sup>* (sys_start std_new close_work) closing"
proof -
  let ?a = "std_new\<lparr>s_pc := (s_pc std_new)(7 := SWant)\<rparr>"
  let ?y = "sys_start std_new close_work"
  let ?z = "?y\<lparr>reg := (reg ?y)\<lparr>loader := ?a\<rparr>\<rparr>"
  have "std_step std_new ?a" by (rule s_call) (simp add: std_new_def)
  then have "sys_step std_step s_guards ?y ?z"
    by (intro y_internal) (simp_all add: sys_start_def registry_new_def)
  moreover have "std_step ?a std_held"
    using s_acquire [of ?a 7 "?a\<lparr>s_owner := Some 7, s_depth := 1\<rparr>"]
    by (simp add: std_new_def std_held_def std_lock_body_def checked_add_def fun_upd_idem)
  then have "sys_step std_step s_guards ?z
      (?z\<lparr>reg := (reg ?z)\<lparr>loader := std_held\<rparr>, todo := (todo ?z)(7 := [AMut, ADropMut, AUnlock, ALock, ARef, ADropRef, AUnlock])\<rparr>)"
    by (intro y_lock) (simp_all add: sys_start_def registry_new_def close_work_def std_new_def std_held_def)
  ultimately show ?thesis by (simp add: closing_def sys_start_def registry_new_def)
qed


end
