(* ===== verification/Memory.thy ===== *)
theory Memory
  imports Prelude
begin

text \<open>
  The freestanding memory primitives of the interpreter (\<open>src/rtld/impl/src/memory.rs\<close>) and its
  page allocator (\<open>src/rtld/impl/src/runtime.rs\<close>).  Memory is a function from 64-bit addresses
  to bytes; pointer arithmetic is word arithmetic.  Each loop keeps its \<open>usize\<close> counter.
  The kernel's \<open>mmap\<close> is an argument: the address it returned, or \<open>None\<close> for an error.
\<close>

section \<open>Model\<close>

type_synonym mem = "usize \<Rightarrow> u8"

function memcpy_loop :: "mem \<Rightarrow> usize \<Rightarrow> usize \<Rightarrow> usize \<Rightarrow> usize \<Rightarrow> mem" where
  "memcpy_loop m dst src len index =
     (if index < len then memcpy_loop (m(dst + index := m (src + index))) dst src len (index + 1)
      else m)"
  by pat_completeness auto
termination
  by (relation "measure (\<lambda>(m, dst, src, len, index). unat len - unat index)")
    (auto simp: rust_arith word_less_nat_alt)

declare memcpy_loop.simps [simp del]

definition memcpy :: "mem \<Rightarrow> usize \<Rightarrow> usize \<Rightarrow> usize \<Rightarrow> mem" where
  "memcpy m dst src len = memcpy_loop m dst src len 0"

function memmove_back :: "mem \<Rightarrow> usize \<Rightarrow> usize \<Rightarrow> usize \<Rightarrow> mem" where
  "memmove_back m dst src index =
     (if index \<noteq> 0 then
        let index' = index - 1
        in memmove_back (m(dst + index' := m (src + index'))) dst src index'
      else m)"
  by pat_completeness auto
termination
  by (relation "measure (\<lambda>(m, dst, src, index). unat index)") (auto simp: unat_minus_one unat_gt_0)

declare memmove_back.simps [simp del]

definition memmove :: "mem \<Rightarrow> usize \<Rightarrow> usize \<Rightarrow> usize \<Rightarrow> mem" where
  "memmove m dst src len =
     (if dst \<le> src then memcpy m dst src len else memmove_back m dst src len)"

function memset_loop :: "mem \<Rightarrow> usize \<Rightarrow> u8 \<Rightarrow> usize \<Rightarrow> usize \<Rightarrow> mem" where
  "memset_loop m dst value len index =
     (if index < len then memset_loop (m(dst + index := value)) dst value len (index + 1) else m)"
  by pat_completeness auto
termination
  by (relation "measure (\<lambda>(m, dst, value, len, index). unat len - unat index)")
    (auto simp: rust_arith word_less_nat_alt)

declare memset_loop.simps [simp del]

text \<open>\<open>value as u8\<close> keeps the low byte of the \<open>i32\<close>.\<close>

definition memset :: "mem \<Rightarrow> usize \<Rightarrow> u32 \<Rightarrow> usize \<Rightarrow> mem" where
  "memset m dst value len = memset_loop m dst (ucast value) len 0"

function memcmp_loop :: "mem \<Rightarrow> usize \<Rightarrow> usize \<Rightarrow> usize \<Rightarrow> usize \<Rightarrow> int" where
  "memcmp_loop m left right len index =
     (if index < len then
        let lhs = m (left + index); rhs = m (right + index)
        in if lhs \<noteq> rhs then uint lhs - uint rhs else memcmp_loop m left right len (index + 1)
      else 0)"
  by pat_completeness auto
termination
  by (relation "measure (\<lambda>(m, left, right, len, index). unat len - unat index)")
    (auto simp: rust_arith word_less_nat_alt)

declare memcmp_loop.simps [simp del]

definition memcmp :: "mem \<Rightarrow> usize \<Rightarrow> usize \<Rightarrow> usize \<Rightarrow> int" where
  "memcmp m left right len = memcmp_loop m left right len 0"

definition bcmp :: "mem \<Rightarrow> usize \<Rightarrow> usize \<Rightarrow> usize \<Rightarrow> int" where
  "bcmp m left right len = memcmp m left right len"

text \<open>Without a zero byte the loop of \<open>strlen\<close> does not return.\<close>

partial_function (option) strlen_loop :: "mem \<Rightarrow> usize \<Rightarrow> usize \<Rightarrow> usize option" where
  "strlen_loop m start ptr =
     (if m ptr \<noteq> 0 then strlen_loop m start (ptr + 1) else Some (ptr - start))"

definition strlen :: "mem \<Rightarrow> usize \<Rightarrow> usize option" where
  "strlen m ptr = strlen_loop m ptr ptr"

record layout =
  size :: usize
  align :: usize

definition page_rounded_size :: "layout \<Rightarrow> usize" where
  "page_rounded_size l = (let size' = max (size l) (align l) in (size' + 0xfff) AND NOT 0xfff)"

text \<open>\<open>Layout::from_size_align\<close>: a power-of-two alignment, and a size that rounds up to at most
  \<open>isize::MAX\<close>.\<close>

definition from_size_align :: "usize \<Rightarrow> usize \<Rightarrow> layout option" where
  "from_size_align s a =
     (if (\<exists>k<64. a = 2 ^ k) \<and> unat s + (unat a - 1) < 2 ^ 63 then Some \<lparr>size = s, align = a\<rparr> else None)"

function copy_volatile :: "mem \<Rightarrow> usize \<Rightarrow> usize \<Rightarrow> usize \<Rightarrow> usize \<Rightarrow> mem" where
  "copy_volatile m ptr new_ptr copy_len offset =
     (if offset < copy_len then
        copy_volatile (m(new_ptr + offset := m (ptr + offset))) ptr new_ptr copy_len (offset + 1)
      else m)"
  by pat_completeness auto
termination
  by (relation "measure (\<lambda>(m, p, q, len, offset). unat len - unat offset)")
    (auto simp: rust_arith word_less_nat_alt)

declare copy_volatile.simps [simp del]

text \<open>
  The allocator.  \<open>live\<close> records the mappings it has handed out, as the address and the length
  given to \<open>mmap\<close>; \<open>dealloc\<close> unmaps an address and a length.
\<close>

record heap =
  bytes_of :: mem
  live :: "usize \<Rightarrow> usize option"

definition alloc :: "usize option \<Rightarrow> heap \<Rightarrow> layout \<Rightarrow> heap \<times> usize" where
  "alloc mmap h l =
     (case mmap of
        None \<Rightarrow> (h, 0)
      | Some ptr \<Rightarrow> (h\<lparr>live := (live h)(ptr \<mapsto> page_rounded_size l)\<rparr>, ptr))"

definition dealloc :: "heap \<Rightarrow> usize \<Rightarrow> layout \<Rightarrow> heap" where
  "dealloc h ptr l =
     (if live h ptr = Some (page_rounded_size l) then h\<lparr>live := (live h)(ptr := None)\<rparr> else h)"

definition realloc :: "usize option \<Rightarrow> heap \<Rightarrow> usize \<Rightarrow> layout \<Rightarrow> usize \<Rightarrow> heap \<times> usize" where
  "realloc mmap h ptr l new_size =
     (case from_size_align (max new_size 1) (align l) of
        None \<Rightarrow> (h, 0)
      | Some new_layout \<Rightarrow>
          let (h1, new_ptr) = alloc mmap h new_layout
          in if new_ptr = 0 then (h1, 0)
             else let copy_len = min (size l) new_size;
                      h2 = h1\<lparr>bytes_of := copy_volatile (bytes_of h1) ptr new_ptr copy_len 0\<rparr>
                  in (dealloc h2 ptr l, new_ptr))"

section \<open>Copying\<close>

text \<open>Address \<open>a\<close> lies in the region of \<open>len\<close> bytes at \<open>p\<close> exactly if \<open>a - p < len\<close>.\<close>

lemma forward_no_clobber:
  fixes dst src len k j :: usize
  assumes "dst \<le> src" "unat src + unat len \<le> 2 ^ 64" "k < j" "j < len"
  shows "src + j \<noteq> dst + k"
proof
  assume eq: "src + j = dst + k"
  have "unat (src + j) = unat src + unat j"
    by (rule unat_add_no_wrap) (use assms in \<open>simp add: word_less_nat_alt\<close>)
  moreover have "unat (dst + k) = unat dst + unat k"
    by (rule unat_add_no_wrap) (use assms in \<open>simp add: word_less_nat_alt word_le_nat_alt\<close>)
  ultimately show False
    using eq assms by (simp add: word_less_nat_alt word_le_nat_alt)
qed

text \<open>An ascending copy is right as long as no byte is overwritten before it is read.\<close>

lemma memcpy_loop_spec:
  assumes "k \<le> len" "\<And>i j. i < j \<Longrightarrow> j < len \<Longrightarrow> src + j \<noteq> dst + i"
  shows "memcpy_loop m dst src len k =
    (\<lambda>a. if k \<le> a - dst \<and> a - dst < len then m (src + (a - dst)) else m a)"
  using assms
proof (induction m dst src len k rule: memcpy_loop.induct)
  case (1 m dst src len k)
  show ?case
  proof (cases "k < len")
    case False
    with "1.prems"(1) have "k = len" by simp
    then show ?thesis by (subst memcpy_loop.simps) (auto simp: fun_eq_iff)
  next
    case True
    let ?m = "m(dst + k := m (src + k))"
    note step = succ_le_iff_less [OF True]
    have "memcpy_loop m dst src len k = memcpy_loop ?m dst src len (k + 1)"
      using True by (subst memcpy_loop.simps) simp
    also have "\<dots> = (\<lambda>a. if k + 1 \<le> a - dst \<and> a - dst < len then ?m (src + (a - dst)) else ?m a)"
      by (rule "1.IH") (use True "1.prems" step in auto)
    also have "\<dots> = (\<lambda>a. if k \<le> a - dst \<and> a - dst < len then m (src + (a - dst)) else m a)"
    proof
      fix a
      show "(if k + 1 \<le> a - dst \<and> a - dst < len then ?m (src + (a - dst)) else ?m a) =
        (if k \<le> a - dst \<and> a - dst < len then m (src + (a - dst)) else m a)"
        using step [of "a - dst"] True "1.prems"(2) [of k "a - dst"]
        by (auto simp: order_le_less eq_add_iff_diff_eq [of a])
    qed
    finally show ?thesis .
  qed
qed

lemma backward_no_clobber:
  fixes dst src i j :: usize
  assumes "src < dst" "unat dst + unat i < 2 ^ 64" "j < i"
  shows "src + j \<noteq> dst + i"
proof
  assume eq: "src + j = dst + i"
  have "unat (src + j) = unat src + unat j"
    by (rule unat_add_no_wrap) (use assms in \<open>simp add: word_less_nat_alt\<close>)
  moreover have "unat (dst + i) = unat dst + unat i"
    by (rule unat_add_no_wrap) (use assms in simp)
  ultimately show False
    using eq assms by (simp add: word_less_nat_alt)
qed

lemma memmove_back_spec:
  assumes "src < dst" "unat dst + unat k \<le> 2 ^ 64"
  shows "memmove_back m dst src k = (\<lambda>a. if a - dst < k then m (src + (a - dst)) else m a)"
  using assms
proof (induction m dst src k rule: memmove_back.induct)
  case (1 m dst src k)
  show ?case
  proof (cases "k = 0")
    case True
    then show ?thesis by (subst memmove_back.simps) auto
  next
    case False
    define i where "i = k - 1"
    have i: "unat k = Suc (unat i)"
      using False by (simp add: i_def unat_minus_one unat_gt_0)
    let ?m = "m(dst + i := m (src + i))"
    have step: "j < k \<longleftrightarrow> j < i \<or> j = i" for j :: usize
      using i by (auto simp: word_less_nat_alt less_Suc_eq word_unat_eq_iff)
    have "memmove_back m dst src k = memmove_back ?m dst src i"
      using False by (subst memmove_back.simps) (simp add: i_def Let_def)
    also have "\<dots> = (\<lambda>a. if a - dst < i then ?m (src + (a - dst)) else ?m a)"
      by (rule "1.IH" [OF False i_def]) (use "1.prems" i in simp_all)
    also have "\<dots> = (\<lambda>a. if a - dst < k then m (src + (a - dst)) else m a)"
    proof
      fix a
      have ne: "src + j \<noteq> dst + i" if "j < i" for j
        by (rule backward_no_clobber) (use that "1.prems" i in auto)
      show "(if a - dst < i then ?m (src + (a - dst)) else ?m a) =
        (if a - dst < k then m (src + (a - dst)) else m a)"
        using step [of "a - dst"] ne [of "a - dst"] by (auto simp: eq_add_iff_diff_eq [of a])
    qed
    finally show ?thesis .
  qed
qed

lemma memset_loop_spec:
  assumes "k \<le> len"
  shows "memset_loop m dst v len k = (\<lambda>a. if k \<le> a - dst \<and> a - dst < len then v else m a)"
  using assms
proof (induction m dst v len k rule: memset_loop.induct)
  case (1 m dst v len k)
  show ?case
  proof (cases "k < len")
    case False
    with "1.prems" have "k = len" by simp
    then show ?thesis by (subst memset_loop.simps) (auto simp: fun_eq_iff)
  next
    case True
    note step = succ_le_iff_less [OF True]
    have "memset_loop m dst v len k = memset_loop (m(dst + k := v)) dst v len (k + 1)"
      using True by (subst memset_loop.simps) simp
    also have "\<dots> = (\<lambda>a. if k + 1 \<le> a - dst \<and> a - dst < len then v else (m(dst + k := v)) a)"
      by (rule "1.IH") (use True step in auto)
    also have "\<dots> = (\<lambda>a. if k \<le> a - dst \<and> a - dst < len then v else m a)"
    proof
      fix a
      show "(if k + 1 \<le> a - dst \<and> a - dst < len then v else (m(dst + k := v)) a) =
        (if k \<le> a - dst \<and> a - dst < len then v else m a)"
        using step [of "a - dst"] True by (auto simp: order_le_less eq_add_iff_diff_eq [of a])
    qed
    finally show ?thesis .
  qed
qed

lemma copy_volatile_memcpy:
  "copy_volatile m ptr new_ptr n k = memcpy_loop m new_ptr ptr n k"
proof (induction m ptr new_ptr n k rule: copy_volatile.induct)
  case (1 m ptr new_ptr n k)
  then show ?case
    by (subst copy_volatile.simps, subst memcpy_loop.simps) (simp del: fun_upd_apply)
qed

section \<open>Comparing\<close>

definition region :: "mem \<Rightarrow> usize \<Rightarrow> nat \<Rightarrow> nat \<Rightarrow> bytes" where
  "region m p k n = map (\<lambda>i. m (p + of_nat i)) [k..<n]"

lemma region_Cons: "k < n \<Longrightarrow> region m p k n = m (p + of_nat k) # region m p (Suc k) n"
  by (simp add: region_def upt_conv_Cons)

lemma memcmp_loop_spec:
  "sgn (memcmp_loop m l r len k) =
     (case cmp (region m l (unat k) (unat len)) (region m r (unat k) (unat len)) of
        Less \<Rightarrow> - 1 | Equal \<Rightarrow> 0 | Greater \<Rightarrow> 1)"
proof (induction m l r len k rule: memcmp_loop.induct)
  case (1 m l r len k)
  show ?case
  proof (cases "k < len")
    case False
    then show ?thesis
      by (subst memcmp_loop.simps) (simp add: region_def cmp_def word_less_nat_alt)
  next
    case True
    then have lt: "unat k < unat len" by (simp add: word_less_nat_alt)
    note cons = region_Cons [OF lt]
    show ?thesis
    proof (cases "m (l + k) = m (r + k)")
      case True
      then show ?thesis
        using "1.IH" \<open>k < len\<close>
        by (subst memcmp_loop.simps) (simp add: cons cmp_def rust_arith)
    next
      case False
      then have "uint (m (l + k)) < uint (m (r + k)) \<or> uint (m (r + k)) < uint (m (l + k))"
        by (metis linorder_neqE word_uint_eqI)
      with False \<open>k < len\<close> show ?thesis
        by (subst memcmp_loop.simps) (auto simp: cons cmp_def word_less_def)
    qed
  qed
qed

lemma strlen_loop_spec:
  assumes "m (ptr + of_nat k) = 0" "\<And>j. j < k \<Longrightarrow> m (ptr + of_nat j) \<noteq> 0"
  shows "strlen_loop m start ptr = Some (ptr + of_nat k - start)"
  using assms
proof (induction k arbitrary: ptr)
  case 0
  then show ?case by (subst strlen_loop.simps) simp
next
  case (Suc k)
  have "m ptr \<noteq> 0" using Suc.prems(2) [of 0] by simp
  then have "strlen_loop m start ptr = strlen_loop m start (ptr + 1)"
    by (subst strlen_loop.simps) simp
  also have "\<dots> = Some (ptr + 1 + of_nat k - start)"
  proof (rule Suc.IH)
    show "m (ptr + 1 + of_nat k) = 0" using Suc.prems(1) by (simp add: ac_simps)
    fix j assume "j < k"
    then show "m (ptr + 1 + of_nat j) \<noteq> 0" using Suc.prems(2) [of "Suc j"] by (simp add: ac_simps)
  qed
  finally show ?case by (simp add: ac_simps)
qed

section \<open>Properties\<close>

text \<open>C25. \<open>memmove\<close> is right for every overlap: after it, the destination holds the bytes the source
  held before, and every other byte is unchanged, provided neither region wraps around the
  address space.\<close>

theorem memmove_correct:
  assumes "unat src + unat len \<le> 2 ^ 64" "unat dst + unat len \<le> 2 ^ 64"
  shows "memmove m dst src len = (\<lambda>a. if a - dst < len then m (src + (a - dst)) else m a)"
proof (cases "dst \<le> src")
  case True
  have "memcpy_loop m dst src len 0 =
    (\<lambda>a. if 0 \<le> a - dst \<and> a - dst < len then m (src + (a - dst)) else m a)"
    by (rule memcpy_loop_spec) (use forward_no_clobber [OF True assms(1)] in auto)
  with True show ?thesis by (simp add: memmove_def memcpy_def)
next
  case False
  with memmove_back_spec [of src dst len m] assms show ?thesis by (simp add: memmove_def)
qed

theorem memmove_correct_witness:
  "memmove (\<lambda>a. ucast a) 3 1 4 = (\<lambda>a. if a - 3 < 4 then ucast (1 + (a - 3 :: usize)) else ucast a)"
  using memmove_correct [of 1 4 3 "\<lambda>a. ucast a"] by simp

text \<open>The sign of \<open>memcmp\<close> is the lexicographic comparison of the two regions by unsigned
  bytes, and it is zero exactly if they are equal; \<open>bcmp\<close> agrees with it.\<close>

theorem memcmp_lexicographic:
  "sgn (memcmp m left right len) =
     (case cmp (region m left 0 (unat len)) (region m right 0 (unat len)) of
        Less \<Rightarrow> - 1 | Equal \<Rightarrow> 0 | Greater \<Rightarrow> 1) \<and>
   bcmp m left right len = memcmp m left right len"
  using memcmp_loop_spec [of m left right len 0] by (simp add: memcmp_def bcmp_def)

text \<open>\<open>strlen\<close> returns, and returns the distance to the first zero byte, whenever there is one.\<close>

theorem strlen_correct:
  assumes "m (ptr + of_nat k) = 0" "\<And>j. j < k \<Longrightarrow> m (ptr + of_nat j) \<noteq> 0"
  shows "strlen m ptr = Some (of_nat k)"
  unfolding strlen_def
  by (subst strlen_loop_spec [where k = k]) (use assms in auto)

theorem strlen_correct_witness:
  "strlen (\<lambda>a. if a = 102 then 0 else 1) 100 = Some (of_nat 2)"
  by (rule strlen_correct) (auto simp: less_Suc_eq numeral_2_eq_2)

lemma page_rounded_unat:
  assumes "unat (max (size l) (align l)) + 0xfff < 2 ^ 64"
  shows "unat (page_rounded_size l) = round_up 4096 (unat (max (size l) (align l)))"
proof -
  let ?s = "max (size l) (align l)"
  have add: "unat (?s + 0xfff) = unat ?s + 0xfff"
    by (subst unat_add_no_wrap) (use assms in simp_all)
  have "unat (page_rounded_size l) = unat ((?s + 0xfff) AND NOT (2 ^ 12 - 1))"
    by (simp add: page_rounded_size_def Let_def)
  also have "\<dots> = unat (?s + 0xfff) - unat (?s + 0xfff) mod 2 ^ 12"
    by (rule unat_and_not_pow2_minus_1)
  finally show ?thesis by (simp add: add round_up_def)
qed

text \<open>The allocator asks for whole pages: the length is a multiple of 4096, at least the size and
  the alignment of the layout, and less than one page more than the larger of the two.\<close>

theorem page_rounded_size_bounds:
  assumes "unat (max (size l) (align l)) + 0xfff < 2 ^ 64"
  shows "unat (page_rounded_size l) mod 4096 = 0 \<and>
    unat (size l) \<le> unat (page_rounded_size l) \<and> unat (align l) \<le> unat (page_rounded_size l) \<and>
    unat (page_rounded_size l) < unat (max (size l) (align l)) + 4096"
proof -
  have "unat (size l) \<le> unat (max (size l) (align l))" "unat (align l) \<le> unat (max (size l) (align l))"
    by (simp_all add: max_def word_le_nat_alt)
  with round_up_ge [of 4096 "unat (max (size l) (align l))"]
    round_up_less [of 4096 "unat (max (size l) (align l))"]
  show ?thesis by (simp add: page_rounded_unat [OF assms])
qed

theorem page_rounded_size_bounds_witness:
  "unat (page_rounded_size \<lparr>size = 5000, align = 16\<rparr>) mod 4096 = 0 \<and>
   page_rounded_size \<lparr>size = 5000, align = 16\<rparr> = 8192"
  using page_rounded_size_bounds [of "\<lparr>size = 5000, align = 16\<rparr>"]
  by (simp add: page_rounded_size_def max_def)

text \<open>A successful \<open>realloc\<close> moves the allocation: the new block holds the common prefix of the
  old contents, the new mapping is recorded with its rounded length and the old one is
  unmapped, given that the kernel returned a fresh region.\<close>

theorem realloc_moves:
  assumes old: "live h ptr = Some (page_rounded_size l)"
    and lay: "from_size_align (max new_size 1) (align l) = Some nl"
    and fresh: "q \<noteq> 0" "q \<noteq> ptr"
      "\<And>i j. i < min (size l) new_size \<Longrightarrow> j < min (size l) new_size \<Longrightarrow> ptr + i \<noteq> q + j"
    and i: "i < min (size l) new_size"
  shows "snd (realloc (Some q) h ptr l new_size) = q \<and>
    bytes_of (fst (realloc (Some q) h ptr l new_size)) (q + i) = bytes_of h (ptr + i) \<and>
    live (fst (realloc (Some q) h ptr l new_size)) =
      (live h)(q \<mapsto> page_rounded_size nl, ptr := None)"
proof -
  let ?n = "min (size l) new_size"
  have "memcpy_loop m q ptr ?n 0 = (\<lambda>a. if 0 \<le> a - q \<and> a - q < ?n then m (ptr + (a - q)) else m a)" for m
  proof (rule memcpy_loop_spec)
    fix i j :: usize
    assume "i < j" "j < ?n"
    moreover from this have "i < ?n" by (rule order.strict_trans)
    ultimately show "ptr + j \<noteq> q + i" using fresh(3) by blast
  qed simp
  with i have "copy_volatile m ptr q ?n 0 (q + i) = m (ptr + i)" for m
    by (simp add: copy_volatile_memcpy)
  with old lay fresh show ?thesis
    by (auto simp: realloc_def alloc_def dealloc_def Let_def)
qed

theorem realloc_moves_witness:
  "bytes_of (fst (realloc (Some 8192)
      \<lparr>bytes_of = (\<lambda>a. ucast a), live = [4096 \<mapsto> 4096]\<rparr> 4096 \<lparr>size = 2, align = 1\<rparr> 5)) (8192 + 1) =
   ucast (4096 + 1 :: usize)"
proof -
  let ?h = "\<lparr>bytes_of = (\<lambda>a. ucast a), live = [4096 \<mapsto> 4096]\<rparr> :: heap" and ?l = "\<lparr>size = 2, align = 1\<rparr>"
  have lay: "from_size_align (max 5 1) (align ?l) = Some \<lparr>size = 5, align = 1\<rparr>"
    by (simp add: from_size_align_def max_def word_le_nat_alt) (rule exI [of _ 0], simp)
  have two: "i = 0 \<or> i = 1" if "i < min (size ?l) 5" for i
    using that by (auto simp: word_less_nat_alt word_unat_eq_iff unat_word_ariths min_def)
  have "4096 + i \<noteq> 8192 + j" if "i < min (size ?l) 5" "j < min (size ?l) 5" for i j
    using two [OF that(1)] two [OF that(2)] by auto
  then show ?thesis
    using realloc_moves [of ?h 4096 ?l 5, OF _ lay, of 8192 1]
    by (simp add: page_rounded_size_def max_def)
qed

end
