(* ===== verification/Dtv.thy ===== *)
theory Dtv
  imports Memory
begin

text \<open>
  Thread control block and dynamic thread vector of the glibc 2.39 ABI
  (\<open>src/rtld/impl/src/glibc/v2_39/tls.rs\<close>), on the byte memory and the allocator of
  \<open>Memory\<close>.  The answer of \<open>mmap\<close> is an argument of every operation that allocates.  The vector is
  shown to implement the table contract of the locale \<open>slot_table\<close>.
\<close>

section \<open>Raw accesses\<close>

text \<open>\<open>ptr::copy_nonoverlapping\<close> from a slice, \<open>ptr::write\<close> and \<open>ptr::read\<close> of a \<open>usize\<close>.\<close>

definition write_list :: "mem \<Rightarrow> usize \<Rightarrow> bytes \<Rightarrow> mem" where
  "write_list m p bs = (\<lambda>a. if unat (a - p) < length bs then bs ! unat (a - p) else m a)"

definition read_list :: "mem \<Rightarrow> usize \<Rightarrow> nat \<Rightarrow> bytes" where
  "read_list m p n = map (\<lambda>i. m (p + of_nat i)) [0..<n]"

definition write_usize :: "mem \<Rightarrow> usize \<Rightarrow> usize \<Rightarrow> mem" where
  "write_usize m p v = write_list m p (le_enc 8 (unat v))"

definition read_usize :: "mem \<Rightarrow> usize \<Rightarrow> usize" where
  "read_usize m p = of_nat (le_nat (read_list m p 8))"

text \<open>Two regions with no byte in common.\<close>

definition apart :: "usize \<Rightarrow> nat \<Rightarrow> usize \<Rightarrow> nat \<Rightarrow> bool" where
  "apart p n q k \<longleftrightarrow> (\<forall>i<n. \<forall>j<k. p + of_nat i \<noteq> q + of_nat j)"

lemma apart_offsets:
  assumes "a + n \<le> b \<or> b + k \<le> a" "a + n \<le> 2 ^ 64" "b + k \<le> 2 ^ 64"
  shows "apart (p + of_nat a) n (p + of_nat b) k"
  unfolding apart_def
proof (intro allI impI notI)
  fix i j assume ij: "i < n" "j < k" and eq: "p + of_nat a + of_nat i = p + of_nat b + of_nat j"
  have "of_nat (a + i) = (of_nat (b + j) :: usize)" using eq by (simp add: algebra_simps)
  then have "a + i = b + j"
    by (subst (asm) of_nat_usize_inject) (use assms ij in auto)
  with assms ij show False by auto
qed

lemma apart_subset:
  assumes "apart p n q k" "d + k' \<le> k"
  shows "apart p n (q + of_nat d) k'"
  unfolding apart_def
proof (intro allI impI)
  fix i j assume "i < n" "j < k'"
  moreover from this have "d + j < k" using assms(2) by simp
  ultimately have "p + of_nat i \<noteq> q + of_nat (d + j)" using assms(1) unfolding apart_def by blast
  then show "p + of_nat i \<noteq> q + of_nat d + of_nat j" by (simp add: algebra_simps)
qed

lemma apart_sym: "apart p n q k \<longleftrightarrow> apart q k p n"
  unfolding apart_def by metis

lemma length_read_list [simp]: "length (read_list m p n) = n"
  by (simp add: read_list_def)

lemma read_write_list_same:
  assumes "length bs < 2 ^ 64"
  shows "read_list (write_list m p bs) p (length bs) = bs"
  by (rule nth_equalityI) (use assms in \<open>auto simp: read_list_def write_list_def unat_of_nat_usize\<close>)

lemma write_list_apart:
  assumes "apart p n q (length bs)" "i < n"
  shows "write_list m q bs (p + of_nat i) = m (p + of_nat i)"
proof -
  have "\<not> unat (p + of_nat i - q) < length bs"
  proof
    assume lt: "unat (p + of_nat i - q) < length bs"
    have "p + of_nat i = q + of_nat (unat (p + of_nat i - q))" by simp
    with assms lt show False unfolding apart_def by blast
  qed
  then show ?thesis by (simp add: write_list_def)
qed

lemma read_write_list_apart:
  "apart p n q (length bs) \<Longrightarrow> read_list (write_list m q bs) p n = read_list m p n"
  by (simp add: read_list_def write_list_apart)

lemma read_write_usize [simp]: "read_usize (write_usize m p v) p = v"
proof -
  have "read_list (write_list m p (le_enc 8 (unat v))) p 8 = le_enc 8 (unat v)"
    using read_write_list_same [of "le_enc 8 (unat v)"] by simp
  moreover have "unat v mod 256 ^ 8 = unat v" using unat_usize_bound [of v] by simp
  ultimately show ?thesis
    by (simp add: read_usize_def write_usize_def le_nat_enc)
qed

lemma read_write_usize_apart:
  "apart p 8 q 8 \<Longrightarrow> read_usize (write_usize m q v) p = read_usize m p"
  by (simp add: read_usize_def write_usize_def read_write_list_apart)

text \<open>\<open>GlobalAlloc::alloc_zeroed\<close>: its default body over \<open>alloc\<close>.\<close>

definition alloc_zeroed :: "usize option \<Rightarrow> heap \<Rightarrow> layout \<Rightarrow> heap \<times> usize" where
  "alloc_zeroed mmap h l =
     (let (h1, ptr) = alloc mmap h l
      in if ptr = 0 then (h1, ptr) else (h1\<lparr>bytes_of := memset (bytes_of h1) ptr 0 (size l)\<rparr>, ptr))"

lemma memset_eq: "memset m p v n = (\<lambda>a. if a - p < n then ucast v else m a)"
  by (simp add: memset_def memset_loop_spec)

lemma memset_inside:
  assumes "i < unat n"
  shows "memset m p v n (p + of_nat i) = ucast v"
proof -
  have "i < 2 ^ 64" using assms unat_usize_bound [of n] by simp
  with assms show ?thesis by (simp add: memset_eq word_less_nat_alt unat_of_nat_usize)
qed

lemma memset_apart:
  assumes "apart p n q (unat k)" "i < n"
  shows "memset m q v k (p + of_nat i) = m (p + of_nat i)"
proof -
  have "\<not> p + of_nat i - q < k"
  proof
    assume "p + of_nat i - q < k"
    then have "unat (p + of_nat i - q) < unat k" by (simp add: word_less_nat_alt)
    moreover have "p + of_nat i = q + of_nat (unat (p + of_nat i - q))" by simp
    ultimately show False using assms unfolding apart_def by blast
  qed
  then show ?thesis by (simp add: memset_eq)
qed

lemma read_memset_apart: "apart p n q (unat k) \<Longrightarrow> read_list (memset m q v k) p n = read_list m p n"
  by (simp add: read_list_def memset_apart)


section \<open>The operations\<close>

definition TCB_SELF_OFFSET :: usize where "TCB_SELF_OFFSET = 0x00"
definition TCB_DTV_OFFSET :: usize where "TCB_DTV_OFFSET = 0x08"
definition TCB_THREAD_SELF_OFFSET :: usize where "TCB_THREAD_SELF_OFFSET = 0x10"
definition TCB_STACK_GUARD_OFFSET :: usize where "TCB_STACK_GUARD_OFFSET = 0x28"
definition TCB_POINTER_GUARD_OFFSET :: usize where "TCB_POINTER_GUARD_OFFSET = 0x30"
definition DTV_SLOT_COUNT :: usize where "DTV_SLOT_COUNT = 64"
definition BOOTSTRAP_STACK_GUARD :: usize where "BOOTSTRAP_STACK_GUARD = 0x2f6a5d1b3c4e8790"
definition BOOTSTRAP_POINTER_GUARD :: usize where "BOOTSTRAP_POINTER_GUARD = 0x6b431d2984a07c5e"

text \<open>A \<open>DtvEntry\<close> is two words; \<open>Layout::array::<DtvEntry>\<close>.\<close>

definition entry_size :: usize where "entry_size = 16"

definition entry_array :: "usize \<Rightarrow> layout option" where
  "entry_array n = (if 16 * unat n < 2 ^ 63 then Some \<lparr>size = entry_size * n, align = 8\<rparr> else None)"

definition deallocate_tcb :: "heap \<Rightarrow> usize \<Rightarrow> heap" where
  "deallocate_tcb h tp =
     (if tp = 0 then h
      else let dtv = read_usize (bytes_of h) (tp + TCB_DTV_OFFSET) in
           if dtv = 0 then h
           else let base = dtv - entry_size;
                    slots = saturating_add (read_usize (bytes_of h) base) 2;
                    h1 = (case entry_array slots of Some l \<Rightarrow> dealloc h base l | None \<Rightarrow> h)
                in h1\<lparr>bytes_of := write_usize (bytes_of h1) (tp + TCB_DTV_OFFSET) 0\<rparr>)"

definition allocate_dtv :: "usize option \<Rightarrow> heap \<Rightarrow> (heap \<times> usize) run" where
  "allocate_dtv mmap h =
     run_bind (expect (entry_array (DTV_SLOT_COUNT + 2))) (\<lambda>l.
     let (h1, base) = alloc_zeroed mmap h l
     in if base = 0 then Panic
        else Done (h1\<lparr>bytes_of := write_usize (bytes_of h1) base DTV_SLOT_COUNT\<rparr>, base + entry_size))"

definition write_tcb :: "mem \<Rightarrow> usize \<Rightarrow> usize \<Rightarrow> mem" where
  "write_tcb m tp dtv =
     (let m = write_usize m (tp + TCB_SELF_OFFSET) tp;
          m = write_usize m (tp + TCB_DTV_OFFSET) dtv;
          m = write_usize m (tp + TCB_THREAD_SELF_OFFSET) tp;
          m = write_usize m (tp + TCB_STACK_GUARD_OFFSET) BOOTSTRAP_STACK_GUARD
      in write_usize m (tp + TCB_POINTER_GUARD_OFFSET) BOOTSTRAP_POINTER_GUARD)"

definition init_tcb :: "usize option \<Rightarrow> heap \<Rightarrow> usize \<Rightarrow> heap run" where
  "init_tcb mmap h tp =
     run_bind (allocate_dtv mmap (deallocate_tcb h tp)) (\<lambda>(h1, dtv).
     Done (h1\<lparr>bytes_of := write_tcb (bytes_of h1) tp dtv\<rparr>))"

definition dtv_entry :: "heap \<Rightarrow> usize \<Rightarrow> usize \<Rightarrow> usize option" where
  "dtv_entry h tp mod_id =
     (if tp = 0 \<or> mod_id = 0 then None
      else let dtv = read_usize (bytes_of h) (tp + TCB_DTV_OFFSET) in
           if dtv = 0 then None
           else let len = read_usize (bytes_of h) (dtv - entry_size) in
                if mod_id > len then None else Some (dtv + entry_size * mod_id))"

definition dtv_value :: "heap \<Rightarrow> usize \<Rightarrow> usize \<Rightarrow> usize option" where
  "dtv_value h tp mod_id =
     (case dtv_entry h tp mod_id of
        None \<Rightarrow> None
      | Some e \<Rightarrow> let value = read_usize (bytes_of h) e in if value \<noteq> 0 then Some value else None)"

definition set_dtv_value :: "heap \<Rightarrow> usize \<Rightarrow> usize \<Rightarrow> usize \<Rightarrow> usize \<Rightarrow> heap \<times> bool" where
  "set_dtv_value h tp mod_id value to_free =
     (case dtv_entry h tp mod_id of
        None \<Rightarrow> (h, False)
      | Some e \<Rightarrow>
          (h\<lparr>bytes_of := write_usize (write_usize (bytes_of h) e value) (e + 8) to_free\<rparr>, True))"

section \<open>The vector as a table of slots\<close>

text \<open>What a client of a bounded table of slots may rely on; \<open>ok\<close> is the provider's invariant.\<close>

locale slot_table =
  fixes ok :: "'s \<Rightarrow> bool"
    and get :: "'s \<Rightarrow> usize \<Rightarrow> usize option"
    and put :: "'s \<Rightarrow> usize \<Rightarrow> usize \<Rightarrow> usize \<Rightarrow> 's \<times> bool"
    and slots :: nat
  assumes put_ok: "ok s \<Longrightarrow> ok (fst (put s k v w))"
    and put_succeeds: "ok s \<Longrightarrow> snd (put s k v w) \<longleftrightarrow> k \<noteq> 0 \<and> unat k \<le> slots"
    and put_fails: "ok s \<Longrightarrow> \<not> snd (put s k v w) \<Longrightarrow> fst (put s k v w) = s"
    and get_same: "ok s \<Longrightarrow> snd (put s k v w) \<Longrightarrow> get (fst (put s k v w)) k = (if v = 0 then None else Some v)"
    and get_other: "ok s \<Longrightarrow> k' \<noteq> k \<Longrightarrow> get (fst (put s k v w)) k' = get s k'"
    and get_range: "ok s \<Longrightarrow> get s k = Some v \<Longrightarrow> k \<noteq> 0 \<and> unat k \<le> slots"
begin

text \<open>A sequence of stores leaves in each slot what the last store to it wrote.\<close>

definition puts :: "'s \<Rightarrow> (usize \<times> usize) list \<Rightarrow> 's" where
  "puts s kvs = foldl (\<lambda>s (k, v). fst (put s k v 0)) s kvs"

lemma puts_ok: "ok s \<Longrightarrow> ok (puts s kvs)"
  unfolding puts_def by (induction kvs arbitrary: s) (auto simp: put_ok)

lemma get_puts_notin: "ok s \<Longrightarrow> k \<notin> fst ` set kvs \<Longrightarrow> get (puts s kvs) k = get s k"
  unfolding puts_def by (induction kvs arbitrary: s) (auto simp: put_ok get_other)

lemma get_puts_last:
  assumes "ok s" "k \<noteq> 0" "unat k \<le> slots" "v \<noteq> 0" "k \<notin> fst ` set later"
  shows "get (puts s (earlier @ (k, v) # later)) k = Some v"
proof -
  have "puts s (earlier @ (k, v) # later) = puts (fst (put (puts s earlier) k v 0)) later"
    by (simp add: puts_def)
  with assms show ?thesis
    by (simp add: get_puts_notin put_ok puts_ok get_same put_succeeds)
qed

end

text \<open>A control block whose vector was set up by \<open>init_tcb\<close>: 66 entries starting at \<open>base\<close>, the first
  of which holds the number of slots, and which the pointer to the vector is not part of.\<close>

definition dtv_ok :: "usize \<Rightarrow> heap \<Rightarrow> bool" where
  "dtv_ok tp h \<longleftrightarrow>
     (let dtv = read_usize (bytes_of h) (tp + TCB_DTV_OFFSET); base = dtv - entry_size
      in tp \<noteq> 0 \<and> dtv \<noteq> 0 \<and> read_usize (bytes_of h) base = DTV_SLOT_COUNT \<and>
         apart (tp + TCB_DTV_OFFSET) 8 base 1056)"

definition dtv_base :: "usize \<Rightarrow> heap \<Rightarrow> usize" where
  "dtv_base tp h = read_usize (bytes_of h) (tp + TCB_DTV_OFFSET) - entry_size"

lemma dtv_okD:
  assumes "dtv_ok tp h"
  shows "tp \<noteq> 0" "dtv_base tp h + entry_size \<noteq> 0"
    "read_usize (bytes_of h) (tp + TCB_DTV_OFFSET) = dtv_base tp h + entry_size"
    "read_usize (bytes_of h) (dtv_base tp h) = 64"
    "apart (tp + TCB_DTV_OFFSET) 8 (dtv_base tp h) 1056"
  using assms by (simp_all add: dtv_ok_def dtv_base_def Let_def DTV_SLOT_COUNT_def)

text \<open>Every entry the code addresses lies inside the allocated vector.\<close>

lemma dtv_entry_eq:
  assumes "dtv_ok tp h"
  shows "dtv_entry h tp k =
    (if k \<noteq> 0 \<and> unat k \<le> 64 then Some (dtv_base tp h + of_nat (16 * (unat k + 1))) else None)"
proof -
  have "dtv_base tp h + entry_size + entry_size * k = dtv_base tp h + of_nat (16 * (unat k + 1))"
    by (simp add: entry_size_def algebra_simps)
  moreover have "64 < k \<longleftrightarrow> \<not> unat k \<le> 64" by (simp add: word_less_nat_alt not_le)
  ultimately show ?thesis
    using dtv_okD [OF assms] unfolding dtv_entry_def Let_def by simp
qed

lemma set_dtv_value_frame:
  assumes ok: "dtv_ok tp h" and e: "dtv_entry h tp k = Some e"
    and p: "apart p 8 e 8" "apart p 8 (e + 8) 8"
  shows "read_usize (bytes_of (fst (set_dtv_value h tp k v w))) p = read_usize (bytes_of h) p"
  using e p by (simp add: set_dtv_value_def read_write_usize_apart)

lemma dtv_slot_apart:
  assumes "a + 8 \<le> b \<or> b + 8 \<le> a" "a \<le> 1048" "b \<le> 1048"
  shows "apart (p + of_nat a) 8 (p + of_nat b) 8"
  by (rule apart_offsets) (use assms in auto)

lemma entry_shape:
  assumes "dtv_ok tp h" "dtv_entry h tp k = Some e"
  shows "unat k \<noteq> 0" "16 * (unat k + 1) \<le> 1040" "e = dtv_base tp h + of_nat (16 * (unat k + 1))"
    "e + 8 = dtv_base tp h + of_nat (16 * (unat k + 1) + 8)"
  using assms(2) dtv_entry_eq [OF assms(1), of k]
  by (auto split: if_splits simp: unat_eq_zero)

lemma slot_kept:
  assumes ok: "dtv_ok tp h" and e: "dtv_entry h tp k = Some e"
    and off: "off + 8 \<le> 16 * (unat k + 1) \<or> 16 * (unat k + 1) + 16 \<le> off" "off \<le> 1048"
  shows "read_usize (bytes_of (fst (set_dtv_value h tp k v w))) (dtv_base tp h + of_nat off) =
    read_usize (bytes_of h) (dtv_base tp h + of_nat off)"
proof (rule set_dtv_value_frame [OF ok e])
  note sh = entry_shape [OF ok e]
  show "apart (dtv_base tp h + of_nat off) 8 e 8"
    unfolding sh(3) by (rule dtv_slot_apart) (use sh(1,2) off in linarith)+
  show "apart (dtv_base tp h + of_nat off) 8 (e + 8) 8"
    unfolding sh(4) by (rule dtv_slot_apart) (use sh(1,2) off in linarith)+
qed

lemma pointer_kept:
  assumes ok: "dtv_ok tp h" and e: "dtv_entry h tp k = Some e"
  shows "read_usize (bytes_of (fst (set_dtv_value h tp k v w))) (tp + TCB_DTV_OFFSET) =
   read_usize (bytes_of h) (tp + TCB_DTV_OFFSET)"
proof (rule set_dtv_value_frame [OF ok e])
  note sh = entry_shape [OF ok e]
  show "apart (tp + TCB_DTV_OFFSET) 8 e 8"
    unfolding sh(3) by (rule apart_subset [OF dtv_okD(5) [OF ok]]) (use sh(2) in linarith)
  show "apart (tp + TCB_DTV_OFFSET) 8 (e + 8) 8"
    unfolding sh(4) by (rule apart_subset [OF dtv_okD(5) [OF ok]]) (use sh(2) in linarith)
qed

lemma dtv_base_kept:
  assumes "dtv_ok tp h" "dtv_entry h tp k = Some e"
  shows "dtv_base tp (fst (set_dtv_value h tp k v w)) = dtv_base tp h"
  unfolding dtv_base_def by (simp only: pointer_kept [OF assms])

lemma dtv_ok_set:
  assumes ok: "dtv_ok tp h"
  shows "dtv_ok tp (fst (set_dtv_value h tp k v w))"
proof (cases "dtv_entry h tp k")
  case None
  then show ?thesis using ok by (simp add: set_dtv_value_def)
next
  case (Some e)
  have "read_usize (bytes_of (fst (set_dtv_value h tp k v w))) (dtv_base tp h + of_nat 0) =
      read_usize (bytes_of h) (dtv_base tp h + of_nat 0)"
    by (rule slot_kept [OF ok Some]) simp_all
  then have "read_usize (bytes_of (fst (set_dtv_value h tp k v w))) (dtv_base tp h) = DTV_SLOT_COUNT"
    using dtv_okD(4) [OF ok] by (simp add: DTV_SLOT_COUNT_def)
  then show ?thesis
    using dtv_okD [OF ok]
    by (simp add: dtv_ok_def Let_def pointer_kept [OF ok Some] flip: dtv_base_def)
qed

lemma dtv_entry_set:
  assumes ok: "dtv_ok tp h"
  shows "dtv_entry (fst (set_dtv_value h tp k v w)) tp k' = dtv_entry h tp k'"
proof (cases "dtv_entry h tp k")
  case None
  then show ?thesis by (simp add: set_dtv_value_def)
next
  case (Some e)
  show ?thesis
    by (simp only: dtv_entry_eq [OF ok] dtv_entry_eq [OF dtv_ok_set [OF ok]] dtv_base_kept [OF ok Some])
qed

lemma dtv_value_same:
  assumes ok: "dtv_ok tp h" and e: "dtv_entry h tp k = Some e"
  shows "dtv_value (fst (set_dtv_value h tp k v w)) tp k = (if v = 0 then None else Some v)"
proof -
  have "apart e 8 (e + 8) 8"
    unfolding entry_shape(4) [OF ok e] unfolding entry_shape(3) [OF ok e]
    by (rule dtv_slot_apart) (use entry_shape(2) [OF ok e] in linarith)+
  then have "read_usize (bytes_of (fst (set_dtv_value h tp k v w))) e = v"
    using e by (simp add: set_dtv_value_def read_write_usize_apart)
  then show ?thesis using e by (simp add: dtv_value_def dtv_entry_set [OF ok])
qed

lemma dtv_value_other:
  assumes ok: "dtv_ok tp h" and ne: "k' \<noteq> k"
  shows "dtv_value (fst (set_dtv_value h tp k v w)) tp k' = dtv_value h tp k'"
proof (cases "dtv_entry h tp k")
  case None
  then show ?thesis by (simp add: set_dtv_value_def)
next
  case (Some e)
  have "read_usize (bytes_of (fst (set_dtv_value h tp k v w))) e' = read_usize (bytes_of h) e'"
    if e': "dtv_entry h tp k' = Some e'" for e'
    unfolding entry_shape(3) [OF ok e']
  proof (rule slot_kept [OF ok Some])
    have "unat k' \<noteq> unat k" using ne by (simp add: word_unat_eq_iff)
    then show "16 * (unat k' + 1) + 8 \<le> 16 * (unat k + 1) \<or> 16 * (unat k + 1) + 16 \<le> 16 * (unat k' + 1)"
      by (cases "unat k' < unat k") auto
    show "16 * (unat k' + 1) \<le> 1048" using entry_shape(2) [OF ok e'] by linarith
  qed
  then show ?thesis by (simp add: dtv_value_def dtv_entry_set [OF ok] split: option.splits)
qed

lemma set_dtv_value_snd: "snd (set_dtv_value h tp k v w) \<longleftrightarrow> dtv_entry h tp k \<noteq> None"
  by (simp add: set_dtv_value_def split: option.splits)

interpretation dtv: slot_table "dtv_ok tp" "\<lambda>h. dtv_value h tp" "\<lambda>h. set_dtv_value h tp" 64 for tp
proof unfold_locales
  fix s :: heap and k v w :: usize assume ok: "dtv_ok tp s"
  show "dtv_ok tp (fst (set_dtv_value s tp k v w))" by (rule dtv_ok_set [OF ok])
  show "snd (set_dtv_value s tp k v w) \<longleftrightarrow> k \<noteq> 0 \<and> unat k \<le> 64"
    by (simp add: set_dtv_value_snd dtv_entry_eq [OF ok])
next
  fix s :: heap and k v w :: usize assume "dtv_ok tp s" "\<not> snd (set_dtv_value s tp k v w)"
  then show "fst (set_dtv_value s tp k v w) = s" by (simp add: set_dtv_value_def split: option.splits)
next
  fix s :: heap and k v w :: usize assume "dtv_ok tp s" "snd (set_dtv_value s tp k v w)"
  then show "dtv_value (fst (set_dtv_value s tp k v w)) tp k = (if v = 0 then None else Some v)"
    by (auto simp only: set_dtv_value_snd intro: dtv_value_same)
next
  fix s :: heap and k k' v w :: usize assume "dtv_ok tp s" "k' \<noteq> k"
  then show "dtv_value (fst (set_dtv_value s tp k v w)) tp k' = dtv_value s tp k'"
    by (rule dtv_value_other)
next
  fix s :: heap and k v :: usize assume "dtv_ok tp s" "dtv_value s tp k = Some v"
  then show "k \<noteq> 0 \<and> unat k \<le> 64"
    by (auto simp: dtv_value_def dtv_entry_eq split: option.splits if_splits)
qed

section \<open>Setting up a control block\<close>

lemmas tcb_offsets = TCB_SELF_OFFSET_def TCB_DTV_OFFSET_def TCB_THREAD_SELF_OFFSET_def
  TCB_STACK_GUARD_OFFSET_def TCB_POINTER_GUARD_OFFSET_def

lemma tcb_apart:
  assumes "a + 8 \<le> b \<or> b + 8 \<le> a" "a \<le> 48" "b \<le> 48"
  shows "apart (tp + of_nat a) 8 (tp + of_nat b) 8"
  by (rule apart_offsets) (use assms in auto)

lemmas tcb_apart_at =
  tcb_apart [of 0 8, simplified] tcb_apart [of 0 16, simplified] tcb_apart [of 0 40, simplified]
  tcb_apart [of 0 48, simplified] tcb_apart [of 8 16, simplified] tcb_apart [of 8 40, simplified]
  tcb_apart [of 8 48, simplified] tcb_apart [of 16 40, simplified] tcb_apart [of 16 48, simplified]
  tcb_apart [of 40 48, simplified]

lemma write_tcb_read:
  "read_usize (write_tcb m tp dtv) tp = tp"
  "read_usize (write_tcb m tp dtv) (tp + TCB_DTV_OFFSET) = dtv"
  "read_usize (write_tcb m tp dtv) (tp + TCB_THREAD_SELF_OFFSET) = tp"
  "read_usize (write_tcb m tp dtv) (tp + TCB_STACK_GUARD_OFFSET) = BOOTSTRAP_STACK_GUARD"
  "read_usize (write_tcb m tp dtv) (tp + TCB_POINTER_GUARD_OFFSET) = BOOTSTRAP_POINTER_GUARD"
  by (simp_all add: write_tcb_def Let_def tcb_offsets read_write_usize_apart tcb_apart_at)

lemma write_tcb_frame:
  assumes "apart p 8 tp 56"
  shows "read_usize (write_tcb m tp dtv) p = read_usize m p"
  using apart_subset [OF assms, of 0 8] apart_subset [OF assms, of 8 8] apart_subset [OF assms, of 16 8]
    apart_subset [OF assms, of 40 8] apart_subset [OF assms, of 48 8]
  by (simp add: write_tcb_def Let_def tcb_offsets read_write_usize_apart)

lemma le_nat_zeros: "\<forall>b\<in>set bs. b = 0 \<Longrightarrow> le_nat bs = 0"
  by (induction bs) auto

lemma read_memset_zero:
  assumes "off + 8 \<le> unat n"
  shows "read_usize (memset m p 0 n) (p + of_nat off) = 0"
proof -
  have "memset m p 0 n (p + of_nat off + of_nat i) = 0" if "i < 8" for i
    using memset_inside [of "off + i" n m p 0] assms that by (simp add: algebra_simps)
  then show ?thesis by (simp add: read_usize_def read_list_def le_nat_zeros)
qed

definition dtv_layout :: layout where
  "dtv_layout = \<lparr>size = 1056, align = 8\<rparr>"

lemma entry_array_dtv: "entry_array (DTV_SLOT_COUNT + 2) = Some dtv_layout"
  by (simp add: entry_array_def DTV_SLOT_COUNT_def entry_size_def dtv_layout_def)

lemma allocate_dtv_eq:
  "b \<noteq> 0 \<Longrightarrow> allocate_dtv (Some b) h = Done
     (h\<lparr>bytes_of := write_usize (memset (bytes_of h) b 0 1056) b 64,
        live := (live h)(b \<mapsto> page_rounded_size dtv_layout)\<rparr>, b + 16)"
  by (simp add: allocate_dtv_def entry_array_dtv alloc_zeroed_def alloc_def)
     (simp add: dtv_layout_def DTV_SLOT_COUNT_def entry_size_def)

lemma fresh_dtv_slot:
  assumes "off + 8 \<le> 1056" "8 \<le> off" "apart (b + of_nat off) 8 tp 56"
  shows "read_usize (write_tcb (write_usize (memset m b 0 1056) b 64) tp dtv) (b + of_nat off) = 0"
proof -
  have "apart (b + of_nat off) 8 (b + of_nat 0) 8" by (rule apart_offsets) (use assms in auto)
  with assms(1) show ?thesis
    by (simp add: write_tcb_frame [OF assms(3)] read_write_usize_apart read_memset_zero)
qed

lemma deallocate_tcb_unmaps:
  assumes "dtv_ok tp h" "live h (dtv_base tp h) = Some (page_rounded_size dtv_layout)"
  shows "live (deallocate_tcb h tp) = (live h)(dtv_base tp h := None)"
proof -
  have "entry_array (saturating_add 64 2) = Some dtv_layout"
    using entry_array_dtv by (simp add: saturating_add_def DTV_SLOT_COUNT_def)
  with assms dtv_okD [OF assms(1)] show ?thesis
    by (simp add: deallocate_tcb_def Let_def dealloc_def)
qed

text \<open>\<open>init_tcb\<close> on memory from the kernel that does not overlap the control block returns with
  the two self pointers and both guards stored and a vector of 64 empty slots installed; the live
  mappings are the ones \<open>deallocate_tcb\<close> left and the new vector.\<close>

theorem init_tcb_fresh:
  assumes b: "b \<noteq> 0" "b + 16 \<noteq> 0" and tp: "tp \<noteq> 0" and ap: "apart tp 56 b 1056"
  shows "\<exists>h'. init_tcb (Some b) h tp = Done h' \<and> dtv_ok tp h' \<and> (\<forall>k. dtv_value h' tp k = None) \<and>
    read_usize (bytes_of h') (tp + TCB_SELF_OFFSET) = tp \<and>
    read_usize (bytes_of h') (tp + TCB_THREAD_SELF_OFFSET) = tp \<and>
    read_usize (bytes_of h') (tp + TCB_STACK_GUARD_OFFSET) = BOOTSTRAP_STACK_GUARD \<and>
    read_usize (bytes_of h') (tp + TCB_POINTER_GUARD_OFFSET) = BOOTSTRAP_POINTER_GUARD \<and>
    live h' = (live (deallocate_tcb h tp))(b \<mapsto> page_rounded_size dtv_layout)"
proof -
  let ?h0 = "deallocate_tcb h tp"
  let ?m = "write_tcb (write_usize (memset (bytes_of ?h0) b 0 1056) b 64) tp (b + 16)"
  let ?h' = "?h0\<lparr>bytes_of := ?m, live := (live ?h0)(b \<mapsto> page_rounded_size dtv_layout)\<rparr>"
  have init: "init_tcb (Some b) h tp = Done ?h'"
    by (simp add: init_tcb_def allocate_dtv_eq b(1))
  have sub: "apart (b + of_nat off) 8 tp 56" if "off + 8 \<le> 1056" for off
    using apart_subset [OF ap that] by (simp add: apart_sym)
  have hd: "read_usize ?m b = 64"
    using write_tcb_frame [of b] sub [of 0] by simp
  have "apart (tp + TCB_DTV_OFFSET) 8 b 1056"
    using apart_subset [of b 1056 tp 56 8 8] ap by (simp add: apart_sym TCB_DTV_OFFSET_def)
  then have ok: "dtv_ok tp ?h'"
    using tp b hd by (simp add: dtv_ok_def Let_def write_tcb_read(2) entry_size_def DTV_SLOT_COUNT_def)
  have base: "dtv_base tp ?h' = b"
    by (simp add: dtv_base_def write_tcb_read(2) entry_size_def)
  have "dtv_value ?h' tp k = None" for k
  proof (cases "dtv_entry ?h' tp k")
    case None
    then show ?thesis by (simp add: dtv_value_def)
  next
    case (Some e)
    note sh = entry_shape [OF ok Some, unfolded base]
    have "read_usize ?m e = 0"
      unfolding sh(3) by (rule fresh_dtv_slot [OF _ _ sub]) (use sh(2) in simp)+
    with Some show ?thesis by (simp add: dtv_value_def)
  qed
  with init ok show ?thesis
    using write_tcb_read [of _ tp] by (intro exI [of _ ?h']) (simp add: TCB_SELF_OFFSET_def)
qed

definition zero_heap :: heap where
  "zero_heap = \<lparr>bytes_of = (\<lambda>_. 0), live = Map.empty\<rparr>"

theorem init_tcb_fresh_witness:
  "\<exists>h'. init_tcb (Some 0x20000) zero_heap 0x10000 = Done h' \<and> dtv_ok 0x10000 h' \<and>
     read_usize (bytes_of h') (0x10000 + TCB_SELF_OFFSET) = 0x10000"
proof -
  have "apart (0 + of_nat 0x10000) 56 (0 + of_nat 0x20000) 1056"
    by (rule apart_offsets) auto
  then show ?thesis
    using init_tcb_fresh [of "0x20000" "0x10000" zero_heap] by auto
qed

text \<open>C22. On a control block that \<open>init_tcb\<close> set up the vector is a table of 64 slots: storing succeeds
  exactly for the module ids 1 to 64 and otherwise changes nothing, a later load returns what was
  stored (a null pointer reads as absent), and no other slot changes.\<close>

theorem dtv_store_load:
  assumes "dtv_ok tp h" and "set_dtv_value h tp k v w = (h', stored)"
  shows "dtv_ok tp h' \<and> (stored \<longleftrightarrow> k \<noteq> 0 \<and> unat k \<le> 64) \<and> (stored \<or> h' = h) \<and>
    dtv_value h' tp k = (if stored \<and> v \<noteq> 0 then Some v else None) \<and>
    dtv_value h' tp = (dtv_value h tp)(k := dtv_value h' tp k)"
proof -
  have s: "fst (set_dtv_value h tp k v w) = h'" "snd (set_dtv_value h tp k v w) = stored"
    using assms(2) by simp_all
  have "dtv_value h' tp k = (if stored \<and> v \<noteq> 0 then Some v else None)"
  proof (cases stored)
    case True
    then show ?thesis using dtv.get_same [OF assms(1), of k v w] s by simp
  next
    case False
    then have "h' = h" "\<not> (k \<noteq> 0 \<and> unat k \<le> 64)"
      using dtv.put_fails [OF assms(1), of k v w] dtv.put_succeeds [OF assms(1), of k v w] s by simp_all
    then show ?thesis using False dtv.get_range [OF assms(1), of k] by (cases "dtv_value h tp k") auto
  qed
  moreover have "dtv_value h' tp k' = dtv_value h tp k'" if "k' \<noteq> k" for k'
    using dtv.get_other [OF assms(1) that, of v w] s by simp
  ultimately show ?thesis
    using dtv.put_ok [OF assms(1), of k v w] dtv.put_succeeds [OF assms(1), of k v w]
      dtv.put_fails [OF assms(1), of k v w] s by (auto simp: fun_eq_iff)
qed

text \<open>A control block at \<open>0x10000\<close> with its vector at \<open>0x20000\<close>.\<close>

definition sample_tcb :: heap where
  "sample_tcb = zero_heap\<lparr>bytes_of :=
     write_usize (write_usize (\<lambda>_. 0) 0x10008 0x20010) 0x20000 64\<rparr>"

lemma sample_tcb_ok: "dtv_ok 0x10000 sample_tcb"
proof -
  have ap: "apart (0 + of_nat 0x10008) 8 (0 + of_nat 0x20000) 1056" by (rule apart_offsets) auto
  have "apart (0 + of_nat 0x10008) 8 (0 + of_nat 0x20000) 8" by (rule apart_offsets) auto
  with ap show ?thesis
    by (simp add: dtv_ok_def sample_tcb_def zero_heap_def TCB_DTV_OFFSET_def entry_size_def
        DTV_SLOT_COUNT_def read_write_usize_apart)
qed

theorem dtv_store_load_witness:
  "dtv_value (fst (set_dtv_value sample_tcb 0x10000 3 0x5000 0)) 0x10000 3 = Some 0x5000"
  using dtv_store_load [OF sample_tcb_ok, of 3 "0x5000" 0
      "fst (set_dtv_value sample_tcb 0x10000 3 0x5000 0)" "snd (set_dtv_value sample_tcb 0x10000 3 0x5000 0)"]
  by simp

end
