(* ===== verification/Tls.thy ===== *)
theory Tls
  imports Dtv
begin

text \<open>
  Thread-local storage of the runtime linker (\<open>src/rtld/impl/src/tls.rs\<close>): the registry of TLS
  modules, the static TLS arena, per-thread control blocks and lazily allocated dynamic blocks.
  The statics behind mutexes are one record, threaded through the operations; a \<open>TlsImageSource\<close>
  belongs to \<open>elf_loader\<close>, so its type is a parameter and \<open>with_image\<close>, the bytes it hands to a
  callback (\<open>None\<close> if it fails without calling back), is an argument.  Answers of \<open>mmap\<close> and
  \<open>arch_prctl\<close> are arguments too; running out of memory aborts and is \<open>Panic\<close>.
\<close>

section \<open>State\<close>

definition STATIC_TLS_ARENA_SIZE :: usize where "STATIC_TLS_ARENA_SIZE = 1024 * 1024"
definition TLS_TCB_SIZE :: usize where "TLS_TCB_SIZE = 2368"
definition TLS_TCB_ALIGN :: usize where "TLS_TCB_ALIGN = 64"
definition RSEQ_AREA_SIZE :: usize where "RSEQ_AREA_SIZE = 32"
definition RSEQ_AREA_ALIGN :: usize where "RSEQ_AREA_ALIGN = 32"
definition RSEQ_CPU_ID_OFFSET :: usize where "RSEQ_CPU_ID_OFFSET = 4"
definition RSEQ_CPU_ID_REGISTRATION_FAILED :: u32 where "RSEQ_CPU_ID_REGISTRATION_FAILED = - 2"

record tls_info =
  tls_vaddr :: usize
  tls_memsz :: usize
  tls_align :: usize

datatype tls_error = ResolverUnsupported | InvalidModuleId usize | ModuleMismatch

record static_tls_area =
  area_tp :: usize
  area_used :: usize
  area_max_align :: usize

record 'src static_tls_module =
  st_id :: usize
  st_info :: tls_info
  st_source :: "'src option"
  st_offset :: usize

datatype 'src tls_module = Dynamic tls_info "'src option" | Static tls_info usize

record dynamic_tls_block =
  blk_tp :: usize
  blk_ptr :: usize
  blk_layout :: layout

record tls_allocation =
  al_tp :: usize
  al_base :: usize
  al_layout :: layout

record 'src tls_state =
  static_tls :: "static_tls_area option"
  static_tls_modules :: "'src static_tls_module list"
  tls_modules :: "'src tls_module option list"
  dynamic_tls_blocks :: "dynamic_tls_block list"
  tls_allocations :: "tls_allocation list"
  tls_heap :: heap
  fs_base :: usize

section \<open>Layout arithmetic\<close>

definition align_up :: "usize \<Rightarrow> usize \<Rightarrow> usize option" where
  "align_up v a = map_option (\<lambda>x. x AND NOT (a - 1)) (checked_add v (a - 1))"

definition static_module_end :: "usize \<Rightarrow> usize \<Rightarrow> usize \<Rightarrow> usize \<Rightarrow> usize option" where
  "static_module_end used memsz vaddr a =
     (let firstbyte = (0 - vaddr) AND (a - 1) in
      Option.bind (checked_add used memsz) (\<lambda>min_end.
      Option.bind (align_up (saturating_sub min_end firstbyte) a) (\<lambda>aligned.
      Option.bind (checked_add aligned firstbyte) (\<lambda>end'.
      if end' < min_end then checked_add end' a else Some end'))))"

definition static_used_with_rseq :: "usize \<Rightarrow> usize option" where
  "static_used_with_rseq used =
     Option.bind (align_up used RSEQ_AREA_ALIGN) (\<lambda>x. checked_add x RSEQ_AREA_SIZE)"

definition static_rseq_offset :: "usize \<Rightarrow> usize option" where
  "static_rseq_offset used =
     Option.bind (static_used_with_rseq used)
       (\<lambda>offset. if unat offset < 2 ^ 63 then Some (- offset) else None)"

definition static_used_info :: "'src tls_state \<Rightarrow> usize \<times> usize" where
  "static_used_info s =
     (case static_tls s of Some area \<Rightarrow> (area_used area, area_max_align area) | None \<Rightarrow> (0, 1))"

definition static_layout_info :: "'src tls_state \<Rightarrow> usize \<times> usize" where
  "static_layout_info s =
     (let (used, a) = static_used_info s;
          used = (case static_used_with_rseq used of Some u \<Rightarrow> u | None \<Rightarrow> 0)
      in (used, max (max (max a RSEQ_AREA_ALIGN) TLS_TCB_ALIGN) 1))"

definition static_info :: "'src tls_state \<Rightarrow> usize \<times> usize" where
  "static_info s =
     (let (used, a) = static_layout_info s
      in (case Option.bind (align_up used a) (\<lambda>u. checked_add u TLS_TCB_SIZE) of Some n \<Rightarrow> n | None \<Rightarrow> 0, a))"

definition rseq_offset :: "'src tls_state \<Rightarrow> usize" where
  "rseq_offset s = (case static_rseq_offset (fst (static_used_info s)) of Some x \<Rightarrow> x | None \<Rightarrow> 0)"

section \<open>The module registry\<close>

definition register_module :: "'src tls_state \<Rightarrow> 'src tls_module \<Rightarrow> 'src tls_state \<times> (tls_error + usize)" where
  "register_module s m =
     (if length (tls_modules s) + 1 < 2 ^ 64
      then (s\<lparr>tls_modules := tls_modules s @ [Some m]\<rparr>, Inr (of_nat (length (tls_modules s) + 1)))
      else (s, Inl ResolverUnsupported))"

definition register_dynamic_module :: "'src tls_state \<Rightarrow> tls_info \<Rightarrow> 'src tls_state \<times> (tls_error + usize)" where
  "register_dynamic_module s info = register_module s (Dynamic info None)"

definition slot_of :: "'m option list \<Rightarrow> usize \<Rightarrow> 'm option" where
  "slot_of xs raw =
     (if raw = 0 then None else if unat raw - 1 < length xs then xs ! (unat raw - 1) else None)"

definition tls_module_at :: "'src tls_state \<Rightarrow> usize \<Rightarrow> 'src tls_module option" where
  "tls_module_at s raw = slot_of (tls_modules s) raw"

definition set_slot :: "'src tls_state \<Rightarrow> usize \<Rightarrow> 'src tls_module option \<Rightarrow> 'src tls_state" where
  "set_slot s raw m = s\<lparr>tls_modules := (tls_modules s)[unat raw - 1 := m]\<rparr>"

text \<open>\<open>list_update\<close> out of range changes nothing, as \<open>get_mut\<close> does.\<close>

definition unregister_module :: "'src tls_state \<Rightarrow> usize \<Rightarrow> 'src tls_state" where
  "unregister_module s raw =
     (if raw = 0 then s
      else let s1 = set_slot s raw None
           in s1\<lparr>static_tls_modules := filter (\<lambda>m. st_id m \<noteq> raw) (static_tls_modules s1)\<rparr>)"

definition tls_init_tcb :: "usize option \<Rightarrow> heap \<Rightarrow> usize \<Rightarrow> (heap \<times> (tls_error + unit)) run" where
  "tls_init_tcb mmap h tp =
     (if tp = 0 then Done (h, Inl ResolverUnsupported)
      else run_bind (init_tcb mmap h tp) (\<lambda>h1. Done (h1, Inr ())))"

text \<open>The bool is whether \<open>arch_prctl(ARCH_SET_FS)\<close> succeeds.\<close>

definition install_thread_pointer :: "bool \<Rightarrow> 'src tls_state \<Rightarrow> usize \<Rightarrow> 'src tls_state \<times> (tls_error + unit)" where
  "install_thread_pointer set_fs s tp =
     (if tp = 0 \<or> \<not> set_fs then (s, Inl ResolverUnsupported) else (s\<lparr>fs_base := tp\<rparr>, Inr ()))"

definition ensure_static_tls_area ::
  "usize option \<Rightarrow> usize option \<Rightarrow> bool \<Rightarrow> 'src tls_state \<Rightarrow> ('src tls_state \<times> (tls_error + static_tls_area)) run" where
  "ensure_static_tls_area mmap_area mmap_dtv set_fs s =
     (case from_size_align (STATIC_TLS_ARENA_SIZE + TLS_TCB_SIZE) 4096 of
        None \<Rightarrow> Done (s, Inl ResolverUnsupported)
      | Some l \<Rightarrow>
          let (h1, base) = alloc_zeroed mmap_area (tls_heap s) l in
          if base = 0 then Panic
          else let tp = base + STATIC_TLS_ARENA_SIZE in
               run_bind (tls_init_tcb mmap_dtv h1 tp) (\<lambda>(h2, r).
               let s2 = s\<lparr>tls_heap := h2\<rparr> in
               case r of
                 Inl e \<Rightarrow> Done (s2, Inl e)
               | Inr _ \<Rightarrow>
                   (case install_thread_pointer set_fs s2 tp of
                      (s3, Inl e) \<Rightarrow> Done (s3, Inl e)
                    | (s3, Inr _) \<Rightarrow> Done (s3, Inr \<lparr>area_tp = tp, area_used = 0, area_max_align = 1\<rparr>))))"

definition place_static_module :: "'src tls_state \<Rightarrow> static_tls_area \<Rightarrow> tls_info \<Rightarrow> 'src tls_state \<times> (tls_error + usize \<times> usize)" where
  "place_static_module s area info =
     (case checked_next_power_of_two (max (tls_align info) 1) of
        None \<Rightarrow> (s, Inl ResolverUnsupported)
      | Some a \<Rightarrow>
          (case static_module_end (area_used area) (tls_memsz info) (tls_vaddr info) a of
             None \<Rightarrow> (s, Inl ResolverUnsupported)
           | Some used \<Rightarrow>
               (case static_used_with_rseq used of
                  None \<Rightarrow> (s, Inl ResolverUnsupported)
                | Some needed \<Rightarrow>
                    if needed > STATIC_TLS_ARENA_SIZE then (s, Inl ResolverUnsupported)
                    else let offset = - used in
                         (case register_module s (Static info offset) of
                            (s1, Inl e) \<Rightarrow> (s1, Inl e)
                          | (s1, Inr mod_id) \<Rightarrow>
                              (s1\<lparr>static_tls := Some (area\<lparr>area_used := used, area_max_align := max (area_max_align area) a\<rparr>),
                                 static_tls_modules := static_tls_modules s1 @
                                   [\<lparr>st_id = mod_id, st_info = info, st_source = None, st_offset = offset\<rparr>]\<rparr>,
                               Inr (mod_id, offset))))))"

definition register_static_module ::
  "usize option \<Rightarrow> usize option \<Rightarrow> bool \<Rightarrow> 'src tls_state \<Rightarrow> tls_info \<Rightarrow> ('src tls_state \<times> (tls_error + usize \<times> usize)) run" where
  "register_static_module mmap_area mmap_dtv set_fs s info =
     (case static_tls s of
        Some area \<Rightarrow> Done (place_static_module s area info)
      | None \<Rightarrow>
          run_bind (ensure_static_tls_area mmap_area mmap_dtv set_fs s) (\<lambda>(s1, r).
          case r of
            Inl e \<Rightarrow> Done (s1, Inl e)
          | Inr area \<Rightarrow> Done (place_static_module (s1\<lparr>static_tls := Some area\<rparr>) area info)))"

definition add_static_module :: "'src tls_state \<Rightarrow> tls_info \<Rightarrow> usize \<Rightarrow> 'src tls_state \<times> (tls_error + usize)" where
  "add_static_module s info offset =
     (case register_module s (Static info offset) of
        (s1, Inl e) \<Rightarrow> (s1, Inl e)
      | (s1, Inr mod_id) \<Rightarrow>
          (s1\<lparr>static_tls_modules := static_tls_modules s1 @
             [\<lparr>st_id = mod_id, st_info = info, st_source = None, st_offset = offset\<rparr>]\<rparr>, Inr mod_id))"

section \<open>Images\<close>

text \<open>Copying an image and clearing the rest; \<open>memsz - image.len()\<close> panics on underflow.\<close>

definition fill_block :: "mem \<Rightarrow> usize \<Rightarrow> bytes \<Rightarrow> usize \<Rightarrow> mem run" where
  "fill_block m dst img memsz =
     (if unat memsz < length img then Panic
      else Done (memset (write_list m dst img) (dst + of_nat (length img)) 0 (memsz - of_nat (length img))))"

definition init_static_tls_module ::
  "('src \<Rightarrow> bytes option) \<Rightarrow> usize \<Rightarrow> 'src static_tls_module \<Rightarrow> heap \<Rightarrow> heap run" where
  "init_static_tls_module with_image tp module h =
     (let dst = tp + st_offset module in
      case st_source module of
        None \<Rightarrow> Done h
      | Some source \<Rightarrow>
          (case with_image source of
             None \<Rightarrow> Done h
           | Some img \<Rightarrow>
               run_bind (fill_block (bytes_of h) dst img (tls_memsz (st_info module))) (\<lambda>m.
               Done (fst (set_dtv_value (h\<lparr>bytes_of := m\<rparr>) tp (st_id module) dst 0)))))"

definition init_rseq_area :: "mem \<Rightarrow> usize \<Rightarrow> usize \<Rightarrow> mem" where
  "init_rseq_area m tp used =
     (case static_rseq_offset used of
        None \<Rightarrow> m
      | Some offset \<Rightarrow>
          let area = tp + offset
          in write_list (memset m area 0 RSEQ_AREA_SIZE) (area + RSEQ_CPU_ID_OFFSET)
               (le_enc 4 (unat RSEQ_CPU_ID_REGISTRATION_FAILED)))"

definition update_static_module_slot ::
  "'src tls_state \<Rightarrow> usize \<Rightarrow> tls_info \<Rightarrow> usize \<Rightarrow> 'src tls_state \<times> (tls_error + unit)" where
  "update_static_module_slot s raw info offset =
     (if raw = 0 \<or> length (tls_modules s) \<le> unat raw - 1 then (s, Inl ResolverUnsupported)
      else (set_slot s raw (Some (Static info offset)), Inr ()))"

definition init_dynamic_tls :: "'src tls_state \<Rightarrow> tls_info \<Rightarrow> 'src \<Rightarrow> usize \<Rightarrow> 'src tls_state \<times> (tls_error + unit)" where
  "init_dynamic_tls s info source raw =
     (if raw = 0 \<or> length (tls_modules s) \<le> unat raw - 1 then (s, Inl ResolverUnsupported)
      else (set_slot s raw (Some (Dynamic info (Some source))), Inr ()))"

text \<open>The first entry with the id is updated in place, or a new one is appended.\<close>

fun upsert_static :: "'src static_tls_module \<Rightarrow> 'src static_tls_module list \<Rightarrow> 'src static_tls_module list" where
  "upsert_static m [] = [m]"
| "upsert_static m (x # xs) = (if st_id x = st_id m then m # xs else x # upsert_static m xs)"

definition init_static_tls ::
  "('src \<Rightarrow> bytes option) \<Rightarrow> 'src tls_state \<Rightarrow> tls_info \<Rightarrow> 'src \<Rightarrow> usize \<Rightarrow> usize \<Rightarrow>
     ('src tls_state \<times> (tls_error + unit)) run" where
  "init_static_tls with_image s info source mod_id offset =
     (case update_static_module_slot s mod_id info offset of
        (s1, Inl e) \<Rightarrow> Done (s1, Inl e)
      | (s1, Inr _) \<Rightarrow>
          let module = \<lparr>st_id = mod_id, st_info = info, st_source = Some source, st_offset = offset\<rparr>;
              s2 = s1\<lparr>static_tls_modules := upsert_static module (static_tls_modules s1)\<rparr>
          in case static_tls s2 of
               None \<Rightarrow> Done (s2, Inr ())
             | Some area \<Rightarrow>
                 run_bind (init_static_tls_module with_image (area_tp area) module (tls_heap s2)) (\<lambda>h.
                 Done (s2\<lparr>tls_heap := h\<lparr>bytes_of := init_rseq_area (bytes_of h) (area_tp area) (area_used area)\<rparr>\<rparr>,
                       Inr ())))"

definition init_tls_module ::
  "('src \<Rightarrow> bytes option) \<Rightarrow> 'src tls_state \<Rightarrow> 'src \<Rightarrow> usize \<Rightarrow> usize option \<Rightarrow>
     ('src tls_state \<times> (tls_error + unit)) run" where
  "init_tls_module with_image s source mod_id offset =
     (case (tls_module_at s mod_id, offset) of
        (Some (Dynamic info _), None) \<Rightarrow> Done (init_dynamic_tls s info source mod_id)
      | (Some (Static info registered), Some off) \<Rightarrow>
          if off = registered then init_static_tls with_image s info source mod_id off
          else Done (s, Inl ModuleMismatch)
      | (None, _) \<Rightarrow> Done (s, Inl (InvalidModuleId mod_id))
      | _ \<Rightarrow> Done (s, Inl ModuleMismatch))"

section \<open>Addresses\<close>

definition static_tls_addr :: "'src tls_state \<Rightarrow> usize \<Rightarrow> usize \<Rightarrow> usize" where
  "static_tls_addr s offset ti_offset =
     (if fs_base s = 0 then 0 else fs_base s + offset + ti_offset)"

definition dynamic_layout :: "tls_info \<Rightarrow> layout option" where
  "dynamic_layout info =
     from_size_align (max (tls_memsz info) 1)
       (case checked_next_power_of_two (max (tls_align info) 1) of Some a \<Rightarrow> a | None \<Rightarrow> 1)"

definition allocate_dynamic_block ::
  "('src \<Rightarrow> bytes option) \<Rightarrow> usize option \<Rightarrow> 'src tls_state \<Rightarrow> usize \<Rightarrow> usize \<Rightarrow> tls_info \<Rightarrow> 'src option \<Rightarrow>
     ('src tls_state \<times> usize option) run" where
  "allocate_dynamic_block with_image mmap s tp mod_id info source =
     (case dynamic_layout info of
        None \<Rightarrow> Done (s, None)
      | Some l \<Rightarrow>
          let (h1, ptr) = alloc_zeroed mmap (tls_heap s) l in
          if ptr = 0 then Panic
          else let s1 = s\<lparr>tls_heap := h1\<rparr> in
            (case source of
               None \<Rightarrow> Done (s1, None)
             | Some src \<Rightarrow>
                 (case with_image src of
                    None \<Rightarrow> Done (s1\<lparr>tls_heap := dealloc h1 ptr l\<rparr>, None)
                  | Some img \<Rightarrow>
                      run_bind (fill_block (bytes_of h1) ptr img (tls_memsz info)) (\<lambda>m.
                      let h2 = h1\<lparr>bytes_of := m\<rparr> in
                      case set_dtv_value h2 tp mod_id ptr ptr of
                        (h3, False) \<Rightarrow> Done (s1\<lparr>tls_heap := dealloc h3 ptr l\<rparr>, None)
                      | (h3, True) \<Rightarrow>
                          Done (s1\<lparr>tls_heap := h3, dynamic_tls_blocks := dynamic_tls_blocks s1 @
                                  [\<lparr>blk_tp = tp, blk_ptr = ptr, blk_layout = l\<rparr>]\<rparr>, Some ptr)))))"

definition dynamic_tls_addr ::
  "('src \<Rightarrow> bytes option) \<Rightarrow> usize option \<Rightarrow> 'src tls_state \<Rightarrow> usize \<Rightarrow> tls_info \<Rightarrow> 'src option \<Rightarrow> usize \<Rightarrow>
     ('src tls_state \<times> usize) run" where
  "dynamic_tls_addr with_image mmap s mod_id info source ti_offset =
     (let tp = fs_base s in
      if tp = 0 then Done (s, 0)
      else case dtv_value (tls_heap s) tp mod_id of
             Some ptr \<Rightarrow> Done (s, ptr + ti_offset)
           | None \<Rightarrow>
               run_bind (allocate_dynamic_block with_image mmap s tp mod_id info source) (\<lambda>(s1, r).
               case r of None \<Rightarrow> Done (s1, 0) | Some ptr \<Rightarrow> Done (s1, ptr + ti_offset)))"

text \<open>The argument is the \<open>TlsIndex\<close> the pointer designates, \<open>None\<close> for a null pointer.\<close>

definition get_addr ::
  "('src \<Rightarrow> bytes option) \<Rightarrow> usize option \<Rightarrow> 'src tls_state \<Rightarrow> (usize \<times> usize) option \<Rightarrow> ('src tls_state \<times> usize) run" where
  "get_addr with_image mmap s index =
     (case index of
        None \<Rightarrow> Done (s, 0)
      | Some (ti_module, ti_offset) \<Rightarrow>
          (case tls_module_at s ti_module of
             None \<Rightarrow> Done (s, 0)
           | Some (Static _ offset) \<Rightarrow> Done (s, static_tls_addr s offset ti_offset)
           | Some (Dynamic info source) \<Rightarrow>
               dynamic_tls_addr with_image mmap s ti_module info source ti_offset))"

definition get_addr_soft :: "'src tls_state \<Rightarrow> usize \<Rightarrow> usize" where
  "get_addr_soft s mod_id =
     (if fs_base s = 0 then 0
      else case dtv_value (tls_heap s) (fs_base s) mod_id of Some p \<Rightarrow> p | None \<Rightarrow> 0)"

section \<open>Per-thread storage\<close>

definition storage_align :: "'src tls_state \<Rightarrow> usize option" where
  "storage_align s =
     checked_next_power_of_two (max (max (max (snd (static_used_info s)) RSEQ_AREA_ALIGN) TLS_TCB_ALIGN) 8)"

definition allocate_storage :: "usize option \<Rightarrow> 'src tls_state \<Rightarrow> ('src tls_state \<times> usize option) run" where
  "allocate_storage mmap s =
     (case static_used_with_rseq (fst (static_used_info s)) of None \<Rightarrow> Done (s, None) | Some size0 \<Rightarrow>
      case storage_align s of None \<Rightarrow> Done (s, None) | Some a \<Rightarrow>
      case align_up size0 a of None \<Rightarrow> Done (s, None) | Some static_size \<Rightarrow>
      case checked_add static_size TLS_TCB_SIZE of None \<Rightarrow> Done (s, None) | Some total_size \<Rightarrow>
      case from_size_align (max total_size 1) a of None \<Rightarrow> Done (s, None) | Some l \<Rightarrow>
        let (h1, base) = alloc_zeroed mmap (tls_heap s) l in
        if base = 0 then Panic
        else let tp = base + static_size
             in Done (s\<lparr>tls_heap := h1, tls_allocations := tls_allocations s @
                        [\<lparr>al_tp = tp, al_base = base, al_layout = l\<rparr>]\<rparr>, Some tp))"

fun init_static_all :: "('src \<Rightarrow> bytes option) \<Rightarrow> usize \<Rightarrow> 'src static_tls_module list \<Rightarrow> heap \<Rightarrow> heap run" where
  "init_static_all with_image tp [] h = Done h"
| "init_static_all with_image tp (m # ms) h =
     run_bind (init_static_tls_module with_image tp m h) (init_static_all with_image tp ms)"

definition tls_init :: "('src \<Rightarrow> bytes option) \<Rightarrow> usize option \<Rightarrow> 'src tls_state \<Rightarrow> usize \<Rightarrow> ('src tls_state \<times> usize) run" where
  "tls_init with_image mmap_dtv s storage =
     (if storage = 0 then Done (s, 0)
      else run_bind (tls_init_tcb mmap_dtv (tls_heap s) storage) (\<lambda>(h1, r).
        case r of
          Inl _ \<Rightarrow> Done (s\<lparr>tls_heap := h1\<rparr>, 0)
        | Inr _ \<Rightarrow>
            run_bind (init_static_all with_image storage (static_tls_modules s) h1) (\<lambda>h2.
            Done (s\<lparr>tls_heap := h2\<lparr>bytes_of :=
                     init_rseq_area (bytes_of h2) storage (fst (static_used_info s))\<rparr>\<rparr>, storage))))"

definition allocate ::
  "('src \<Rightarrow> bytes option) \<Rightarrow> usize option \<Rightarrow> usize option \<Rightarrow> 'src tls_state \<Rightarrow> usize \<Rightarrow> ('src tls_state \<times> usize) run" where
  "allocate with_image mmap mmap_dtv s storage =
     (if storage = 0 then
        run_bind (allocate_storage mmap s) (\<lambda>(s1, r).
        case r of None \<Rightarrow> Done (s1, 0) | Some tp \<Rightarrow> tls_init with_image mmap_dtv s1 tp)
      else tls_init with_image mmap_dtv s storage)"

text \<open>\<open>Vec::swap_remove\<close> at an index in range.\<close>

definition swap_remove :: "'a list \<Rightarrow> nat \<Rightarrow> 'a list" where
  "swap_remove xs i = butlast (xs[i := last xs])"

function free_blocks_loop :: "usize \<Rightarrow> dynamic_tls_block list \<Rightarrow> nat \<Rightarrow> heap \<Rightarrow> dynamic_tls_block list \<times> heap" where
  "free_blocks_loop tp blocks index h =
     (if index < length blocks then
        if blk_tp (blocks ! index) = tp
        then free_blocks_loop tp (swap_remove blocks index) index
               (dealloc h (blk_ptr (blocks ! index)) (blk_layout (blocks ! index)))
        else free_blocks_loop tp blocks (index + 1) h
      else (blocks, h))"
  by pat_completeness auto
termination
  by (relation "measure (\<lambda>(tp, blocks, index, h). length blocks - index)") (auto simp: swap_remove_def)

declare free_blocks_loop.simps [simp del]

definition free_dynamic_blocks :: "'src tls_state \<Rightarrow> usize \<Rightarrow> 'src tls_state" where
  "free_dynamic_blocks s tp =
     (let (blocks, h) = free_blocks_loop tp (dynamic_tls_blocks s) 0 (tls_heap s)
      in s\<lparr>dynamic_tls_blocks := blocks, tls_heap := h\<rparr>)"

definition deallocate :: "'src tls_state \<Rightarrow> usize \<Rightarrow> bool \<Rightarrow> 'src tls_state" where
  "deallocate s storage dealloc_tcb =
     (if storage = 0 then s
      else let s1 = free_dynamic_blocks s storage in
           if \<not> dealloc_tcb then s1
           else case position (\<lambda>a. al_tp a = storage) (tls_allocations s1) of
                  None \<Rightarrow> s1
                | Some i \<Rightarrow>
                    let a = tls_allocations s1 ! i
                    in s1\<lparr>tls_allocations := swap_remove (tls_allocations s1) i,
                          tls_heap := dealloc (tls_heap s1) (al_base a) (al_layout a)\<rparr>)"

definition dl_deallocate_tls :: "'src tls_state \<Rightarrow> usize \<Rightarrow> bool \<Rightarrow> 'src tls_state" where
  "dl_deallocate_tls s storage dealloc_tcb =
     deallocate (s\<lparr>tls_heap := deallocate_tcb (tls_heap s) storage\<rparr>) storage dealloc_tcb"

section \<open>Placement in the static area\<close>

lemma align_up_Some:
  assumes "k < 64" "align_up v (2 ^ k) = Some r"
  shows "unat r = round_up (2 ^ k) (unat v)"
proof -
  from assms(2) obtain x where x: "checked_add v (2 ^ k - 1) = Some x" "r = x AND NOT (2 ^ k - 1)"
    by (auto simp: align_up_def)
  then have "unat x = unat v + (2 ^ k - 1)"
    by (simp add: checked_add_Some unat_pow2_minus_1 [OF assms(1)])
  with x(2) show ?thesis by (simp only: unat_and_not_pow2_minus_1 round_up_def)
qed

lemma align_up_None:
  assumes "k < 64"
  shows "align_up v (2 ^ k) = None \<longleftrightarrow> 2 ^ 64 \<le> unat v + (2 ^ k - 1)"
  using assms by (simp add: align_up_def checked_add_None unat_pow2_minus_1)

lemma static_module_end_Some:
  assumes k: "k < 64" and e: "static_module_end used memsz vaddr (2 ^ k) = Some e"
  defines "f \<equiv> unat (0 - vaddr) mod 2 ^ k"
  shows "unat e = round_up (2 ^ k) (unat used + unat memsz - f) + f"
proof -
  let ?fb = "(0 - vaddr) AND (2 ^ k - 1)"
  from e obtain m al en where s: "checked_add used memsz = Some m"
      "align_up (saturating_sub m ?fb) (2 ^ k) = Some al" "checked_add al ?fb = Some en"
      "(if en < m then checked_add en (2 ^ k) else Some en) = Some e"
    by (auto simp: static_module_end_def Let_def bind_eq_Some_conv)
  have fb: "unat ?fb = f" unfolding f_def by (rule unat_and_pow2_minus_1)
  have m: "unat m = unat used + unat memsz" using s(1) by (simp add: checked_add_Some)
  have al: "unat al = round_up (2 ^ k) (unat m - f)"
    using align_up_Some [OF k s(2)] by (simp only: unat_saturating_sub fb)
  have en: "unat en = unat al + f" using s(3) by (simp only: checked_add_Some fb)
  have "unat m - f \<le> unat al" unfolding al by (rule round_up_ge) simp
  then have "\<not> en < m" using en by (simp add: word_less_nat_alt)
  then show ?thesis using s(4) en al m by simp
qed

lemma static_module_end_facts:
  assumes k: "k < 64" and e: "static_module_end used memsz vaddr (2 ^ k) = Some e"
  shows "unat used + unat memsz \<le> unat e"
    and "unat e mod 2 ^ k = unat (0 - vaddr) mod 2 ^ k"
    and "unat e < unat used + unat memsz + 2 ^ k"
    and "unat used + unat memsz \<le> x \<Longrightarrow> x mod 2 ^ k = unat (0 - vaddr) mod 2 ^ k \<Longrightarrow> unat e \<le> x"
proof -
  let ?n = "2 ^ k :: nat" and ?m = "unat used + unat memsz"
  define f where "f = unat (0 - vaddr) mod ?n"
  have eq: "unat e = round_up ?n (?m - f) + f"
    using static_module_end_Some [OF k e] unfolding f_def .
  have f: "f < ?n" unfolding f_def by simp
  show ge: "?m \<le> unat e" using round_up_ge [of ?n "?m - f"] eq by simp
  have "unat e mod ?n = f mod ?n"
    unfolding eq by (metis add.left_neutral mod_add_left_eq round_up_mod)
  then show "unat e mod ?n = unat (0 - vaddr) mod ?n" using f unfolding f_def by simp
  show least: "unat e \<le> x" if "?m \<le> x" "x mod ?n = unat (0 - vaddr) mod ?n" for x
  proof -
    have "(x - f) mod ?n = 0" using that(2) unfolding f_def by (metis minus_mod_eq_mult_div mod_mult_self1_is_0)
    moreover have "f \<le> x" using that(2) unfolding f_def by (metis mod_less_eq_dividend)
    moreover have "?m - f \<le> x - f" using that(1) by (rule diff_le_mono)
    ultimately have "round_up ?n (?m - f) \<le> x - f" by (intro round_up_least) simp_all
    with \<open>f \<le> x\<close> show ?thesis unfolding eq by linarith
  qed
  show "unat e < ?m + ?n"
  proof (cases "f \<le> ?m")
    case True
    then show ?thesis using round_up_less [of ?n "?m - f"] eq by simp
  next
    case False
    then have "round_up ?n (?m - f) = 0" by (simp add: round_up_def)
    with eq f show ?thesis by simp
  qed
qed

lemma congruent_block:
  fixes tp e vaddr :: usize
  assumes "k < 64" "unat tp mod 2 ^ k = 0" "unat e mod 2 ^ k = unat (0 - vaddr) mod 2 ^ k"
  shows "unat (tp - e) mod 2 ^ k = unat vaddr mod 2 ^ k"
proof -
  have k: "k \<le> 64" using assms(1) by simp
  have t: "uint tp mod 2 ^ k = 0" using assms(2) int_unat_mod [of tp k] by simp
  have e: "uint e mod 2 ^ k = (0 - uint vaddr) mod 2 ^ k"
    using assms(3) int_unat_mod [of e k] int_unat_mod [of "0 - vaddr" k] uint_diff_mod [OF k, of 0 vaddr] by simp
  have "uint (tp - e) mod 2 ^ k = (uint tp mod 2 ^ k - uint e mod 2 ^ k) mod 2 ^ k"
    by (simp add: uint_diff_mod [OF k] mod_diff_eq)
  also have "\<dots> = uint vaddr mod 2 ^ k"
    unfolding t e by (simp add: mod_minus_eq)
  finally have "int (unat (tp - e) mod 2 ^ k) = int (unat vaddr mod 2 ^ k)"
    by (simp only: int_unat_mod)
  then show ?thesis by (simp only: of_nat_eq_iff)
qed
section \<open>The static area\<close>

text \<open>A static module with end \<open>below\<close> occupies the bytes from \<open>tp - below\<close> on.\<close>

definition below :: "'src static_tls_module \<Rightarrow> nat" where
  "below m = unat (- st_offset m)"

definition msize :: "'src static_tls_module \<Rightarrow> nat" where
  "msize m = unat (tls_memsz (st_info m))"

definition key :: "'src static_tls_module \<Rightarrow> usize \<times> tls_info \<times> usize" where
  "key m = (st_id m, st_info m, st_offset m)"

definition arena_ok :: "'src tls_state \<Rightarrow> bool" where
  "arena_ok s \<longleftrightarrow>
     (case static_tls s of
        None \<Rightarrow> static_tls_modules s = []
      | Some a \<Rightarrow>
          (\<exists>k<64. area_max_align a = 2 ^ k) \<and>
          (\<exists>n. static_used_with_rseq (area_used a) = Some n \<and> n \<le> STATIC_TLS_ARENA_SIZE) \<and>
          (\<forall>m\<in>set (static_tls_modules s). msize m \<le> below m \<and> below m \<le> unat (area_used a)) \<and>
          sorted_wrt (\<lambda>m m'. below m + msize m' \<le> below m') (static_tls_modules s))"

definition reg_ok :: "'src tls_state \<Rightarrow> bool" where
  "reg_ok s \<longleftrightarrow>
     length (tls_modules s) < 2 ^ 64 \<and> distinct (map st_id (static_tls_modules s)) \<and>
     (\<forall>raw info off. tls_module_at s raw = Some (Static info off) \<longleftrightarrow>
        (raw, info, off) \<in> key ` set (static_tls_modules s))"

text \<open>Both invariants only depend on the placement of the modules.\<close>

lemma arena_ok_cong:
  fixes s s' :: "'a tls_state"
  assumes "static_tls s' = static_tls s" "map key (static_tls_modules s') = map key (static_tls_modules s)"
  shows "arena_ok s' = arena_ok s"
proof -
  define P where "P = (\<lambda>(i :: usize, f :: tls_info, x :: usize) (i' :: usize, f' :: tls_info, x' :: usize).
    unat (- x) + unat (tls_memsz f') \<le> unat (- x'))"
  have s: "sorted_wrt (\<lambda>m m'. below m + msize m' \<le> below m') ms = sorted_wrt P (map key ms)" for ms :: "'a static_tls_module list"
    by (simp add: sorted_wrt_map P_def key_def below_def msize_def)
  have a: "(\<forall>m\<in>set ms. msize m \<le> below m \<and> below m \<le> u) =
      (\<forall>(i, f, x)\<in>set (map key ms). unat (tls_memsz f) \<le> unat (- x) \<and> unat (- x) \<le> u)"
    for ms :: "'a static_tls_module list" and u
    by (simp add: key_def below_def msize_def)
  have e: "static_tls_modules s' = [] \<longleftrightarrow> static_tls_modules s = []" using assms(2) by (metis map_is_Nil_conv)
  show ?thesis unfolding arena_ok_def assms(1) s a assms(2) e ..
qed

lemma reg_ok_cong:
  fixes s s' :: "'a tls_state"
  assumes "tls_modules s' = tls_modules s" "map key (static_tls_modules s') = map key (static_tls_modules s)"
  shows "reg_ok s' = reg_ok s"
proof -
  have "key ` set (static_tls_modules s') = key ` set (static_tls_modules s)"
    using assms(2) by (metis set_map)
  moreover have "map st_id ms = map fst (map key ms)" for ms :: "'a static_tls_module list"
    by (simp add: key_def)
  then have "map st_id (static_tls_modules s') = map st_id (static_tls_modules s)"
    using assms(2) by (simp only:)
  ultimately show ?thesis unfolding reg_ok_def tls_module_at_def assms(1) by (simp only:)
qed


lemma slot_of_append:
  assumes "unat i = length xs + 1"
  shows "slot_of (xs @ [m]) raw = (if raw = i then m else slot_of xs raw)"
proof (cases "raw = i")
  case True
  then show ?thesis using assms by (auto simp: slot_of_def nth_append)
next
  case False
  then have "unat raw \<noteq> length xs + 1" using assms by (metis word_unat_eq_iff)
  then have "unat raw - 1 < Suc (length xs) \<longleftrightarrow> unat raw - 1 < length xs" if "raw \<noteq> 0"
    using that by (cases "unat raw") (auto simp: unat_eq_zero)
  with False show ?thesis by (auto simp: slot_of_def nth_append)
qed

lemma slot_of_fresh: "unat i = length xs + 1 \<Longrightarrow> slot_of xs i = None"
  by (simp add: slot_of_def)

lemma slot_of_update:
  assumes "raw \<noteq> 0"
  shows "slot_of (xs[unat raw - 1 := m]) raw' =
    (if raw' = raw \<and> unat raw - 1 < length xs then m else slot_of xs raw')"
proof -
  have "unat raw' - 1 = unat raw - 1 \<longleftrightarrow> raw' = raw" if "raw' \<noteq> 0"
  proof -
    have "unat raw' \<noteq> 0" "unat raw \<noteq> 0" using that assms by (simp_all add: unat_eq_zero)
    then show ?thesis by (auto simp: word_unat_eq_iff)
  qed
  with assms show ?thesis by (auto simp: slot_of_def nth_list_update)
qed

lemma register_moduleE:
  assumes "register_module s m = (s', r)"
  obtains (ok) i where "r = Inr i" "unat i = length (tls_modules s) + 1" "length (tls_modules s) + 1 < 2 ^ 64"
      "s' = s\<lparr>tls_modules := tls_modules s @ [Some m]\<rparr>"
  | (full) e where "r = Inl e" "s' = s"
proof (cases "length (tls_modules s) + 1 < 2 ^ 64")
  case True
  then show thesis
    using assms ok [of "of_nat (length (tls_modules s) + 1)"] unat_of_nat_usize [OF True]
    by (simp add: register_module_def)
next
  case False
  then show thesis using assms full [of ResolverUnsupported] by (simp add: register_module_def)
qed

lemma reg_okD:
  assumes "reg_ok s"
  shows "tls_module_at s raw = Some (Static info off) \<longleftrightarrow> (raw, info, off) \<in> key ` set (static_tls_modules s)"
    and "distinct (map st_id (static_tls_modules s))" and "length (tls_modules s) < 2 ^ 64"
  using assms by (simp_all add: reg_ok_def)

lemma reg_ok_id_at:
  assumes "reg_ok s" "m \<in> set (static_tls_modules s)"
  shows "tls_module_at s (st_id m) = Some (Static (st_info m) (st_offset m))"
  using reg_okD(1) [OF assms(1)] assms(2) by (simp add: key_def rev_image_eqI)

text \<open>Registering a dynamic module, or a static one with its entry in the list.\<close>

lemma reg_ok_register_dynamic:
  assumes ok: "reg_ok s" and reg: "register_module s (Dynamic info src) = (s', r)"
  shows "reg_ok s'" and "static_tls s' = static_tls s" and "static_tls_modules s' = static_tls_modules s"
proof -
  have "reg_ok s' \<and> static_tls s' = static_tls s \<and> static_tls_modules s' = static_tls_modules s"
    using reg
  proof (cases rule: register_moduleE)
    case (ok i)
    have "slot_of (tls_modules s) i = None" by (rule slot_of_fresh [OF ok(2)])
    then have "(i, info', off) \<notin> key ` set (static_tls_modules s)" for info' off
      using reg_okD(1) [OF \<open>reg_ok s\<close>, of i info' off] by (simp add: tls_module_at_def)
    then show ?thesis
      using reg_okD [OF \<open>reg_ok s\<close>] ok(3)
      by (auto simp: ok(4) reg_ok_def tls_module_at_def slot_of_append [OF ok(2)])
  next
    case (full e)
    with ok show ?thesis by simp
  qed
  then show "reg_ok s'" "static_tls s' = static_tls s" "static_tls_modules s' = static_tls_modules s" by simp_all
qed

lemma reg_ok_register_static:
  assumes ok: "reg_ok s" and reg: "register_module s (Static info off) = (s', Inr i)"
  shows "reg_ok (s'\<lparr>static_tls := a, static_tls_modules := static_tls_modules s' @
      [\<lparr>st_id = i, st_info = info, st_source = None, st_offset = off\<rparr>]\<rparr>)"
    and "static_tls_modules s' = static_tls_modules s"
proof -
  from reg have len: "length (tls_modules s) + 1 < 2 ^ 64" and i: "unat i = length (tls_modules s) + 1"
    and s': "s' = s\<lparr>tls_modules := tls_modules s @ [Some (Static info off)]\<rparr>"
    by (auto elim: register_moduleE)
  show st: "static_tls_modules s' = static_tls_modules s" by (simp add: s')
  have fresh: "slot_of (tls_modules s) i = None" by (rule slot_of_fresh [OF i])
  then have notin: "i \<notin> st_id ` set (static_tls_modules s)"
    using reg_ok_id_at [OF ok] by (fastforce simp: tls_module_at_def)
  have nokey: "(i, info', off') \<notin> key ` set (static_tls_modules s)" for info' off'
    using notin by (force simp: key_def)
  show "reg_ok (s'\<lparr>static_tls := a, static_tls_modules := static_tls_modules s' @
      [\<lparr>st_id = i, st_info = info, st_source = None, st_offset = off\<rparr>]\<rparr>)"
    using reg_okD [OF ok] notin nokey len
    by (auto simp: reg_ok_def s' key_def tls_module_at_def slot_of_append [OF i])
qed

definition tls_ok :: "'src tls_state \<Rightarrow> bool" where
  "tls_ok s \<longleftrightarrow> arena_ok s \<and> reg_ok s"

lemma pow2_max:
  assumes "j < 64" "k < 64"
  shows "\<exists>i<64. max (2 ^ j) (2 ^ k) = (2 ^ i :: usize)"
  using assms by (auto simp: max_def)

lemma place_static_moduleE:
  assumes "place_static_module s area info = (s', r)"
  obtains (error) e where "r = Inl e" "s' = s"
  | (placed) k used n s1 i where "k < 64" "static_module_end (area_used area) (tls_memsz info) (tls_vaddr info) (2 ^ k) = Some used"
      "unat (max (tls_align info) 1) \<le> 2 ^ k"
      "static_used_with_rseq used = Some n" "n \<le> STATIC_TLS_ARENA_SIZE"
      "register_module s (Static info (- used)) = (s1, Inr i)" "r = Inr (i, - used)"
      "s' = s1\<lparr>static_tls := Some (area\<lparr>area_used := used, area_max_align := max (area_max_align area) (2 ^ k)\<rparr>),
         static_tls_modules := static_tls_modules s1 @
           [\<lparr>st_id = i, st_info = info, st_source = None, st_offset = - used\<rparr>]\<rparr>"
proof (cases "\<exists>e. r = Inl e")
  case True
  then have "s' = s"
    using assms by (auto simp: place_static_module_def Let_def elim: register_moduleE
        split: option.splits sum.splits if_splits prod.splits)
  with True error show thesis by blast
next
  case False
  then obtain a used n s1 i where *: "checked_next_power_of_two (max (tls_align info) 1) = Some a"
      "static_module_end (area_used area) (tls_memsz info) (tls_vaddr info) a = Some used"
      "static_used_with_rseq used = Some n" "n \<le> STATIC_TLS_ARENA_SIZE"
      "register_module s (Static info (- used)) = (s1, Inr i)" "r = Inr (i, - used)"
      "s' = s1\<lparr>static_tls := Some (area\<lparr>area_used := used, area_max_align := max (area_max_align area) a\<rparr>),
         static_tls_modules := static_tls_modules s1 @
           [\<lparr>st_id = i, st_info = info, st_source = None, st_offset = - used\<rparr>]\<rparr>"
    using assms by (auto simp: place_static_module_def Let_def
        split: option.splits sum.splits if_splits prod.splits)
  from *(1) obtain k where "k < 64" "a = 2 ^ k" "unat (max (tls_align info) 1) \<le> 2 ^ k"
    by (rule checked_next_power_of_two_Some)
  with * placed show thesis by blast
qed

lemma tls_ok_place:
  assumes ok: "tls_ok s" and area: "static_tls s = Some area"
    and place: "place_static_module s area info = (s', r)"
  shows "tls_ok s'"
  using place
proof (cases rule: place_static_moduleE)
  case (error e)
  with ok show ?thesis by simp
next
  case (placed k used n s1 i)
  have st: "static_tls_modules s1 = static_tls_modules s"
    using placed(6) ok by (auto simp: tls_ok_def intro: reg_ok_register_static(2))
  obtain j where j: "j < 64" "area_max_align area = 2 ^ j"
    using ok area by (auto simp: tls_ok_def arena_ok_def)
  have old: "below m \<le> unat (area_used area)" "msize m \<le> below m" if "m \<in> set (static_tls_modules s)" for m
    using ok area that by (auto simp: tls_ok_def arena_ok_def)
  have srt: "sorted_wrt (\<lambda>m m'. below m + msize m' \<le> below m') (static_tls_modules s)"
    using ok area by (simp add: tls_ok_def arena_ok_def)
  have ge: "unat (area_used area) + unat (tls_memsz info) \<le> unat used"
    by (rule static_module_end_facts(1) [OF placed(1,2)])
  have "arena_ok s'"
    unfolding placed(8) arena_ok_def using old srt ge placed(4,5) pow2_max [OF j(1) placed(1)]
    by (fastforce simp: st j(2) sorted_wrt_append below_def msize_def)
  moreover have "reg_ok s'"
    unfolding placed(8) using ok placed(6) by (auto simp: tls_ok_def intro: reg_ok_register_static(1))
  ultimately show ?thesis by (simp add: tls_ok_def)
qed

lemma tls_ok_frame:
  fixes s s' :: "'a tls_state"
  assumes "static_tls s' = static_tls s" "static_tls_modules s' = static_tls_modules s" "tls_modules s' = tls_modules s"
  shows "tls_ok s' = tls_ok s"
  using arena_ok_cong [of s' s] reg_ok_cong [of s' s] assms by (simp add: tls_ok_def)

lemma static_used_with_rseq_0: "static_used_with_rseq 0 = Some 32"
  by (simp add: static_used_with_rseq_def align_up_def RSEQ_AREA_ALIGN_def RSEQ_AREA_SIZE_def checked_add_def)

lemma install_thread_pointerE:
  assumes "install_thread_pointer set_fs s tp = (s1, q)"
  obtains f where "s1 = s\<lparr>fs_base := f\<rparr>"
  using assms that [of tp] that [of "fs_base s"] by (auto simp: install_thread_pointer_def split: if_splits)

lemma ensure_static_tls_areaE:
  assumes "ensure_static_tls_area mmap_area mmap_dtv set_fs s = Done (s1, q)"
  obtains h f where "s1 = s\<lparr>tls_heap := h, fs_base := f\<rparr>"
    "\<And>a. q = Inr a \<Longrightarrow> area_used a = 0 \<and> area_max_align a = 1"
proof (cases "from_size_align (STATIC_TLS_ARENA_SIZE + TLS_TCB_SIZE) 4096")
  case None
  then show thesis
    using assms that [of "fs_base s" "tls_heap s"] by (auto simp: ensure_static_tls_area_def)
next
  case (Some l)
  obtain h1 base where al: "alloc_zeroed mmap_area (tls_heap s) l = (h1, base)" by fastforce
  let ?tp = "base + STATIC_TLS_ARENA_SIZE"
  from assms Some al obtain h2 r where tcb: "tls_init_tcb mmap_dtv h1 ?tp = Done (h2, r)"
    by (auto simp: ensure_static_tls_area_def run_bind_Done Let_def split: if_splits)
  show thesis
  proof (cases r)
    case (Inl e)
    then show thesis
      using assms Some al tcb that [of "fs_base s" h2]
      by (auto simp: ensure_static_tls_area_def Let_def split: if_splits)
  next
    case (Inr u)
    obtain s3 q3 where ins: "install_thread_pointer set_fs (s\<lparr>tls_heap := h2\<rparr>) ?tp = (s3, q3)" by fastforce
    then obtain f where f: "s3 = s\<lparr>tls_heap := h2, fs_base := f\<rparr>"
      by (rule install_thread_pointerE)
    show thesis
      by (rule that [of f h2])
        (use assms Some al tcb Inr ins f in \<open>cases q3; auto simp: ensure_static_tls_area_def Let_def split: if_splits\<close>)+
  qed
qed

lemma tls_ok_register_static:
  assumes ok: "tls_ok s" and reg: "register_static_module mmap_area mmap_dtv set_fs s info = Done (s', r)"
  shows "tls_ok s'"
proof (cases "static_tls s")
  case (Some area)
  with reg have "place_static_module s area info = (s', r)" by (simp add: register_static_module_def)
  with ok Some show ?thesis by (rule tls_ok_place)
next
  case None
  then obtain s1 q where en: "ensure_static_tls_area mmap_area mmap_dtv set_fs s = Done (s1, q)"
    and rest: "(case q of Inl e \<Rightarrow> Done (s1, Inl e)
          | Inr area \<Rightarrow> Done (place_static_module (s1\<lparr>static_tls := Some area\<rparr>) area info)) = Done (s', r)"
    using reg by (auto simp: register_static_module_def run_bind_Done)
  from en obtain h f where s1: "s1 = s\<lparr>tls_heap := h, fs_base := f\<rparr>"
    and fresh: "\<And>a. q = Inr a \<Longrightarrow> area_used a = 0 \<and> area_max_align a = 1"
    by (rule ensure_static_tls_areaE) blast
  have same: "static_tls s1 = static_tls s" "static_tls_modules s1 = static_tls_modules s" "tls_modules s1 = tls_modules s"
    by (simp_all add: s1)
  show ?thesis
  proof (cases q)
    case (Inl e)
    then show ?thesis using rest ok same tls_ok_frame [of s1 s] by simp
  next
    case (Inr area)
    have one: "\<exists>k<64. 1 = (2::usize) ^ k" by (rule exI [of _ 0]) simp
    have "static_tls_modules s = []" using ok None by (simp add: tls_ok_def arena_ok_def)
    then have "arena_ok (s1\<lparr>static_tls := Some area\<rparr>)"
      using fresh [OF Inr] same one
      by (simp add: arena_ok_def static_used_with_rseq_0 STATIC_TLS_ARENA_SIZE_def word_le_nat_alt)
    moreover have "reg_ok (s1\<lparr>static_tls := Some area\<rparr>)"
      using ok reg_ok_cong [of "s1\<lparr>static_tls := Some area\<rparr>" s] same by (simp add: tls_ok_def)
    ultimately have "tls_ok (s1\<lparr>static_tls := Some area\<rparr>)" by (simp add: tls_ok_def)
    then show ?thesis by (rule tls_ok_place [of _ area info s' r]) (use rest Inr in simp_all)
  qed
qed

lemma tls_ok_unregister:
  assumes "tls_ok s"
  shows "tls_ok (unregister_module s raw)"
proof (cases "raw = 0")
  case True
  with assms show ?thesis by (simp add: unregister_module_def)
next
  case False
  let ?ms = "filter (\<lambda>m. st_id m \<noteq> raw) (static_tls_modules s)"
  have u: "unregister_module s raw = (set_slot s raw None)\<lparr>static_tls_modules := ?ms\<rparr>"
    using False by (simp add: unregister_module_def set_slot_def)
  have "arena_ok (unregister_module s raw)"
    using assms unfolding u
    by (auto simp: tls_ok_def arena_ok_def set_slot_def sorted_wrt_filter split: option.splits)
  moreover have "tls_module_at (unregister_module s raw) raw' = Some (Static info off) \<longleftrightarrow>
      (raw', info, off) \<in> key ` set ?ms" for raw' info off
  proof -
    have reg: "reg_ok s" using assms by (simp add: tls_ok_def)
    have "(raw', info, off) \<in> key ` set ?ms \<longleftrightarrow>
        raw' \<noteq> raw \<and> (raw', info, off) \<in> key ` set (static_tls_modules s)"
      by (auto simp: key_def)
    moreover have "tls_module_at (unregister_module s raw) raw' = Some (Static info off) \<longleftrightarrow>
        raw' \<noteq> raw \<and> tls_module_at s raw' = Some (Static info off)"
      unfolding u tls_module_at_def set_slot_def
      using slot_of_update [OF False, of "tls_modules s" None raw'] False
      by (auto simp: slot_of_def split: if_splits)
    ultimately show ?thesis using reg_okD(1) [OF reg] by simp
  qed
  then have "reg_ok (unregister_module s raw)"
    using assms by (auto simp: tls_ok_def reg_ok_def u set_slot_def distinct_map_filter)
  ultimately show ?thesis by (simp add: tls_ok_def)
qed

lemma upsert_static_keys:
  assumes "distinct (map st_id ms)" "key m \<in> key ` set ms"
  shows "map key (upsert_static m ms) = map key ms"
  using assms
proof (induction ms)
  case Nil
  then show ?case by simp
next
  case (Cons x ms)
  show ?case
  proof (cases "st_id x = st_id m")
    case True
    then have "key m \<notin> key ` set ms" using Cons.prems(1) by (force simp: key_def)
    with Cons.prems(2) True show ?thesis by auto
  next
    case False
    then have "key m \<in> key ` set ms" using Cons.prems(2) by (auto simp: key_def)
    with Cons False show ?thesis by simp
  qed
qed

lemma set_slot_same:
  assumes "tls_module_at s raw = Some m"
  shows "set_slot s raw (Some m) = s"
proof -
  have "(tls_modules s)[unat raw - 1 := Some m] = tls_modules s"
    using assms by (auto simp: tls_module_at_def slot_of_def split: if_splits intro: list_update_same_conv [THEN iffD2])
  then show ?thesis by (simp add: set_slot_def)
qed

lemma tls_module_at_range: "tls_module_at s raw = Some m \<Longrightarrow> raw \<noteq> 0 \<and> unat raw - 1 < length (tls_modules s)"
  by (auto simp: tls_module_at_def slot_of_def split: if_splits)

lemma tls_ok_init_dynamic:
  assumes ok: "tls_ok s" and m: "tls_module_at s raw = Some (Dynamic info src)"
    and r: "init_dynamic_tls s info' source raw = (s', r)"
  shows "tls_ok s'"
proof -
  from tls_module_at_range [OF m] r have s': "s' = set_slot s raw (Some (Dynamic info' (Some source)))"
    by (simp add: init_dynamic_tls_def)
  have "tls_module_at s' raw' = Some (Static f off) \<longleftrightarrow> tls_module_at s raw' = Some (Static f off)" for raw' f off
    using m slot_of_update [of raw "tls_modules s" "Some (Dynamic info' (Some source))" raw'] tls_module_at_range [OF m]
    by (auto simp: s' tls_module_at_def set_slot_def)
  then have "reg_ok s'" using ok by (simp add: tls_ok_def reg_ok_def s') (simp add: set_slot_def)
  moreover have "arena_ok s'"
    using ok arena_ok_cong [of s' s] by (simp add: s' set_slot_def tls_ok_def)
  ultimately show ?thesis by (simp add: tls_ok_def)
qed

lemma tls_ok_init_static:
  assumes ok: "tls_ok s" and m: "tls_module_at s raw = Some (Static info off)"
    and r: "init_static_tls with_image s info source raw off = Done (s', r)"
  shows "tls_ok s'"
proof -
  let ?m = "\<lparr>st_id = raw, st_info = info, st_source = Some source, st_offset = off\<rparr>"
  let ?s2 = "s\<lparr>static_tls_modules := upsert_static ?m (static_tls_modules s)\<rparr>"
  have "update_static_module_slot s raw info off = (s, Inr ())"
    using tls_module_at_range [OF m] set_slot_same [OF m] by (auto simp: update_static_module_slot_def)
  with r have s': "static_tls s' = static_tls ?s2 \<and> static_tls_modules s' = static_tls_modules ?s2 \<and> tls_modules s' = tls_modules ?s2"
    by (auto simp: init_static_tls_def Let_def run_bind_Done split: option.splits)
  have "key ?m \<in> key ` set (static_tls_modules s)"
    using reg_okD(1) [of s raw info off] ok m by (simp add: tls_ok_def key_def)
  then have keys: "map key (static_tls_modules s') = map key (static_tls_modules s)"
    using upsert_static_keys [of "static_tls_modules s" ?m] reg_okD(2) [of s] ok s' by (simp add: tls_ok_def)
  have "arena_ok s' = arena_ok s" by (rule arena_ok_cong) (use s' keys in simp_all)
  moreover have "reg_ok s' = reg_ok s" by (rule reg_ok_cong) (use s' keys in simp_all)
  ultimately show ?thesis using ok by (simp add: tls_ok_def)
qed

lemma tls_ok_init_tls_module:
  assumes ok: "tls_ok s" and r: "init_tls_module with_image s source raw off = Done (s', r)"
  shows "tls_ok s'"
proof (cases "tls_module_at s raw")
  case None
  with ok r show ?thesis by (simp add: init_tls_module_def)
next
  case (Some m)
  show ?thesis
  proof (cases m)
    case (Dynamic info src)
    then show ?thesis
      using Some r ok tls_ok_init_dynamic [OF ok, of raw info src info source s' r]
      by (cases off) (auto simp: init_tls_module_def)
  next
    case (Static info reg)
    then show ?thesis
      using Some r ok tls_ok_init_static [OF ok, of raw info reg with_image source s' r]
      by (cases off) (auto simp: init_tls_module_def split: if_splits)
  qed
qed

text \<open>What the remaining operations leave alone.\<close>

definition same_modules :: "'src tls_state \<Rightarrow> 'src tls_state \<Rightarrow> bool" where
  "same_modules s s' \<longleftrightarrow> static_tls s' = static_tls s \<and> static_tls_modules s' = static_tls_modules s \<and>
     tls_modules s' = tls_modules s \<and> fs_base s' = fs_base s"

lemma allocate_dynamic_block_modules:
  "allocate_dynamic_block with_image mmap s tp i info source = Done (s', r) \<Longrightarrow> same_modules s s'"
  by (auto simp: allocate_dynamic_block_def Let_def run_bind_case same_modules_def
      split: split_asms)

lemma get_addr_modules: "get_addr with_image mmap s ix = Done (s', p) \<Longrightarrow> same_modules s s'"
  using allocate_dynamic_block_modules [of with_image mmap s]
  by (auto simp: get_addr_def dynamic_tls_addr_def Let_def run_bind_case
      split: split_asms tls_module.split_asm)
     (auto simp: same_modules_def)

lemma allocate_storage_modules: "allocate_storage mmap s = Done (s', r) \<Longrightarrow> same_modules s s'"
  by (auto simp: allocate_storage_def Let_def same_modules_def split: split_asms)

lemma tls_init_modules: "tls_init with_image mmap s st = Done (s', r) \<Longrightarrow> same_modules s s'"
  by (auto simp: tls_init_def run_bind_case same_modules_def split: split_asms)

lemma allocate_modules:
  assumes "allocate with_image mmap mmap_dtv s st = Done (s', r)"
  shows "same_modules s s'"
proof (cases "st = 0")
  case True
  with assms obtain s1 q where a: "allocate_storage mmap s = Done (s1, q)"
    "(case q of None \<Rightarrow> Done (s1, 0) | Some tp \<Rightarrow> tls_init with_image mmap_dtv s1 tp) = Done (s', r)"
    by (auto simp: allocate_def run_bind_Done)
  then have "same_modules s1 s'"
    by (auto split: split_asms intro: tls_init_modules) (simp add: same_modules_def)
  with allocate_storage_modules [OF a(1)] show ?thesis by (simp add: same_modules_def)
next
  case False
  with assms show ?thesis by (simp add: allocate_def tls_init_modules)
qed

lemma deallocate_modules: "same_modules s (dl_deallocate_tls s st b)"
  by (simp add: dl_deallocate_tls_def deallocate_def free_dynamic_blocks_def Let_def same_modules_def
      split: prod.splits option.splits)

lemma tls_ok_same_modules: "same_modules s s' \<Longrightarrow> tls_ok s \<Longrightarrow> tls_ok s'"
  using tls_ok_frame [of s' s] by (simp add: same_modules_def)

section \<open>Runs of the TLS subsystem\<close>

inductive tls_step :: "('src \<Rightarrow> bytes option) \<Rightarrow> 'src tls_state \<Rightarrow> 'src tls_state \<Rightarrow> bool"
  for with_image where
  step_register: "register_dynamic_module s info = (s', r) \<Longrightarrow> tls_step with_image s s'"
| step_register_static: "register_static_module mmap_area mmap_dtv set_fs s info = Done (s', q) \<Longrightarrow>
    tls_step with_image s s'"
| step_init: "init_tls_module with_image s source mod_id off = Done (s', u) \<Longrightarrow> tls_step with_image s s'"
| step_unregister: "tls_step with_image s (unregister_module s mod_id)"
| step_get_addr: "get_addr with_image mmap s ix = Done (s', p) \<Longrightarrow> tls_step with_image s s'"
| step_allocate: "allocate with_image mmap mmap_dtv s st = Done (s', p) \<Longrightarrow> tls_step with_image s s'"
| step_init_thread: "tls_init with_image mmap_dtv s st = Done (s', p) \<Longrightarrow> tls_step with_image s s'"
| step_deallocate: "tls_step with_image s (dl_deallocate_tls s st b)"

definition tls_start :: "heap \<Rightarrow> usize \<Rightarrow> 'src tls_state" where
  "tls_start h tp = \<lparr>static_tls = None, static_tls_modules = [], tls_modules = [], dynamic_tls_blocks = [],
     tls_allocations = [], tls_heap = h, fs_base = tp\<rparr>"

lemma tls_ok_start: "tls_ok (tls_start h tp)"
  by (simp add: tls_ok_def tls_start_def arena_ok_def reg_ok_def tls_module_at_def slot_of_def)

lemma tls_ok_step: "tls_step with_image s s' \<Longrightarrow> tls_ok s \<Longrightarrow> tls_ok s'"
proof (induction rule: tls_step.induct)
  case (step_register s info s' r)
  then have reg: "register_module s (Dynamic info None) = (s', r)" by (simp add: register_dynamic_module_def)
  have "reg_ok s" using step_register by (simp add: tls_ok_def)
  note r = reg_ok_register_dynamic [OF this reg]
  have "arena_ok s' = arena_ok s" by (rule arena_ok_cong) (simp_all add: r)
  with r(1) step_register show ?case by (simp add: tls_ok_def)
next
  case (step_register_static mmap_area mmap_dtv set_fs s info s' q)
  then show ?case by (blast intro: tls_ok_register_static)
next
  case (step_init s source mod_id off s' u)
  then show ?case by (blast intro: tls_ok_init_tls_module)
next
  case (step_unregister s mod_id)
  then show ?case by (rule tls_ok_unregister)
qed (blast intro: tls_ok_same_modules get_addr_modules allocate_modules tls_init_modules deallocate_modules)+

lemma tls_ok_reachable: "(tls_step with_image)\<^sup>*\<^sup>* (tls_start h tp) s \<Longrightarrow> tls_ok s"
  by (induction rule: rtranclp_induct) (auto intro: tls_ok_start tls_ok_step)

text \<open>The bytes a module occupies, counted downwards from the thread pointer, and the bytes of the
  restartable-sequence area.\<close>

definition block :: "'src static_tls_module \<Rightarrow> nat set" where
  "block m = {below m - msize m..<below m}"

definition rseq_block :: "usize \<Rightarrow> nat set" where
  "rseq_block used = (case static_used_with_rseq used of Some n \<Rightarrow> {unat n - 32..<unat n} | None \<Rightarrow> {})"

lemma static_used_with_rseq_Some:
  assumes "static_used_with_rseq used = Some n"
  shows "unat n = round_up 32 (unat used) + 32"
proof -
  from assms obtain x where x: "align_up used (2 ^ 5) = Some x" "checked_add x 32 = Some n"
    by (auto simp: static_used_with_rseq_def bind_eq_Some_conv RSEQ_AREA_ALIGN_def RSEQ_AREA_SIZE_def)
  have "unat x = round_up (2 ^ 5) (unat used)" by (rule align_up_Some [OF _ x(1)]) simp
  with x(2) show ?thesis by (simp add: checked_add_Some)
qed

lemma sorted_blocks_disjoint:
  assumes "sorted_wrt (\<lambda>m m'. below m + msize m' \<le> below m') ms" "i < j" "j < length ms"
  shows "block (ms ! i) \<inter> block (ms ! j) = {}"
proof -
  have "below (ms ! i) + msize (ms ! j) \<le> below (ms ! j)"
    using assms by (simp add: sorted_wrt_iff_nth_less)
  then show ?thesis by (auto simp: block_def)
qed


definition sample_module :: tls_info where
  "sample_module = \<lparr>tls_vaddr = 0x1010, tls_memsz = 24, tls_align = 32\<rparr>"

lemma sample_ensure:
  "\<exists>h. ensure_static_tls_area (Some 0x100000) (Some 0x900000) True (tls_start zero_heap 0 :: bytes tls_state) =
     Done ((tls_start zero_heap 0)\<lparr>tls_heap := h, fs_base := 0x200000\<rparr>,
           Inr \<lparr>area_tp = 0x200000, area_used = 0, area_max_align = 1\<rparr>)"
proof -
  have l: "from_size_align (1048576 + TLS_TCB_SIZE) 4096 = Some \<lparr>size = 1050944, align = 4096\<rparr>"
    by (simp add: from_size_align_def TLS_TCB_SIZE_def) (rule exI [of _ 12], simp)
  show ?thesis
    by (simp add: ensure_static_tls_area_def l alloc_zeroed_def alloc_def STATIC_TLS_ARENA_SIZE_def
        tls_init_tcb_def init_tcb_def allocate_dtv_eq install_thread_pointer_def tls_start_def)
qed

lemma sample_align: "checked_next_power_of_two 32 = Some 32"
  by (simp add: checked_next_power_of_two_def upt_rec)

lemma sample_place:
  "static_module_end 0 24 0x1010 32 = Some 48" "static_module_end 48 24 0x1010 32 = Some 80"
  "static_used_with_rseq 48 = Some 96" "static_used_with_rseq 80 = Some 128"
  by (simp_all add: static_module_end_def align_up_def checked_add_def saturating_sub_def Let_def word_le_nat_alt
      static_used_with_rseq_def RSEQ_AREA_ALIGN_def RSEQ_AREA_SIZE_def)

definition sample_static :: "heap \<Rightarrow> bytes tls_state" where
  "sample_static h = \<lparr>static_tls = Some \<lparr>area_tp = 0x200000, area_used = 80, area_max_align = 32\<rparr>,
     static_tls_modules =
       [\<lparr>st_id = 1, st_info = sample_module, st_source = None, st_offset = - 48\<rparr>,
        \<lparr>st_id = 2, st_info = sample_module, st_source = None, st_offset = - 80\<rparr>],
     tls_modules = [Some (Static sample_module (- 48)), Some (Static sample_module (- 80))],
     dynamic_tls_blocks = [], tls_allocations = [], tls_heap = h, fs_base = 0x200000\<rparr>"

lemma sample_place_first:
  assumes "tls_modules s = []" "static_tls_modules s = []"
  shows "place_static_module s \<lparr>area_tp = 0x200000, area_used = 0, area_max_align = 1\<rparr> sample_module =
    (s\<lparr>static_tls := Some \<lparr>area_tp = 0x200000, area_used = 48, area_max_align = 32\<rparr>,
       static_tls_modules := [\<lparr>st_id = 1, st_info = sample_module, st_source = None, st_offset = - 48\<rparr>],
       tls_modules := [Some (Static sample_module (- 48))]\<rparr>, Inr (1, - 48))"
  using assms by (simp add: place_static_module_def sample_module_def max_def word_le_nat_alt sample_align sample_place
      STATIC_TLS_ARENA_SIZE_def word_less_nat_alt register_module_def)

lemma sample_place_second:
  assumes "tls_modules s = [m]" "static_tls_modules s = [x]"
  shows "place_static_module s \<lparr>area_tp = 0x200000, area_used = 48, area_max_align = 32\<rparr> sample_module =
    (s\<lparr>static_tls := Some \<lparr>area_tp = 0x200000, area_used = 80, area_max_align = 32\<rparr>,
       static_tls_modules := [x, \<lparr>st_id = 2, st_info = sample_module, st_source = None, st_offset = - 80\<rparr>],
       tls_modules := [m, Some (Static sample_module (- 80))]\<rparr>, Inr (2, - 80))"
  using assms by (simp add: place_static_module_def sample_module_def max_def word_le_nat_alt sample_align sample_place
      STATIC_TLS_ARENA_SIZE_def word_less_nat_alt register_module_def)

lemma sample_static_reachable: "\<exists>h. (tls_step Some)\<^sup>*\<^sup>* (tls_start zero_heap 0) (sample_static h)"
proof -
  obtain h where e: "ensure_static_tls_area (Some 0x100000) (Some 0x900000) True (tls_start zero_heap 0 :: bytes tls_state) =
     Done ((tls_start zero_heap 0)\<lparr>tls_heap := h, fs_base := 0x200000\<rparr>,
           Inr \<lparr>area_tp = 0x200000, area_used = 0, area_max_align = 1\<rparr>)" using sample_ensure by blast
  let ?s1 = "(tls_start zero_heap 0)\<lparr>static_tls := Some \<lparr>area_tp = 0x200000, area_used = 48, area_max_align = 32\<rparr>,
      static_tls_modules := [\<lparr>st_id = 1, st_info = sample_module, st_source = None, st_offset = - 48\<rparr>],
      tls_modules := [Some (Static sample_module (- 48))], tls_heap := h, fs_base := 0x200000\<rparr> :: bytes tls_state"
  have none: "static_tls (tls_start zero_heap 0 :: bytes tls_state) = None" by (simp add: tls_start_def)
  have "register_static_module (Some 0x100000) (Some 0x900000) True (tls_start zero_heap 0) sample_module = Done (?s1, Inr (1, - 48))"
    unfolding register_static_module_def none option.case e by (simp add: tls_start_def sample_place_first)
  then have "tls_step Some (tls_start zero_heap 0) ?s1" by (rule step_register_static)
  moreover have "register_static_module None None True ?s1 sample_module = Done (sample_static h, Inr (2, - 80))"
    by (simp add: register_static_module_def sample_place_second) (simp add: tls_start_def sample_static_def)
  then have "tls_step Some ?s1 (sample_static h)" by (rule step_register_static)
  ultimately show ?thesis by (meson converse_rtranclp_into_rtranclp rtranclp.rtrancl_refl)
qed


text \<open>The end chosen for a static module leaves room for its size after what is in use, makes the
  block's address congruent to the segment's address modulo the alignment, and is the least such end.\<close>

theorem static_module_end_correct:
  assumes "k < 64" and "static_module_end used memsz vaddr (2 ^ k) = Some e"
  shows "unat used + unat memsz \<le> unat e \<and> unat e < unat used + unat memsz + 2 ^ k \<and>
    (\<forall>tp. unat tp mod 2 ^ k = 0 \<longrightarrow> unat (tp - e) mod 2 ^ k = unat vaddr mod 2 ^ k) \<and>
    (\<forall>x. unat used + unat memsz \<le> x \<and> x mod 2 ^ k = unat (0 - vaddr) mod 2 ^ k \<longrightarrow> unat e \<le> x)"
  using static_module_end_facts [OF assms] congruent_block [OF assms(1) _ static_module_end_facts(2) [OF assms]]
  by blast

theorem static_module_end_correct_witness:
  "static_module_end 100 24 0x1010 32 = Some 144 \<and> unat (100::usize) + unat (24::usize) \<le> unat (144::usize)"
proof -
  have "static_module_end 100 24 0x1010 32 = Some 144"
    by (simp add: static_module_end_def align_up_def checked_add_def saturating_sub_def Let_def word_le_nat_alt)
  then show ?thesis using static_module_end_correct [of 5 100 24 "0x1010" 144] by simp
qed

end
