(* ===== verification/Tls_Blocks.thy ===== *)
theory Tls_Blocks
  imports Tls "HOL-Library.Multiset"
begin

text \<open>
  Contents and lifetime of the dynamic TLS blocks of \<open>Tls\<close>: what \<open>get_addr\<close> allocates and
  returns, and what \<open>free_dynamic_blocks\<close> (a \<open>swap_remove\<close> loop) releases.
\<close>

section \<open>Filling a block\<close>

lemma fill_block_contents:
  assumes "length img \<le> unat memsz"
  obtains m' where "fill_block m p img memsz = Done m'"
    "read_list m' p (unat memsz) = img @ replicate (unat memsz - length img) 0"
    "\<And>q n. apart q n p (unat memsz) \<Longrightarrow> read_list m' q n = read_list m q n"
proof -
  let ?len = "length img" and ?k = "memsz - of_nat (length img)"
  let ?w = "write_list m p img"
  let ?m' = "memset ?w (p + of_nat ?len) 0 ?k"
  have b: "?len < 2 ^ 64" using assms unat_usize_bound [of memsz] by linarith
  have "of_nat ?len \<le> memsz" using assms b by (simp add: word_le_nat_alt unat_of_nat_usize)
  then have k: "unat ?k = unat memsz - ?len" using b by (simp add: unat_sub unat_of_nat_usize)
  have ap: "apart (p + of_nat 0) ?len (p + of_nat ?len) (unat ?k)"
    by (rule apart_offsets) (use b k assms unat_usize_bound [of memsz] in auto)
  have byte: "?m' (p + of_nat i) = (img @ replicate (unat memsz - ?len) 0) ! i" if "i < unat memsz" for i
  proof (cases "i < ?len")
    case True
    then have "?m' (p + of_nat i) = ?w (p + of_nat i)" using memset_apart [OF ap, of i] by simp
    also have "\<dots> = img ! i" using True b by (simp add: write_list_def unat_of_nat_usize)
    finally show ?thesis using True by (simp add: nth_append)
  next
    case False
    then have "i - ?len < unat ?k" using k that by simp
    from memset_inside [OF this, of ?w "p + of_nat ?len" 0]
    have "?m' (p + of_nat ?len + of_nat (i - ?len)) = 0" by (simp only: unsigned_0)
    moreover have "p + of_nat ?len + of_nat (i - ?len) = p + of_nat i" using False by (simp add: of_nat_diff)
    ultimately show ?thesis using False that by (simp add: nth_append)
  qed
  show thesis
  proof (rule that [of ?m'])
    show "fill_block m p img memsz = Done ?m'" using assms by (simp add: fill_block_def)
    show "read_list ?m' p (unat memsz) = img @ replicate (unat memsz - ?len) 0"
      by (rule nth_equalityI) (use assms byte in \<open>simp_all add: read_list_def\<close>)
    fix q n assume a: "apart q n p (unat memsz)"
    have a1: "apart q n p ?len" using apart_subset [OF a, of 0 ?len] assms by simp
    have a2: "apart q n (p + of_nat ?len) (unat ?k)" by (rule apart_subset [OF a]) (use k assms in simp)
    show "read_list ?m' q n = read_list m q n"
      by (simp only: read_memset_apart [OF a2] read_write_list_apart [OF a1])
  qed
qed

text \<open>A change of memory that leaves the vector and the pointer to it alone.\<close>

lemma dtv_frame:
  assumes ok: "dtv_ok tp h"
    and ptr: "read_list (bytes_of h') (tp + TCB_DTV_OFFSET) 8 = read_list (bytes_of h) (tp + TCB_DTV_OFFSET) 8"
    and vec: "read_list (bytes_of h') (dtv_base tp h) 1056 = read_list (bytes_of h) (dtv_base tp h) 1056"
  shows "dtv_ok tp h'" and "dtv_base tp h' = dtv_base tp h" and "dtv_value h' tp k = dtv_value h tp k"
proof -
  let ?b = "dtv_base tp h"
  have p: "read_usize (bytes_of h') (tp + TCB_DTV_OFFSET) = read_usize (bytes_of h) (tp + TCB_DTV_OFFSET)"
    by (simp only: read_usize_def ptr)
  then show base: "dtv_base tp h' = ?b" by (simp add: dtv_base_def)
  have byte: "bytes_of h' (?b + of_nat i) = bytes_of h (?b + of_nat i)" if "i < 1056" for i
    using arg_cong [OF vec, of "\<lambda>xs. xs ! i"] that by (simp add: read_list_def)
  have word: "read_usize (bytes_of h') (?b + of_nat off) = read_usize (bytes_of h) (?b + of_nat off)"
    if "off + 8 \<le> 1056" for off
  proof -
    have "bytes_of h' (?b + of_nat off + of_nat i) = bytes_of h (?b + of_nat off + of_nat i)" if "i < 8" for i
      using byte [of "off + i"] that \<open>off + 8 \<le> 1056\<close> by (simp add: add.assoc)
    then have "read_list (bytes_of h') (?b + of_nat off) 8 = read_list (bytes_of h) (?b + of_nat off) 8"
      unfolding read_list_def by (intro map_cong) auto
    then show ?thesis by (simp only: read_usize_def)
  qed
  show ok': "dtv_ok tp h'"
    using dtv_okD [OF ok] word [of 0]
    by (simp add: dtv_ok_def Let_def p DTV_SLOT_COUNT_def flip: base)
  have ent: "dtv_entry h' tp k = dtv_entry h tp k"
    by (simp only: dtv_entry_eq [OF ok] dtv_entry_eq [OF ok'] base)
  show "dtv_value h' tp k = dtv_value h tp k"
  proof (cases "dtv_entry h tp k")
    case None
    with ent show ?thesis by (simp add: dtv_value_def)
  next
    case (Some e)
    have "read_usize (bytes_of h') e = read_usize (bytes_of h) e"
      unfolding entry_shape(3) [OF ok Some] by (rule word) (use entry_shape(2) [OF ok Some] in linarith)
    with Some ent show ?thesis by (simp add: dtv_value_def)
  qed
qed

lemma alloc_zeroed_eq:
  "p \<noteq> 0 \<Longrightarrow> alloc_zeroed (Some p) h l =
     (h\<lparr>bytes_of := memset (bytes_of h) p 0 (size l), live := (live h)(p \<mapsto> page_rounded_size l)\<rparr>, p)"
  by (simp add: alloc_zeroed_def alloc_def)

lemma set_dtv_value_read_apart:
  assumes ok: "dtv_ok tp h" and ap: "apart q n (dtv_base tp h) 1056"
  shows "read_list (bytes_of (fst (set_dtv_value h tp k v w))) q n = read_list (bytes_of h) q n"
proof (cases "dtv_entry h tp k")
  case None
  then show ?thesis by (simp add: set_dtv_value_def)
next
  case (Some e)
  note sh = entry_shape [OF ok Some]
  have 1: "apart q n e 8" unfolding sh(3) by (rule apart_subset [OF ap]) (use sh(2) in linarith)
  have 2: "apart q n (e + 8) 8" unfolding sh(4) by (rule apart_subset [OF ap]) (use sh(2) in linarith)
  from Some 1 2 show ?thesis by (simp add: set_dtv_value_def write_usize_def read_write_list_apart)
qed

text \<open>The hypotheses of a first access: a dynamic module whose image fits, a control block with an
  empty slot for it, and memory from the kernel away from the vector.\<close>

definition first_access :: "('src \<Rightarrow> bytes option) \<Rightarrow> 'src tls_state \<Rightarrow> usize \<Rightarrow> tls_info \<Rightarrow> bytes \<Rightarrow> layout \<Rightarrow> usize \<Rightarrow> bool" where
  "first_access with_image s i info img l p \<longleftrightarrow>
     (\<exists>src. tls_module_at s i = Some (Dynamic info (Some src)) \<and> with_image src = Some img) \<and>
     length img \<le> unat (tls_memsz info) \<and> dynamic_layout info = Some l \<and>
     dtv_ok (fs_base s) (tls_heap s) \<and> dtv_value (tls_heap s) (fs_base s) i = None \<and>
     p \<noteq> 0 \<and> apart (fs_base s + TCB_DTV_OFFSET) 8 p (unat (size l)) \<and>
     apart (dtv_base (fs_base s) (tls_heap s)) 1056 p (unat (size l))"

lemma from_size_align_size: "from_size_align s a = Some l \<Longrightarrow> l = \<lparr>size = s, align = a\<rparr>"
  by (simp add: from_size_align_def split: if_splits)

lemma allocate_first_access:
  assumes acc: "first_access with_image s i info img l p"
    and src: "tls_module_at s i = Some (Dynamic info (Some src))" "with_image src = Some img"
  obtains h where
    "dtv_ok (fs_base s) h" "live h = (live (tls_heap s))(p \<mapsto> page_rounded_size l)"
    "read_list (bytes_of h) p (unat (tls_memsz info)) = img @ replicate (unat (tls_memsz info) - length img) 0"
    "dtv_base (fs_base s) h = dtv_base (fs_base s) (tls_heap s)"
    "allocate_dynamic_block with_image (Some p) s (fs_base s) i info (Some src) =
       (case set_dtv_value h (fs_base s) i p p of
          (h3, False) \<Rightarrow> Done (s\<lparr>tls_heap := dealloc h3 p l\<rparr>, None)
        | (h3, True) \<Rightarrow> Done (s\<lparr>tls_heap := h3, dynamic_tls_blocks := dynamic_tls_blocks s @
             [\<lparr>blk_tp = fs_base s, blk_ptr = p, blk_layout = l\<rparr>]\<rparr>, Some p))"
proof -
  let ?tp = "fs_base s" and ?h = "tls_heap s"
  have lay: "dynamic_layout info = Some l" and ok: "dtv_ok ?tp ?h" and p: "p \<noteq> 0"
    and fits: "length img \<le> unat (tls_memsz info)"
    and ap: "apart (?tp + TCB_DTV_OFFSET) 8 p (unat (size l))" "apart (dtv_base ?tp ?h) 1056 p (unat (size l))"
    using acc by (simp_all add: first_access_def)
  have sz: "unat (tls_memsz info) \<le> unat (size l)"
    using lay by (auto simp: dynamic_layout_def dest!: from_size_align_size)
      (simp add: max_def word_le_nat_alt)
  let ?m1 = "memset (bytes_of ?h) p 0 (size l)"
  obtain m' where m': "fill_block ?m1 p img (tls_memsz info) = Done m'"
    "read_list m' p (unat (tls_memsz info)) = img @ replicate (unat (tls_memsz info) - length img) 0"
    "\<And>q n. apart q n p (unat (tls_memsz info)) \<Longrightarrow> read_list m' q n = read_list ?m1 q n"
    using fill_block_contents [OF fits, of ?m1 p] by blast
  let ?h2 = "?h\<lparr>live := (live ?h)(p \<mapsto> page_rounded_size l), bytes_of := m'\<rparr>"
  have same: "read_list m' q n = read_list (bytes_of ?h) q n" if "apart q n p (unat (size l))" for q n
    using m'(3) [of q n] apart_subset [OF that, of 0 "unat (tls_memsz info)"] sz read_memset_apart [OF that]
    by simp
  note fr = dtv_frame [OF ok, of ?h2, simplified, OF same [OF ap(1)] same [OF ap(2)]]
  show thesis
  proof (rule that [of ?h2])
    show "dtv_ok ?tp ?h2" by (rule fr(1))
    show "dtv_base ?tp ?h2 = dtv_base ?tp ?h" by (rule fr(2))
    show "allocate_dynamic_block with_image (Some p) s ?tp i info (Some src) =
       (case set_dtv_value ?h2 ?tp i p p of
          (h3, False) \<Rightarrow> Done (s\<lparr>tls_heap := dealloc h3 p l\<rparr>, None)
        | (h3, True) \<Rightarrow> Done (s\<lparr>tls_heap := h3, dynamic_tls_blocks := dynamic_tls_blocks s @
             [\<lparr>blk_tp = ?tp, blk_ptr = p, blk_layout = l\<rparr>]\<rparr>, Some p))"
      using src(2) p m'(1) by (simp add: allocate_dynamic_block_def lay alloc_zeroed_eq [OF p] Let_def)
  qed (use m'(2) in simp_all)
qed


text \<open>C8. The first access of a thread to a dynamic module allocates its block, fills it with the
  module's image followed by zeros, records it for the thread and returns the address asked for;
  every later access returns the same block and changes nothing.\<close>

theorem get_addr_dynamic:
  assumes acc: "first_access with_image s i info img l p" and i: "unat i \<le> 64"
  shows "\<exists>s'. get_addr with_image (Some p) s (Some (i, off)) = Done (s', p + off) \<and>
    read_list (bytes_of (tls_heap s')) p (unat (tls_memsz info)) =
      img @ replicate (unat (tls_memsz info) - length img) 0 \<and>
    dynamic_tls_blocks s' = dynamic_tls_blocks s @ [\<lparr>blk_tp = fs_base s, blk_ptr = p, blk_layout = l\<rparr>] \<and>
    live (tls_heap s') p = Some (page_rounded_size l) \<and> get_addr_soft s' i = p \<and>
    (\<forall>mmap off'. get_addr with_image mmap s' (Some (i, off')) = Done (s', p + off'))"
proof -
  let ?tp = "fs_base s"
  obtain src where src: "tls_module_at s i = Some (Dynamic info (Some src))" "with_image src = Some img"
    using acc by (auto simp: first_access_def)
  obtain h where h: "dtv_ok ?tp h" "live h = (live (tls_heap s))(p \<mapsto> page_rounded_size l)"
    "read_list (bytes_of h) p (unat (tls_memsz info)) = img @ replicate (unat (tls_memsz info) - length img) 0"
    "dtv_base ?tp h = dtv_base ?tp (tls_heap s)"
    "allocate_dynamic_block with_image (Some p) s ?tp i info (Some src) =
       (case set_dtv_value h ?tp i p p of
          (h3, False) \<Rightarrow> Done (s\<lparr>tls_heap := dealloc h3 p l\<rparr>, None)
        | (h3, True) \<Rightarrow> Done (s\<lparr>tls_heap := h3, dynamic_tls_blocks := dynamic_tls_blocks s @
             [\<lparr>blk_tp = ?tp, blk_ptr = p, blk_layout = l\<rparr>]\<rparr>, Some p))"
    by (rule allocate_first_access [OF acc src])
  have p: "p \<noteq> 0" and none: "dtv_value (tls_heap s) ?tp i = None" and tp: "?tp \<noteq> 0"
    and lay: "dynamic_layout info = Some l"
    and ap: "apart (dtv_base ?tp (tls_heap s)) 1056 p (unat (size l))"
    using acc dtv_okD(1) by (auto simp: first_access_def)
  have i0: "i \<noteq> 0" using tls_module_at_range [OF src(1)] by simp
  have stored: "snd (set_dtv_value h ?tp i p p)" using dtv.put_succeeds [OF h(1)] i0 i by simp
  then obtain h3 where pair: "set_dtv_value h ?tp i p p = (h3, True)" by (cases "set_dtv_value h ?tp i p p") auto
  let ?s' = "s\<lparr>tls_heap := h3, dynamic_tls_blocks := dynamic_tls_blocks s @
             [\<lparr>blk_tp = ?tp, blk_ptr = p, blk_layout = l\<rparr>]\<rparr>"
  have val: "dtv_value h3 ?tp i = Some p" using dtv.get_same [OF h(1) stored] p pair by simp
  have first: "get_addr with_image (Some p) s (Some (i, off)) = Done (?s', p + off)"
    using h(5) pair src(1) none tp by (simp add: get_addr_def dynamic_tls_addr_def)
  have sz: "unat (tls_memsz info) \<le> unat (size l)"
    using lay by (auto simp: dynamic_layout_def dest!: from_size_align_size)
      (simp add: max_def word_le_nat_alt)
  have "apart p (unat (tls_memsz info)) (dtv_base ?tp h) 1056"
    using apart_subset [OF ap, of 0 "unat (tls_memsz info)"] sz h(4) by (simp add: apart_sym)
  then have img: "read_list (bytes_of h3) p (unat (tls_memsz info)) =
      img @ replicate (unat (tls_memsz info) - length img) 0"
    using set_dtv_value_read_apart [OF h(1), of p "unat (tls_memsz info)" i p p] h(3) pair by simp
  have live: "live h3 = live h" using pair by (auto simp: set_dtv_value_def split: option.splits)
  have again: "get_addr with_image mmap ?s' (Some (i, off')) = Done (?s', p + off')" for mmap off'
    using src(1) tp val by (simp add: get_addr_def dynamic_tls_addr_def tls_module_at_def)
  show ?thesis
    using first img live h(2) again val tp by (intro exI [of _ ?s']) (simp add: get_addr_soft_def)
qed

text \<open>The vector has 64 slots and module ids are never reused, so a dynamic module with a larger id
  has no storage: the access returns a null pointer, and the block allocated for it is unmapped again.\<close>

theorem get_addr_beyond_dtv:
  assumes acc: "first_access with_image s i info img l p" and i: "64 < unat i" and fresh: "live (tls_heap s) p = None"
  shows "\<exists>s'. get_addr with_image (Some p) s (Some (i, off)) = Done (s', 0) \<and>
    live (tls_heap s') = live (tls_heap s) \<and> dynamic_tls_blocks s' = dynamic_tls_blocks s"
proof -
  let ?tp = "fs_base s"
  obtain src where src: "tls_module_at s i = Some (Dynamic info (Some src))" "with_image src = Some img"
    using acc by (auto simp: first_access_def)
  obtain h where h: "dtv_ok ?tp h" "live h = (live (tls_heap s))(p \<mapsto> page_rounded_size l)"
    "allocate_dynamic_block with_image (Some p) s ?tp i info (Some src) =
       (case set_dtv_value h ?tp i p p of
          (h3, False) \<Rightarrow> Done (s\<lparr>tls_heap := dealloc h3 p l\<rparr>, None)
        | (h3, True) \<Rightarrow> Done (s\<lparr>tls_heap := h3, dynamic_tls_blocks := dynamic_tls_blocks s @
             [\<lparr>blk_tp = ?tp, blk_ptr = p, blk_layout = l\<rparr>]\<rparr>, Some p))"
    by (rule allocate_first_access [OF acc src])
  have none: "dtv_value (tls_heap s) ?tp i = None" and tp: "?tp \<noteq> 0"
    using acc dtv_okD(1) by (auto simp: first_access_def)
  have "\<not> snd (set_dtv_value h ?tp i p p)" using dtv.put_succeeds [OF h(1)] i by simp
  then have "set_dtv_value h ?tp i p p = (h, False)" using dtv.put_fails [OF h(1)] by (metis prod.collapse)
  then have "get_addr with_image (Some p) s (Some (i, off)) = Done (s\<lparr>tls_heap := dealloc h p l\<rparr>, 0)"
    using h(3) src(1) none tp by (simp add: get_addr_def dynamic_tls_addr_def)
  moreover have "live (dealloc h p l) = live (tls_heap s)" using h(2) fresh by (auto simp: dealloc_def)
  ultimately show ?thesis by (intro exI [of _ "s\<lparr>tls_heap := dealloc h p l\<rparr>"]) simp
qed

section \<open>Releasing the blocks of a thread\<close>

lemma swap_remove_mset:
  assumes "i < length xs"
  shows "mset xs = add_mset (xs ! i) (mset (swap_remove xs i))"
proof -
  let ?ys = "xs[i := last xs]"
  have ne: "?ys \<noteq> []" using assms by auto
  have lst: "last ?ys = last xs"
    using assms ne by (subst last_conv_nth) (auto simp: nth_list_update last_conv_nth)
  have "add_mset (last xs) (mset (butlast ?ys)) = mset ?ys"
    using ne lst by (metis append_butlast_last_id mset_append mset_single_iff union_mset_add_mset_right add.right_neutral mset.simps)
  also have "\<dots> = add_mset (last xs) (mset xs - {#xs ! i#})" using assms by (rule mset_update)
  finally have "mset (swap_remove xs i) = mset xs - {#xs ! i#}" by (simp add: swap_remove_def)
  then show ?thesis using assms by simp
qed

lemma length_swap_remove: "length (swap_remove xs i) = length xs - 1"
  by (simp add: swap_remove_def)

lemma swap_remove_before: "j < i \<Longrightarrow> i < length xs \<Longrightarrow> swap_remove xs i ! j = xs ! j"
  by (simp add: swap_remove_def nth_butlast)

lemma free_blocks_loop_mset:
  assumes "\<forall>j<index. blk_tp (blocks ! j) \<noteq> tp" "index \<le> length blocks"
    "free_blocks_loop tp blocks index h = (blocks', h')"
  shows "mset blocks' = filter_mset (\<lambda>b. blk_tp b \<noteq> tp) (mset blocks)"
  using assms
proof (induction tp blocks index h rule: free_blocks_loop.induct)
  case (1 tp blocks index h)
  show ?case
  proof (cases "index < length blocks")
    case False
    then have "\<forall>b\<in>set blocks. blk_tp b \<noteq> tp" using 1(3,4) by (auto simp: in_set_conv_nth)
    moreover have "blocks' = blocks" using 1(5) False by (subst (asm) free_blocks_loop.simps) simp
    moreover have "filter (\<lambda>b. blk_tp b \<noteq> tp) blocks = blocks" using calculation(1) by simp
    ultimately show ?thesis by (metis mset_filter)
  next
    case True
    show ?thesis
    proof (cases "blk_tp (blocks ! index) = tp")
      case True
      let ?b = "blocks ! index"
      have "mset blocks' = filter_mset (\<lambda>b. blk_tp b \<noteq> tp) (mset (swap_remove blocks index))"
      proof (rule 1(1) [OF \<open>index < length blocks\<close> True])
        show "\<forall>j<index. blk_tp (swap_remove blocks index ! j) \<noteq> tp"
          using 1(3) \<open>index < length blocks\<close> by (simp add: swap_remove_before)
        show "index \<le> length (swap_remove blocks index)"
          using \<open>index < length blocks\<close> by (simp add: length_swap_remove)
        show "free_blocks_loop tp (swap_remove blocks index) index (dealloc h (blk_ptr ?b) (blk_layout ?b)) = (blocks', h')"
          using 1(5) \<open>index < length blocks\<close> True by (subst (asm) free_blocks_loop.simps) simp
      qed
      then show ?thesis using swap_remove_mset [OF \<open>index < length blocks\<close>] True by simp
    next
      case False
      show ?thesis
      proof (rule 1(2) [OF \<open>index < length blocks\<close> False])
        show "\<forall>j<index + 1. blk_tp (blocks ! j) \<noteq> tp" using 1(3) False by (simp add: less_Suc_eq)
        show "index + 1 \<le> length blocks" using \<open>index < length blocks\<close> by simp
        show "free_blocks_loop tp blocks (index + 1) h = (blocks', h')"
          using 1(5) \<open>index < length blocks\<close> False by (subst (asm) free_blocks_loop.simps) simp
      qed
    qed
  qed
qed

definition blocks_live :: "dynamic_tls_block list \<Rightarrow> heap \<Rightarrow> bool" where
  "blocks_live blocks h \<longleftrightarrow> distinct (map blk_ptr blocks) \<and>
     (\<forall>b\<in>set blocks. live h (blk_ptr b) = Some (page_rounded_size (blk_layout b)))"

lemma blocks_live_remove:
  assumes "blocks_live blocks h" "i < length blocks"
  defines "b \<equiv> blocks ! i"
  shows "blocks_live (swap_remove blocks i) (dealloc h (blk_ptr b) (blk_layout b))"
    and "live (dealloc h (blk_ptr b) (blk_layout b)) = (live h)(blk_ptr b := None)"
    and "set blocks = insert b (set (swap_remove blocks i))"
proof -
  have ms: "mset blocks = mset (b # swap_remove blocks i)"
    using swap_remove_mset [OF assms(2)] unfolding b_def by simp
  then show st: "set blocks = insert b (set (swap_remove blocks i))" by (metis list.simps(15) mset_eq_setD)
  from ms have "mset (map blk_ptr blocks) = mset (map blk_ptr (b # swap_remove blocks i))" by simp
  then have d: "distinct (map blk_ptr (b # swap_remove blocks i))"
    using assms(1) unfolding blocks_live_def by (metis mset_eq_imp_distinct_iff)
  have "b \<in> set blocks" using assms(2) unfolding b_def by simp
  then show lv: "live (dealloc h (blk_ptr b) (blk_layout b)) = (live h)(blk_ptr b := None)"
    using assms(1) by (simp add: blocks_live_def dealloc_def)
  show "blocks_live (swap_remove blocks i) (dealloc h (blk_ptr b) (blk_layout b))"
  proof -
    have "blk_ptr b' \<noteq> blk_ptr b" if "b' \<in> set (swap_remove blocks i)" for b'
    proof
      assume "blk_ptr b' = blk_ptr b"
      then have "blk_ptr b \<in> blk_ptr ` set (swap_remove blocks i)" using that by (metis imageI)
      with d show False by simp
    qed
    with assms(1) d st show ?thesis by (simp add: blocks_live_def lv)
  qed
qed

lemma free_blocks_loop_live:
  assumes "blocks_live blocks h" "\<forall>j<index. blk_tp (blocks ! j) \<noteq> tp" "index \<le> length blocks"
    "free_blocks_loop tp blocks index h = (blocks', h')"
  shows "live h' = (\<lambda>a. if a \<in> blk_ptr ` {b \<in> set blocks. blk_tp b = tp} then None else live h a)"
  using assms
proof (induction tp blocks index h rule: free_blocks_loop.induct)
  case (1 tp blocks index h)
  show ?case
  proof (cases "index < length blocks")
    case False
    then have "\<forall>b\<in>set blocks. blk_tp b \<noteq> tp" using 1(4,5) by (auto simp: in_set_conv_nth)
    then have none: "{b \<in> set blocks. blk_tp b = tp} = {}" by blast
    moreover have "h' = h" using 1(6) False by (subst (asm) free_blocks_loop.simps) simp
    ultimately show ?thesis by (simp add: none)
  next
    case True
    show ?thesis
    proof (cases "blk_tp (blocks ! index) = tp")
      case True
      let ?b = "blocks ! index"
      note rm = blocks_live_remove [OF 1(3) \<open>index < length blocks\<close>]
      have "live h' = (\<lambda>a. if a \<in> blk_ptr ` {b \<in> set (swap_remove blocks index). blk_tp b = tp} then None
          else live (dealloc h (blk_ptr ?b) (blk_layout ?b)) a)"
      proof (rule 1(1) [OF \<open>index < length blocks\<close> True rm(1)])
        show "\<forall>j<index. blk_tp (swap_remove blocks index ! j) \<noteq> tp"
          using 1(4) \<open>index < length blocks\<close> by (simp add: swap_remove_before)
        show "index \<le> length (swap_remove blocks index)"
          using \<open>index < length blocks\<close> by (simp add: length_swap_remove)
        show "free_blocks_loop tp (swap_remove blocks index) index (dealloc h (blk_ptr ?b) (blk_layout ?b)) = (blocks', h')"
          using 1(6) \<open>index < length blocks\<close> True by (subst (asm) free_blocks_loop.simps) simp
      qed
      then show ?thesis using True by (auto simp: rm(2,3) fun_eq_iff)
    next
      case False
      show ?thesis
      proof (rule 1(2) [OF \<open>index < length blocks\<close> False 1(3)])
        show "\<forall>j<index + 1. blk_tp (blocks ! j) \<noteq> tp" using 1(4) False by (simp add: less_Suc_eq)
        show "index + 1 \<le> length blocks" using \<open>index < length blocks\<close> by simp
        show "free_blocks_loop tp blocks (index + 1) h = (blocks', h')"
          using 1(6) \<open>index < length blocks\<close> False by (subst (asm) free_blocks_loop.simps) simp
      qed
    qed
  qed
qed

text \<open>C24. When a thread ends, exactly its dynamic blocks are removed from the list and unmapped; the
  blocks of other threads stay recorded and mapped.\<close>

theorem free_dynamic_blocks_correct:
  assumes "blocks_live (dynamic_tls_blocks s) (tls_heap s)"
  shows "mset (dynamic_tls_blocks (free_dynamic_blocks s tp)) =
      filter_mset (\<lambda>b. blk_tp b \<noteq> tp) (mset (dynamic_tls_blocks s)) \<and>
    live (tls_heap (free_dynamic_blocks s tp)) =
      (\<lambda>a. if a \<in> blk_ptr ` {b \<in> set (dynamic_tls_blocks s). blk_tp b = tp} then None else live (tls_heap s) a)"
proof -
  obtain bs h where r: "free_blocks_loop tp (dynamic_tls_blocks s) 0 (tls_heap s) = (bs, h)" by fastforce
  then have f: "free_dynamic_blocks s tp = s\<lparr>dynamic_tls_blocks := bs, tls_heap := h\<rparr>"
    by (simp add: free_dynamic_blocks_def)
  show ?thesis
    using free_blocks_loop_mset [OF _ _ r] free_blocks_loop_live [OF assms _ _ r] by (simp add: f)
qed

definition sample_blocks :: "bytes tls_state" where
  "sample_blocks = (tls_start (zero_heap\<lparr>live := [0x30000 \<mapsto> 4096, 0x31000 \<mapsto> 4096]\<rparr>) 0x10000)
     \<lparr>dynamic_tls_blocks := [\<lparr>blk_tp = 0x10000, blk_ptr = 0x30000, blk_layout = \<lparr>size = 8, align = 8\<rparr>\<rparr>,
        \<lparr>blk_tp = 0x20000, blk_ptr = 0x31000, blk_layout = \<lparr>size = 8, align = 8\<rparr>\<rparr>]\<rparr>"

theorem free_dynamic_blocks_correct_witness:
  "live (tls_heap (free_dynamic_blocks sample_blocks 0x10000)) 0x30000 = None"
proof -
  have "blocks_live (dynamic_tls_blocks sample_blocks) (tls_heap sample_blocks)"
    by (simp add: sample_blocks_def blocks_live_def tls_start_def page_rounded_size_def max_def)
  note eq = conjunct2 [OF free_dynamic_blocks_correct [OF this, of "0x10000"]]
  have "0x30000 \<in> blk_ptr ` {b \<in> set (dynamic_tls_blocks sample_blocks). blk_tp b = 0x10000}"
    by (force simp: sample_blocks_def)
  with eq show ?thesis by simp
qed

definition sample_dynamic :: "nat \<Rightarrow> bytes tls_state" where
  "sample_dynamic n = (tls_start sample_tcb 0x10000)
     \<lparr>tls_modules := replicate n None @ [Some (Dynamic \<lparr>tls_vaddr = 0, tls_memsz = 8, tls_align = 8\<rparr> (Some [1, 2, 3]))]\<rparr>"

lemma sample_first_access:
  assumes "n = 0 \<and> i = 1 \<or> n = 64 \<and> i = 65"
  shows "first_access Some (sample_dynamic n) i \<lparr>tls_vaddr = 0, tls_memsz = 8, tls_align = 8\<rparr> [1, 2, 3]
    \<lparr>size = 8, align = 8\<rparr> 0x30000"
proof -
  have m: "tls_module_at (sample_dynamic n) i = Some (Dynamic \<lparr>tls_vaddr = 0, tls_memsz = 8, tls_align = 8\<rparr> (Some [1, 2, 3]))"
    using assms by (auto simp: sample_dynamic_def tls_start_def tls_module_at_def slot_of_def nth_append)
  have l: "dynamic_layout \<lparr>tls_vaddr = 0, tls_memsz = 8, tls_align = 8\<rparr> = Some \<lparr>size = 8, align = 8\<rparr>"
    by (simp add: dynamic_layout_def checked_next_power_of_two_def max_def word_le_nat_alt upt_rec from_size_align_def)
      (rule exI [of _ 3], simp)
  have b: "dtv_base 0x10000 sample_tcb = 0x20000"
  proof -
    have "apart (0 + of_nat 0x10008) 8 (0 + of_nat 0x20000) 8" by (rule apart_offsets) auto
    then show ?thesis
      by (simp add: dtv_base_def sample_tcb_def zero_heap_def TCB_DTV_OFFSET_def entry_size_def read_write_usize_apart)
  qed
  have v: "dtv_value sample_tcb 0x10000 i = None"
  proof -
    have "apart (0 + of_nat 0x20020) 8 (0 + of_nat 0x20000) 8" "apart (0 + of_nat 0x20020) 8 (0 + of_nat 0x10008) 8"
      by (rule apart_offsets; simp)+
    then have "read_usize (bytes_of sample_tcb) 0x20020 = 0"
      by (simp add: sample_tcb_def zero_heap_def read_write_usize_apart)
        (simp add: read_usize_def read_list_def le_nat_zeros)
    with assms show ?thesis by (auto simp: dtv_value_def dtv_entry_eq [OF sample_tcb_ok] b)
  qed
  have "apart (0 + of_nat 0x10008) 8 (0 + of_nat 0x30000) 8" "apart (0 + of_nat 0x20000) 1056 (0 + of_nat 0x30000) 8"
    by (rule apart_offsets; simp)+
  then show ?thesis
    using m l v sample_tcb_ok b by (simp add: first_access_def) (simp add: sample_dynamic_def tls_start_def TCB_DTV_OFFSET_def)
qed

theorem get_addr_dynamic_witness:
  "\<exists>s'. get_addr Some (Some 0x30000) (sample_dynamic 0) (Some (1, 2)) = Done (s', 0x30002) \<and>
     read_list (bytes_of (tls_heap s')) 0x30000 8 = [1, 2, 3, 0, 0, 0, 0, 0]"
proof -
  have "[1, 2, 3] @ replicate 5 0 = ([1, 2, 3, 0, 0, 0, 0, 0] :: bytes)" by (simp add: eval_nat_numeral)
  with get_addr_dynamic [OF sample_first_access [of 0 1], of 2] show ?thesis by auto
qed

theorem get_addr_beyond_dtv_witness:
  "\<exists>s'. get_addr Some (Some 0x30000) (sample_dynamic 64) (Some (65, 2)) = Done (s', 0)"
proof -
  have "live (tls_heap (sample_dynamic 64)) 0x30000 = None"
    by (simp add: sample_dynamic_def tls_start_def sample_tcb_def zero_heap_def)
  with get_addr_beyond_dtv [OF sample_first_access [of 64 65], of 2] show ?thesis by auto
qed

end
