(* ===== verification/Tls_Resolver.thy ===== *)
theory Tls_Resolver
  imports Tls
begin

text \<open>
  The bridge between the loader and the interpreter's TLS registry (\<open>mod tls\<close> of
  \<open>src/src/runtime/rtld.rs\<close> and \<open>install_resolver_ops\<close> of \<open>src/rtld/impl/src/tls.rs\<close>): the table of
  operations the interpreter installs, and the resolver that \<open>elf_loader\<close> calls, which remembers the
  thread-pointer offset of every module it registered.  What the resolver needs of the table is the locale
  \<open>tls_provider\<close>; the registry of theory \<open>Tls\<close> is shown to provide it.  \<open>elf_loader\<close>'s own resolver, used
  when nothing is installed, is an argument.
\<close>

section \<open>Resolver\<close>

datatype tls_request = ReqDynamic | ReqStatic "usize option"

datatype module_tls = DynamicTls usize | StaticTls usize usize

fun mod_id :: "module_tls \<Rightarrow> usize" where
  "mod_id (DynamicTls i) = i"
| "mod_id (StaticTls i off) = i"

fun tp_offset :: "module_tls \<Rightarrow> usize option" where
  "tp_offset (DynamicTls i) = None"
| "tp_offset (StaticTls i off) = Some off"

record ('s, 'src, 'e) tls_ops =
  op_register :: "'s \<Rightarrow> tls_info \<Rightarrow> ('s \<times> ('e + usize)) run"
  op_register_static :: "'s \<Rightarrow> tls_info \<Rightarrow> ('s \<times> ('e + usize \<times> usize)) run"
  op_add_static :: "'s \<Rightarrow> tls_info \<Rightarrow> usize \<Rightarrow> ('s \<times> ('e + usize)) run"
  op_init :: "'s \<Rightarrow> 'src \<Rightarrow> usize \<Rightarrow> usize option \<Rightarrow> ('s \<times> ('e + unit)) run"
  op_unregister :: "'s \<Rightarrow> usize \<Rightarrow> 's"
  op_get_addr :: usize
  op_get_addr_soft :: "'s \<Rightarrow> usize \<Rightarrow> usize"

record ('s, 'src, 'e) default_resolver =
  dflt_register :: "'s \<Rightarrow> tls_info \<Rightarrow> tls_request \<Rightarrow> ('s \<times> ('e + module_tls)) run"
  dflt_publish :: "'s \<Rightarrow> 'src \<Rightarrow> usize \<Rightarrow> ('s \<times> ('e + unit)) run"
  dflt_unregister :: "'s \<Rightarrow> usize \<Rightarrow> 's"
  dflt_bind_get_addr :: "'e + usize"
  dflt_get_ptr :: "'s \<Rightarrow> usize \<Rightarrow> usize option"

record 's resolver =
  backend :: 's
  recorded :: "(usize \<times> usize option) list"

text \<open>\<open>RTLD_TLS_OPS\<close> keeps the first table that is registered.\<close>

definition register_ops :: "'o option \<Rightarrow> 'o \<Rightarrow> 'o option" where
  "register_ops installed ops = (case installed of None \<Rightarrow> Some ops | Some o' \<Rightarrow> Some o')"

definition tls_get_addr_soft ::
  "(usize \<Rightarrow> bool) \<Rightarrow> ('s, 'src, 'e) tls_ops option \<Rightarrow> ('s, 'src, 'e) default_resolver \<Rightarrow> 's resolver \<Rightarrow> usize \<Rightarrow> usize" where
  "tls_get_addr_soft is_reserved installed dflt r i =
     (if is_reserved i then 0
      else case installed of
          Some ops \<Rightarrow> op_get_addr_soft ops (backend r) i
        | None \<Rightarrow> (case dflt_get_ptr dflt (backend r) i of None \<Rightarrow> 0 | Some p \<Rightarrow> p))"

definition request_module ::
  "('s, 'src, 'e) tls_ops \<Rightarrow> 's \<Rightarrow> tls_info \<Rightarrow> tls_request \<Rightarrow> ('s \<times> ('e + module_tls)) run" where
  "request_module ops s info req =
     (case req of
        ReqDynamic \<Rightarrow> run_bind (op_register ops s info) (\<lambda>(s1, r). Done (s1, map_sum id DynamicTls r))
      | ReqStatic None \<Rightarrow>
          run_bind (op_register_static ops s info) (\<lambda>(s1, r). Done (s1, map_sum id (\<lambda>(i, off). StaticTls i off) r))
      | ReqStatic (Some off) \<Rightarrow>
          run_bind (op_add_static ops s info off) (\<lambda>(s1, r). Done (s1, map_sum id (\<lambda>i. StaticTls i off) r)))"

definition resolver_register ::
  "('s, 'src, 'e) tls_ops option \<Rightarrow> ('s, 'src, 'e) default_resolver \<Rightarrow> 's resolver \<Rightarrow> tls_info \<Rightarrow> tls_request \<Rightarrow>
     ('s resolver \<times> ('e + module_tls)) run" where
  "resolver_register installed dflt r info req =
     (case installed of
        None \<Rightarrow> run_bind (dflt_register dflt (backend r) info req) (\<lambda>(s1, x). Done (r\<lparr>backend := s1\<rparr>, x))
      | Some ops \<Rightarrow>
          run_bind (request_module ops (backend r) info req) (\<lambda>(s1, x).
          case x of
            Inl e \<Rightarrow> Done (r\<lparr>backend := s1\<rparr>, Inl e)
          | Inr m \<Rightarrow> Done (r\<lparr>backend := s1, recorded := recorded r @ [(mod_id m, tp_offset m)]\<rparr>, Inr m)))"

definition recorded_offset :: "'s resolver \<Rightarrow> usize \<Rightarrow> usize option" where
  "recorded_offset r i = Option.bind (find (\<lambda>e. fst e = i) (recorded r)) snd"

definition resolver_publish ::
  "('s, 'src, 'e) tls_ops option \<Rightarrow> ('s, 'src, 'e) default_resolver \<Rightarrow> 's resolver \<Rightarrow> 'src \<Rightarrow> usize \<Rightarrow>
     ('s resolver \<times> ('e + unit)) run" where
  "resolver_publish installed dflt r source i =
     (case installed of
        None \<Rightarrow> run_bind (dflt_publish dflt (backend r) source i) (\<lambda>(s1, x). Done (r\<lparr>backend := s1\<rparr>, x))
      | Some ops \<Rightarrow>
          run_bind (op_init ops (backend r) source i (recorded_offset r i)) (\<lambda>(s1, x). Done (r\<lparr>backend := s1\<rparr>, x)))"

definition resolver_unregister ::
  "('s, 'src, 'e) tls_ops option \<Rightarrow> ('s, 'src, 'e) default_resolver \<Rightarrow> 's resolver \<Rightarrow> usize \<Rightarrow> 's resolver" where
  "resolver_unregister installed dflt r i =
     (case installed of
        Some ops \<Rightarrow> r\<lparr>backend := op_unregister ops (backend r) i, recorded := filter (\<lambda>e. fst e \<noteq> i) (recorded r)\<rparr>
      | None \<Rightarrow> r\<lparr>backend := dflt_unregister dflt (backend r) i\<rparr>)"

text \<open>The address that relocations of \<open>__tls_get_addr\<close> are bound to.\<close>

definition bind_tls_get_addr ::
  "('s, 'src, 'e) tls_ops option \<Rightarrow> ('s, 'src, 'e) default_resolver \<Rightarrow> 'e + usize" where
  "bind_tls_get_addr installed dflt =
     (case installed of Some ops \<Rightarrow> Inr (op_get_addr ops) | None \<Rightarrow> dflt_bind_get_addr dflt)"

text \<open>The interpreter's table; the answers of the kernel are arguments as in \<open>Tls\<close>, and so is the address of \<open>get_addr\<close>.\<close>

definition install_resolver_ops ::
  "('src \<Rightarrow> bytes option) \<Rightarrow> usize option \<Rightarrow> usize option \<Rightarrow> bool \<Rightarrow> usize \<Rightarrow>
     ('src tls_state, 'src, tls_error) tls_ops" where
  "install_resolver_ops with_image mmap_area mmap_dtv set_fs get_addr_entry =
     \<lparr>op_register = (\<lambda>s info. Done (register_dynamic_module s info)),
      op_register_static = register_static_module mmap_area mmap_dtv set_fs,
      op_add_static = (\<lambda>s info off. Done (add_static_module s info off)),
      op_init = init_tls_module with_image,
      op_unregister = unregister_module,
      op_get_addr = get_addr_entry,
      op_get_addr_soft = get_addr_soft\<rparr>"

section \<open>The contract\<close>

text \<open>\<open>kind s i\<close> is \<open>None\<close> for an id that is not in use, and otherwise the offset of a static module or
  \<open>None\<close> for a dynamic one; \<open>fits s src i\<close> says that the image of the source is not longer than the module.\<close>

locale tls_provider =
  fixes ops :: "('s, 'src, 'e) tls_ops" and kind :: "'s \<Rightarrow> usize \<rightharpoonup> usize option"
    and fits :: "'s \<Rightarrow> 'src \<Rightarrow> usize \<Rightarrow> bool"
  assumes register: "op_register ops s info = Done (s', Inr i) \<Longrightarrow> kind s i = None \<and> kind s' = (kind s)(i \<mapsto> None)"
    and register_error: "op_register ops s info = Done (s', Inl e) \<Longrightarrow> kind s' = kind s"
    and register_static:
      "op_register_static ops s info = Done (s', Inr (i, off)) \<Longrightarrow> kind s i = None \<and> kind s' = (kind s)(i \<mapsto> Some off)"
    and register_static_error: "op_register_static ops s info = Done (s', Inl e) \<Longrightarrow> kind s' = kind s"
    and add_static: "op_add_static ops s info off = Done (s', Inr i) \<Longrightarrow> kind s i = None \<and> kind s' = (kind s)(i \<mapsto> Some off)"
    and add_static_error: "op_add_static ops s info off = Done (s', Inl e) \<Longrightarrow> kind s' = kind s"
    and init_keeps: "op_init ops s src i place = Done (s', x) \<Longrightarrow> kind s' = kind s"
    and init_accepts: "kind s i = Some place \<Longrightarrow> fits s src i \<Longrightarrow> \<exists>s'. op_init ops s src i place = Done (s', Inr ())"
    and unregister: "kind (op_unregister ops s i) = (kind s)(i := None)"
begin

text \<open>The records of the resolver agree with the registry.\<close>

definition synced :: "'s resolver \<Rightarrow> bool" where
  "synced r \<longleftrightarrow> map_of (recorded r) = kind (backend r)"

lemma synced_append:
  assumes "synced r" "kind (backend r) i = None" "kind s' = (kind (backend r))(i \<mapsto> off)"
  shows "synced (r\<lparr>backend := s', recorded := recorded r @ [(i, off)]\<rparr>)"
proof -
  have "map_of (recorded r @ [(i, off)]) k = ((kind (backend r))(i \<mapsto> off)) k" for k
    using assms(1,2) by (auto simp: synced_def map_add_def split: option.split)
  then show ?thesis using assms(3) by (auto simp: synced_def)
qed

lemma synced_error: "synced r \<Longrightarrow> kind s' = kind (backend r) \<Longrightarrow> synced (r\<lparr>backend := s'\<rparr>)"
  by (simp add: synced_def)

lemma request_module_ok:
  assumes "request_module ops s info req = Done (s', x)"
  shows "case x of Inl e \<Rightarrow> kind s' = kind s
    | Inr m \<Rightarrow> kind s (mod_id m) = None \<and> kind s' = (kind s)(mod_id m \<mapsto> tp_offset m)"
proof (cases req)
  case ReqDynamic
  then obtain y where "op_register ops s info = Done (s', y)" "x = map_sum id DynamicTls y"
    using assms by (auto simp: request_module_def run_bind_Done)
  then show ?thesis using register register_error by (cases y) auto
next
  case (ReqStatic want)
  show ?thesis
  proof (cases want)
    case None
    then obtain y where "op_register_static ops s info = Done (s', y)" "x = map_sum id (\<lambda>(i, off). StaticTls i off) y"
      using assms ReqStatic by (auto simp: request_module_def run_bind_Done)
    then show ?thesis using register_static register_static_error by (cases y) (auto split: prod.split)
  next
    case (Some off)
    then obtain y where "op_add_static ops s info off = Done (s', y)" "x = map_sum id (\<lambda>i. StaticTls i off) y"
      using assms ReqStatic by (auto simp: request_module_def run_bind_Done)
    then show ?thesis using add_static add_static_error by (cases y) auto
  qed
qed

lemma synced_register:
  assumes "synced r" "resolver_register (Some ops) dflt r info req = Done (r', x)"
  shows "synced r'"
proof -
  obtain s1 y where y: "request_module ops (backend r) info req = Done (s1, y)"
    and r': "r' = (case y of Inl e \<Rightarrow> r\<lparr>backend := s1\<rparr>
      | Inr m \<Rightarrow> r\<lparr>backend := s1, recorded := recorded r @ [(mod_id m, tp_offset m)]\<rparr>)"
    using assms(2) by (fastforce simp: resolver_register_def run_bind_Done split: sum.split_asm)
  show ?thesis
    using request_module_ok [OF y] synced_append [OF assms(1)] synced_error [OF assms(1)] by (auto simp: r' split: sum.splits)
qed

lemma synced_publish:
  "synced r \<Longrightarrow> resolver_publish (Some ops) dflt r src i = Done (r', x) \<Longrightarrow> synced r'"
  by (auto simp: resolver_publish_def run_bind_Done dest: init_keeps intro: synced_error)

lemma synced_unregister: "synced r \<Longrightarrow> synced (resolver_unregister (Some ops) dflt r i)"
proof -
  have "map_of (filter (\<lambda>e. fst e \<noteq> i) xs) = (map_of xs)(i := None)" for xs :: "(usize \<times> usize option) list"
    by (induction xs) (auto simp: fun_eq_iff)
  then show "synced r \<Longrightarrow> ?thesis" by (simp add: synced_def resolver_unregister_def unregister)
qed

lemma recorded_offset_eq:
  assumes "synced r" "kind (backend r) i = Some off"
  shows "recorded_offset r i = off"
proof -
  have "map_option snd (find (\<lambda>e. fst e = i) xs) = map_of xs i" for xs :: "(usize \<times> usize option) list"
    by (induction xs) auto
  then have "map_option snd (find (\<lambda>e. fst e = i) (recorded r)) = Some off" using assms by (simp add: synced_def)
  then show ?thesis by (auto simp: recorded_offset_def)
qed

lemma publish_accepted:
  assumes "synced r" "kind (backend r) i \<noteq> None" "fits (backend r) src i"
  obtains s' where "resolver_publish (Some ops) dflt r src i = Done (r\<lparr>backend := s'\<rparr>, Inr ())"
proof -
  obtain place where place: "kind (backend r) i = Some place" using assms(2) by auto
  then obtain s' where "op_init ops (backend r) src i place = Done (s', Inr ())" using init_accepts assms(3) by blast
  then show thesis using that recorded_offset_eq [OF assms(1) place] by (simp add: resolver_publish_def)
qed

end

section \<open>The registry provides it\<close>

definition tls_kind :: "'src tls_state \<Rightarrow> usize \<rightharpoonup> usize option" where
  "tls_kind s i =
     (case tls_module_at s i of None \<Rightarrow> None | Some (Dynamic _ _) \<Rightarrow> Some None | Some (Static _ off) \<Rightarrow> Some (Some off))"

definition image_fits :: "('src \<Rightarrow> bytes option) \<Rightarrow> 'src tls_state \<Rightarrow> 'src \<Rightarrow> usize \<Rightarrow> bool" where
  "image_fits with_image s source i =
     (case (tls_module_at s i, with_image source) of
        (Some (Static info _), Some img) \<Rightarrow> length img \<le> unat (tls_memsz info)
      | _ \<Rightarrow> True)"

lemma tls_kind_cong: "tls_modules s' = tls_modules s \<Longrightarrow> tls_kind s' = tls_kind s"
  by (simp add: fun_eq_iff tls_kind_def tls_module_at_def)

lemma tls_kind_append:
  assumes "unat i = length (tls_modules s) + 1" "tls_modules s' = tls_modules s @ [Some m]"
  shows "tls_kind s i = None \<and>
    tls_kind s' = (tls_kind s)(i \<mapsto> (case m of Dynamic _ _ \<Rightarrow> None | Static _ off \<Rightarrow> Some off))"
  using slot_of_append [OF assms(1), of "Some m"] slot_of_fresh [OF assms(1)] assms(2)
  by (auto simp: fun_eq_iff tls_kind_def tls_module_at_def split: tls_module.split)

lemma tls_kind_register:
  assumes "register_module s m = (s', r)"
  shows "case r of Inl e \<Rightarrow> s' = s
    | Inr i \<Rightarrow> unat i = length (tls_modules s) + 1 \<and> tls_modules s' = tls_modules s @ [Some m]"
  using assms by (cases rule: register_moduleE) auto

lemma tls_kind_place:
  assumes "place_static_module s area info = (s', r)"
  shows "case r of Inl e \<Rightarrow> s' = s
    | Inr (i, off) \<Rightarrow> tls_kind s i = None \<and> tls_kind s' = (tls_kind s)(i \<mapsto> Some off)"
  using assms
proof (cases rule: place_static_moduleE)
  case (placed k used n s1 i)
  have "unat i = length (tls_modules s) + 1 \<and> tls_modules s' = tls_modules s @ [Some (Static info (- used))]"
    using tls_kind_register [OF placed(6)] placed(8) by simp
  then show ?thesis using tls_kind_append [of i s s'] placed(7) by (simp del: fun_upd_apply)
qed simp

lemma tls_kind_register_static:
  assumes "register_static_module mmap_area mmap_dtv set_fs s info = Done (s', r)"
  shows "case r of Inl e \<Rightarrow> tls_kind s' = tls_kind s
    | Inr (i, off) \<Rightarrow> tls_kind s i = None \<and> tls_kind s' = (tls_kind s)(i \<mapsto> Some off)"
proof (cases "static_tls s")
  case None
  then obtain s1 q where e: "ensure_static_tls_area mmap_area mmap_dtv set_fs s = Done (s1, q)"
    and q: "(case q of Inl e \<Rightarrow> Done (s1, Inl e)
      | Inr area \<Rightarrow> Done (place_static_module (s1\<lparr>static_tls := Some area\<rparr>) area info)) = Done (s', r)"
    using assms by (auto simp: register_static_module_def run_bind_Done)
  from e have kind: "tls_kind (s1\<lparr>static_tls := x\<rparr>) = tls_kind s" "tls_kind s1 = tls_kind s" for x
    by (auto elim!: ensure_static_tls_areaE intro: tls_kind_cong)
  show ?thesis
  proof (cases q)
    case (Inl e)
    then show ?thesis using q kind by auto
  next
    case (Inr area)
    then have "place_static_module (s1\<lparr>static_tls := Some area\<rparr>) area info = (s', r)" using q by simp
    from tls_kind_place [OF this] show ?thesis by (auto simp: kind split: sum.split)
  qed
next
  case (Some area)
  then have "place_static_module s area info = (s', r)" using assms by (simp add: register_static_module_def)
  from tls_kind_place [OF this] show ?thesis by (auto split: sum.split)
qed

lemma tls_kind_set_slot:
  assumes "raw \<noteq> 0" "unat raw - 1 < length (tls_modules s)"
  shows "tls_kind (set_slot s raw m) =
    (tls_kind s)(raw := map_option (\<lambda>m. case m of Dynamic _ _ \<Rightarrow> None | Static _ off \<Rightarrow> Some off) m)"
  using assms slot_of_update [OF assms(1), of "tls_modules s"]
  by (auto simp: fun_eq_iff tls_kind_def tls_module_at_def set_slot_def split: option.split tls_module.split)

lemma tls_kind_unregister: "tls_kind (unregister_module s raw) = (tls_kind s)(raw := None)"
proof (cases "raw \<noteq> 0 \<and> unat raw - 1 < length (tls_modules s)")
  case True
  have "tls_kind (unregister_module s raw) = tls_kind (set_slot s raw None)"
    using True by (intro tls_kind_cong) (simp add: unregister_module_def Let_def)
  then show ?thesis using True tls_kind_set_slot [of raw s None] by simp
next
  case False
  then have "tls_kind s raw = None" by (auto simp: tls_kind_def tls_module_at_def slot_of_def)
  moreover have "tls_kind (unregister_module s raw) = tls_kind s"
    using False by (intro tls_kind_cong) (auto simp: unregister_module_def set_slot_def Let_def list_update_beyond)
  ultimately show ?thesis by (simp add: fun_upd_idem)
qed

lemma tls_kind_Some:
  assumes "tls_module_at s raw = Some m"
  shows "tls_kind s raw = Some (case m of Dynamic _ _ \<Rightarrow> None | Static _ off \<Rightarrow> Some off)"
  using assms by (auto simp: tls_kind_def split: tls_module.split)

lemma tls_kind_init_static:
  assumes m: "tls_module_at s raw = Some (Static info off)"
    and r: "init_static_tls with_image s info source raw off = Done (s', x)"
  shows "tls_kind s' = tls_kind s"
proof -
  have range: "raw \<noteq> 0" "unat raw - 1 < length (tls_modules s)" using tls_module_at_range [OF m] by auto
  then have "tls_modules s' = tls_modules (set_slot s raw (Some (Static info off)))"
    using r by (auto simp: init_static_tls_def update_static_module_slot_def Let_def run_bind_Done split: option.split_asm)
  then show ?thesis using set_slot_same [OF m] by (intro tls_kind_cong) simp
qed

lemma tls_kind_init:
  assumes r: "init_tls_module with_image s source raw place = Done (s', x)"
  shows "tls_kind s' = tls_kind s"
proof (cases "tls_module_at s raw")
  case None
  then show ?thesis using r by (auto simp: init_tls_module_def)
next
  case (Some m)
  show ?thesis
  proof (cases m)
    case (Dynamic info src)
    have "raw \<noteq> 0" "unat raw - 1 < length (tls_modules s)" using tls_module_at_range [OF Some] by auto
    then show ?thesis
      using r Some Dynamic tls_kind_set_slot [of raw s "Some (Dynamic info (Some source))"] tls_kind_Some [OF Some]
      by (auto simp: init_tls_module_def init_dynamic_tls_def fun_upd_idem split: option.split_asm)
  next
    case (Static info off)
    then show ?thesis
      using r Some tls_kind_init_static
      by (auto simp: init_tls_module_def split: option.split_asm if_split_asm)
  qed
qed

lemma init_static_accepts:
  assumes m: "tls_module_at s raw = Some (Static info off)"
    and fits: "image_fits with_image s source raw"
  shows "\<exists>s'. init_static_tls with_image s info source raw off = Done (s', Inr ())"
proof -
  have "\<exists>h'. init_static_tls_module with_image tp \<lparr>st_id = raw, st_info = info, st_source = Some source, st_offset = off\<rparr> h = Done h'"
    for tp h
    using m fits
    by (auto simp: image_fits_def init_static_tls_module_def fill_block_def Let_def split: option.split_asm option.split)
  then show ?thesis
    using tls_module_at_range [OF m]
    by (auto simp: init_static_tls_def update_static_module_slot_def Let_def run_bind_Done split: option.split)
qed

lemma init_accepts_kind:
  assumes "tls_kind s raw = Some place" "image_fits with_image s source raw"
  shows "\<exists>s'. init_tls_module with_image s source raw place = Done (s', Inr ())"
proof -
  obtain m where m: "tls_module_at s raw = Some m"
    and p: "place = (case m of Dynamic _ _ \<Rightarrow> None | Static _ off \<Rightarrow> Some off)"
    using assms(1) by (auto simp: tls_kind_def split: option.split_asm tls_module.split_asm)
  show ?thesis
  proof (cases m)
    case (Dynamic info src)
    then show ?thesis
      using m p tls_module_at_range [OF m] by (auto simp: init_tls_module_def init_dynamic_tls_def)
  next
    case (Static info off)
    then show ?thesis
      using m p init_static_accepts [of s raw info off] assms(2) by (auto simp: init_tls_module_def)
  qed
qed

interpretation rtld_tls: tls_provider
  "install_resolver_ops with_image mmap_area mmap_dtv set_fs entry_addr" tls_kind "image_fits with_image"
  for with_image mmap_area mmap_dtv set_fs entry_addr
proof (unfold_locales, goal_cases)
  case (1 s info s' i)
  then show ?case
    using tls_kind_register [of s "Dynamic info None" s' "Inr i"] tls_kind_append [of i s s' "Dynamic info None"]
    by (simp add: install_resolver_ops_def register_dynamic_module_def del: fun_upd_apply)
next
  case (2 s info s' e)
  then show ?case
    using tls_kind_register [of s "Dynamic info None" s' "Inl e"]
    by (simp add: install_resolver_ops_def register_dynamic_module_def)
next
  case (3 s info s' i off)
  then show ?case using tls_kind_register_static [of _ _ _ s info s' "Inr (i, off)"]
    by (simp add: install_resolver_ops_def del: fun_upd_apply)
next
  case (4 s info s' e)
  then show ?case using tls_kind_register_static [of _ _ _ s info s' "Inl e"] by (simp add: install_resolver_ops_def)
next
  case (5 s info off s' i)
  then obtain s1 where r: "register_module s (Static info off) = (s1, Inr i)" and s': "tls_modules s' = tls_modules s1"
    by (auto simp: install_resolver_ops_def add_static_module_def split: prod.split_asm sum.split_asm)
  from tls_kind_register [OF r] show ?case
    using tls_kind_append [of i s s' "Static info off"] by (simp add: s' del: fun_upd_apply)
next
  case (6 s info off s' e)
  then have "register_module s (Static info off) = (s', Inl e)"
    by (auto simp: install_resolver_ops_def add_static_module_def split: prod.split_asm sum.split_asm)
  from tls_kind_register [OF this] show ?case by simp
next
  case (7 s src i place s' x)
  then have "init_tls_module with_image s src i place = Done (s', x)" by (simp add: install_resolver_ops_def)
  then show ?case by (rule tls_kind_init)
next
  case (8 s i place src)
  then show ?case using init_accepts_kind by (simp add: install_resolver_ops_def)
next
  case (9 s i)
  then show ?case by (simp add: install_resolver_ops_def tls_kind_unregister)
qed

section \<open>Runs\<close>

text \<open>Any sequence of calls of \<open>elf_loader\<close>, from a resolver that has registered nothing; the answers of
  the kernel differ from call to call.\<close>

inductive resolver_run ::
  "('src \<Rightarrow> bytes option) \<Rightarrow> ('src tls_state, 'src, tls_error) default_resolver \<Rightarrow> 'src tls_state resolver \<Rightarrow> bool"
  for with_image dflt where
  run_start: "resolver_run with_image dflt \<lparr>backend = tls_start h tp, recorded = []\<rparr>"
| run_register: "resolver_run with_image dflt r \<Longrightarrow>
    resolver_register (Some (install_resolver_ops with_image mmap_area mmap_dtv set_fs entry_addr)) dflt r info req = Done (r', x) \<Longrightarrow>
    resolver_run with_image dflt r'"
| run_publish: "resolver_run with_image dflt r \<Longrightarrow>
    resolver_publish (Some (install_resolver_ops with_image mmap_area mmap_dtv set_fs entry_addr)) dflt r source i = Done (r', y) \<Longrightarrow>
    resolver_run with_image dflt r'"
| run_unregister: "resolver_run with_image dflt r \<Longrightarrow>
    resolver_run with_image dflt
      (resolver_unregister (Some (install_resolver_ops with_image mmap_area mmap_dtv set_fs entry_addr)) dflt r i)"

lemma tls_kind_start: "tls_kind (tls_start h tp) = Map.empty"
  by (simp add: fun_eq_iff tls_kind_def tls_module_at_def slot_of_def tls_start_def)

lemma synced_run: "resolver_run with_image dflt r \<Longrightarrow> rtld_tls.synced r"
proof (induction rule: resolver_run.induct)
  case (run_start h tp)
  show ?case by (simp add: rtld_tls.synced_def tls_kind_start)
qed (blast intro: rtld_tls.synced_register rtld_tls.synced_publish rtld_tls.synced_unregister)+

text \<open>C11. After any sequence of calls, the resolver passes to the registry the placement under which the module
  was registered: publishing the image of a module that is still registered succeeds, unless the image is
  longer than the module, and leaves the records and the placement of every module alone.\<close>

theorem publish_registered:
  assumes "resolver_run with_image dflt r" "tls_module_at (backend r) i \<noteq> None" "image_fits with_image (backend r) source i"
  shows "\<exists>s'. resolver_publish (Some (install_resolver_ops with_image mmap_area mmap_dtv set_fs entry_addr)) dflt r source i =
      Done (r\<lparr>backend := s'\<rparr>, Inr ()) \<and> tls_kind s' = tls_kind (backend r)"
proof -
  note synced = synced_run [OF assms(1)]
  have "tls_kind (backend r) i \<noteq> None" using assms(2) by (auto simp: tls_kind_Some)
  then obtain s' where s': "resolver_publish (Some (install_resolver_ops with_image mmap_area mmap_dtv set_fs entry_addr)) dflt r source i =
      Done (r\<lparr>backend := s'\<rparr>, Inr ())"
    using rtld_tls.publish_accepted [OF synced _ assms(3)] by blast
  from rtld_tls.synced_publish [OF synced this] have "tls_kind s' = tls_kind (backend r)"
    using synced by (simp add: rtld_tls.synced_def)
  with s' show ?thesis by blast
qed

theorem publish_registered_witness:
  "\<forall>dflt. \<exists>r s'. resolver_publish (Some (install_resolver_ops (Some :: bytes \<Rightarrow> bytes option) None None True 0x4000)) dflt r [7] 1 =
     Done (r\<lparr>backend := s'\<rparr>, Inr ()) \<and> tls_kind s' 1 = Some (Some 0xFFFFFFFFFFFFFFC0)"
proof
  fix dflt :: "(bytes tls_state, bytes, tls_error) default_resolver"
  let ?ops = "install_resolver_ops (Some :: bytes \<Rightarrow> bytes option) None None True 0x4000"
  let ?r = "\<lparr>backend = tls_start zero_heap 0, recorded = []\<rparr> :: bytes tls_state resolver"
  let ?s = "fst (add_static_module (backend ?r) sample_module 0xFFFFFFFFFFFFFFC0)"
  have reg: "resolver_register (Some ?ops) dflt ?r sample_module (ReqStatic (Some 0xFFFFFFFFFFFFFFC0)) =
      Done (\<lparr>backend = ?s, recorded = [(1, Some 0xFFFFFFFFFFFFFFC0)]\<rparr>, Inr (StaticTls 1 0xFFFFFFFFFFFFFFC0))"
    by (simp add: resolver_register_def request_module_def install_resolver_ops_def add_static_module_def
        register_module_def tls_start_def)
  have at: "tls_module_at ?s 1 = Some (Static sample_module 0xFFFFFFFFFFFFFFC0)"
    by (simp add: add_static_module_def register_module_def tls_start_def tls_module_at_def slot_of_def)
  let ?r1 = "\<lparr>backend = ?s, recorded = [(1, Some 0xFFFFFFFFFFFFFFC0)]\<rparr> :: bytes tls_state resolver"
  obtain s' where "resolver_publish (Some ?ops) dflt ?r1 [7] 1 = Done (?r1\<lparr>backend := s'\<rparr>, Inr ())" "tls_kind s' = tls_kind ?s"
    using publish_registered [OF run_register [OF run_start reg], of 1 "[7]" None None True "0x4000"] at
    by (auto simp: image_fits_def sample_module_def)
  moreover have "tls_kind ?s 1 = Some (Some 0xFFFFFFFFFFFFFFC0)" using tls_kind_Some [OF at] by simp
  ultimately have "resolver_publish (Some ?ops) dflt ?r1 [7] 1 = Done (?r1\<lparr>backend := s'\<rparr>, Inr ()) \<and>
      tls_kind s' 1 = Some (Some 0xFFFFFFFFFFFFFFC0)" by simp
  then show "\<exists>r s'. resolver_publish (Some ?ops) dflt r [7] 1 = Done (r\<lparr>backend := s'\<rparr>, Inr ()) \<and>
      tls_kind s' 1 = Some (Some 0xFFFFFFFFFFFFFFC0)" by blast
qed

end
