(* ===== verification/Manager.thy ===== *)
theory Manager
  imports Prelude
begin

text \<open>
  The registry state (\<open>src/src/registry/manager.rs\<close>, \<open>src/src/registry/cxa.rs\<close>) and the open flags
  (\<open>src/src/lib.rs\<close>).  The \<open>LinkContext\<close> that owns the modules belongs to \<open>elf_loader\<close>: its
  operations are a record \<open>link_ops\<close> of functions, an argument of every operation here, over
  abstract types of contexts, module ids, leases, modules and symbols.  A method that takes
  \<open>&mut self\<close> returns the new context; a failure is \<open>None\<close>.  An \<open>expect\<close> that fails is \<open>Panic\<close>.
\<close>

section \<open>Open flags\<close>

type_synonym open_flags = u32

definition RTLD_LAZY :: open_flags where "RTLD_LAZY = 1"
definition RTLD_NOW :: open_flags where "RTLD_NOW = 2"
definition RTLD_NOLOAD :: open_flags where "RTLD_NOLOAD = 4"
definition RTLD_DEEPBIND :: open_flags where "RTLD_DEEPBIND = 8"
definition RTLD_GLOBAL :: open_flags where "RTLD_GLOBAL = 256"
definition RTLD_NODELETE :: open_flags where "RTLD_NODELETE = 4096"

definition contains_flags :: "open_flags \<Rightarrow> open_flags \<Rightarrow> bool" where
  "contains_flags f g \<longleftrightarrow> f AND g = g"

definition is_global :: "open_flags \<Rightarrow> bool" where "is_global f = contains_flags f RTLD_GLOBAL"
definition is_nodelete :: "open_flags \<Rightarrow> bool" where "is_nodelete f = contains_flags f RTLD_NODELETE"
definition is_now :: "open_flags \<Rightarrow> bool" where "is_now f = contains_flags f RTLD_NOW"
definition is_noload :: "open_flags \<Rightarrow> bool" where "is_noload f = contains_flags f RTLD_NOLOAD"
definition is_deepbind :: "open_flags \<Rightarrow> bool" where "is_deepbind f = contains_flags f RTLD_DEEPBIND"

definition promotable :: "open_flags \<Rightarrow> open_flags" where
  "promotable f = f AND (RTLD_GLOBAL OR RTLD_NODELETE)"

section \<open>State\<close>

record ('c, 'i, 'l, 'm, 'y) link_ops =
  module_id_at :: "'c \<Rightarrow> usize \<Rightarrow> 'c \<times> 'i option"
  module_of :: "'c \<Rightarrow> 'i \<Rightarrow> 'm option"
  load_group :: "'c \<Rightarrow> 'i \<Rightarrow> 'c \<times> 'm list option"
  global_scope :: "'c \<Rightarrow> 'm list"
  load_order :: "'c \<Rightarrow> 'i list"
  module_id :: "'c \<Rightarrow> bytes \<Rightarrow> 'i option"
  module_key :: "'c \<Rightarrow> 'i \<Rightarrow> bytes option"
  acquire :: "'c \<Rightarrow> 'i \<Rightarrow> 'c \<times> 'l option"
  release_lease :: "'c \<Rightarrow> 'l \<Rightarrow> ('c \<times> 'm list) option"
  pin :: "'c \<Rightarrow> 'l \<Rightarrow> 'c option"
  promote_global :: "'c \<Rightarrow> 'i \<Rightarrow> 'c option"
  meta_of :: "'c \<Rightarrow> 'i \<Rightarrow> open_flags option"
  set_meta :: "'c \<Rightarrow> 'i \<Rightarrow> open_flags \<Rightarrow> 'c option"
  ctx_add_alias :: "'c \<Rightarrow> 'i \<Rightarrow> bytes \<Rightarrow> 'c option"
  ctx_insert :: "'c \<Rightarrow> bytes \<Rightarrow> 'm \<Rightarrow> open_flags \<Rightarrow> nat list \<Rightarrow> ('c \<times> 'l) option"
  lease_id :: "'l \<Rightarrow> 'i"
  instance_id :: "'m \<Rightarrow> nat"
  get_symbol :: "'m \<Rightarrow> bytes \<Rightarrow> 'y option"
  is_elf :: "'m \<Rightarrow> bool"
  link_map_of :: "'m \<Rightarrow> usize option"
  soname :: "'m \<Rightarrow> bytes option"
  mod_name :: "'m \<Rightarrow> bytes"
  file_name :: "'m \<Rightarrow> bytes"
  needed_libs :: "'m \<Rightarrow> bytes list"
  scope_empty :: "'m \<Rightarrow> bool"

record ('l, 'm) opened_library =
  scope :: "'m list"
  lease :: 'l

record ('l, 'm) handle_state =
  opened :: "('l, 'm) opened_library"
  extra_leases :: "'l list"

record ('c, 'l, 'm) manager =
  link_ctx :: 'c
  handles :: "usize \<rightharpoonup> ('l, 'm) handle_state"
  adds :: u64
  subs :: u64

definition manager_new :: "'c \<Rightarrow> ('c, 'l, 'm) manager" where
  "manager_new c = \<lparr>link_ctx = c, handles = Map.empty, adds = 0, subs = 0\<rparr>"

section \<open>Handles\<close>

definition root_module :: "('c, 'i, 'l, 'm, 'y) link_ops \<Rightarrow> ('l, 'm) opened_library \<Rightarrow> 'm run" where
  "root_module ops ol = (case scope ol of [] \<Rightarrow> Panic | m # _ \<Rightarrow> if is_elf ops m then Done m else Panic)"

definition opened_link_map :: "('c, 'i, 'l, 'm, 'y) link_ops \<Rightarrow> ('l, 'm) opened_library \<Rightarrow> usize run" where
  "opened_link_map ops ol = run_bind (root_module ops ol) (\<lambda>m. expect (link_map_of ops m))"

definition register_handle ::
  "('c, 'i, 'l, 'm, 'y) link_ops \<Rightarrow> ('c, 'l, 'm) manager \<Rightarrow> ('l, 'm) opened_library \<Rightarrow> (('c, 'l, 'm) manager \<times> usize) run" where
  "register_handle ops mg ol =
     run_bind (opened_link_map ops ol) (\<lambda>handle.
     case handles mg handle of
       None \<Rightarrow> Done (mg\<lparr>handles := (handles mg)(handle \<mapsto> \<lparr>opened = ol, extra_leases = []\<rparr>)\<rparr>, handle)
     | Some st \<Rightarrow>
         Done (mg\<lparr>handles := (handles mg)(handle \<mapsto> st\<lparr>extra_leases := extra_leases st @ [lease ol]\<rparr>)\<rparr>, handle))"

definition release ::
  "('c, 'i, 'l, 'm, 'y) link_ops \<Rightarrow> ('c, 'l, 'm) manager \<Rightarrow> 'l \<Rightarrow> (('c, 'l, 'm) manager \<times> 'm list) run" where
  "release ops mg l =
     (case release_lease ops (link_ctx mg) l of
        None \<Rightarrow> Panic
      | Some (c, unloaded) \<Rightarrow>
          Done (mg\<lparr>link_ctx := c, subs := subs mg + of_nat (length unloaded)\<rparr>, unloaded))"

definition release_handle ::
  "('c, 'i, 'l, 'm, 'y) link_ops \<Rightarrow> ('c, 'l, 'm) manager \<Rightarrow> usize \<Rightarrow> (('c, 'l, 'm) manager \<times> 'm list option) run" where
  "release_handle ops mg handle =
     (case handles mg handle of
        None \<Rightarrow> Done (mg, None)
      | Some st \<Rightarrow>
          let (l, mg1) =
            (if extra_leases st \<noteq> []
             then (last (extra_leases st),
                   mg\<lparr>handles := (handles mg)(handle \<mapsto> st\<lparr>extra_leases := butlast (extra_leases st)\<rparr>)\<rparr>)
             else (lease (opened st), mg\<lparr>handles := (handles mg)(handle := None)\<rparr>))
          in run_bind (release ops mg1 l) (\<lambda>(mg2, unloaded). Done (mg2, Some unloaded)))"

definition handle_find :: "('c, 'i, 'l, 'm, 'y) link_ops \<Rightarrow> ('c, 'l, 'm) manager \<Rightarrow> usize \<Rightarrow> bytes \<Rightarrow> 'y option" where
  "handle_find ops mg handle name =
     (case handles mg handle of
        None \<Rightarrow> None
      | Some st \<Rightarrow> find_map (\<lambda>m. get_symbol ops m name) (scope (opened st)))"

definition handle_link_map :: "('c, 'l, 'm) manager \<Rightarrow> usize \<Rightarrow> usize option" where
  "handle_link_map mg handle = (if handles mg handle \<noteq> None then Some handle else None)"

section \<open>Searching\<close>

definition global_find :: "('c, 'i, 'l, 'm, 'y) link_ops \<Rightarrow> ('c, 'l, 'm) manager \<Rightarrow> bytes \<Rightarrow> 'y option" where
  "global_find ops mg name = find_map (\<lambda>m. get_symbol ops m name) (global_scope ops (link_ctx mg))"

definition find_symbol :: "('c, 'i, 'l, 'm, 'y) link_ops \<Rightarrow> 'm list \<Rightarrow> bytes \<Rightarrow> 'y option" where
  "find_symbol ops ms name = find_map (\<lambda>m. get_symbol ops m name) ms"

definition next_find ::
  "('c, 'i, 'l, 'm, 'y) link_ops \<Rightarrow> ('c, 'l, 'm) manager \<Rightarrow> usize \<Rightarrow> bytes \<Rightarrow> ('c, 'l, 'm) manager \<times> 'y option" where
  "next_find ops mg addr name =
     (case module_id_at ops (link_ctx mg) addr of
        (c, None) \<Rightarrow> (mg\<lparr>link_ctx := c\<rparr>, None)
      | (c, Some caller) \<Rightarrow>
          (case module_of ops c caller of
             None \<Rightarrow> (mg\<lparr>link_ctx := c\<rparr>, None)
           | Some m \<Rightarrow>
               let inst = instance_id ops m;
                   after = (\<lambda>sc. drop 1 (dropWhile (\<lambda>x. instance_id ops x \<noteq> inst) sc));
                   global = global_scope ops c
               in if \<exists>x\<in>set global. instance_id ops x = inst
                  then (mg\<lparr>link_ctx := c\<rparr>, find_symbol ops (after global) name)
                  else (case load_group ops c caller of
                          (c', None) \<Rightarrow> (mg\<lparr>link_ctx := c'\<rparr>, None)
                        | (c', Some grp) \<Rightarrow> (mg\<lparr>link_ctx := c'\<rparr>, find_symbol ops (after grp) name))))"

section \<open>Opening\<close>

definition acquire_module :: "('c, 'i, 'l, 'm, 'y) link_ops \<Rightarrow> ('c, 'l, 'm) manager \<Rightarrow> 'i \<Rightarrow> ('c, 'l, 'm) manager \<times> 'l option" where
  "acquire_module ops mg i = (let (c, r) = acquire ops (link_ctx mg) i in (mg\<lparr>link_ctx := c\<rparr>, r))"

definition open_module ::
  "('c, 'i, 'l, 'm, 'y) link_ops \<Rightarrow> ('c, 'l, 'm) manager \<Rightarrow> 'i \<Rightarrow> ('c, 'l, 'm) manager \<times> ('l, 'm) opened_library option" where
  "open_module ops mg i =
     (case load_group ops (link_ctx mg) i of
        (c, None) \<Rightarrow> (mg\<lparr>link_ctx := c\<rparr>, None)
      | (c, Some sc) \<Rightarrow>
          (case acquire_module ops (mg\<lparr>link_ctx := c\<rparr>) i of
             (mg1, None) \<Rightarrow> (mg1, None)
           | (mg1, Some l) \<Rightarrow> (mg1, Some \<lparr>scope = sc, lease = l\<rparr>)))"

definition main_library ::
  "('c, 'i, 'l, 'm, 'y) link_ops \<Rightarrow> ('c, 'l, 'm) manager \<Rightarrow> ('c, 'l, 'm) manager \<times> ('l, 'm) opened_library option" where
  "main_library ops mg =
     (case load_order ops (link_ctx mg) of [] \<Rightarrow> (mg, None) | i # _ \<Rightarrow> open_module ops mg i)"

definition promote ::
  "('c, 'i, 'l, 'm, 'y) link_ops \<Rightarrow> ('c, 'l, 'm) manager \<Rightarrow> 'i \<Rightarrow> open_flags \<Rightarrow> ('c, 'l, 'm) manager run" where
  "promote ops mg i flags0 =
     (let flags = promotable flags0 in
      run_bind (expect (meta_of ops (link_ctx mg) i)) (\<lambda>meta.
      let pin_it = is_nodelete flags \<and> \<not> is_nodelete meta in
      run_bind (expect (set_meta ops (link_ctx mg) i (meta OR flags))) (\<lambda>c1.
      run_bind (if is_global flags then expect (promote_global ops c1 i) else Done c1) (\<lambda>c2.
      run_bind (if pin_it
                then (case acquire ops c2 i of
                        (c3, None) \<Rightarrow> Panic
                      | (c3, Some l) \<Rightarrow> expect (pin ops c3 l))
                else Done c2) (\<lambda>c4.
      Done (mg\<lparr>link_ctx := c4\<rparr>))))))"

definition open_existing ::
  "('c, 'i, 'l, 'm, 'y) link_ops \<Rightarrow> ('c, 'l, 'm) manager \<Rightarrow> bytes \<Rightarrow> open_flags \<Rightarrow>
     (('c, 'l, 'm) manager \<times> ('l, 'm) opened_library option) run" where
  "open_existing ops mg k flags =
     (case module_id ops (link_ctx mg) k of
        None \<Rightarrow> Done (mg, None)
      | Some i \<Rightarrow> run_bind (promote ops mg i flags) (\<lambda>mg1. Done (open_module ops mg1 i)))"

definition library_by_addr ::
  "('c, 'i, 'l, 'm, 'y) link_ops \<Rightarrow> ('c, 'l, 'm) manager \<Rightarrow> usize \<Rightarrow> ('c, 'l, 'm) manager \<times> ('l, 'm) opened_library option" where
  "library_by_addr ops mg addr =
     (case module_id_at ops (link_ctx mg) addr of
        (c, None) \<Rightarrow> (mg\<lparr>link_ctx := c\<rparr>, None)
      | (c, Some i) \<Rightarrow> open_module ops (mg\<lparr>link_ctx := c\<rparr>) i)"

definition first_elf :: "('c, 'i, 'l, 'm, 'y) link_ops \<Rightarrow> 'm list \<Rightarrow> 'm option" where
  "first_elf ops sc = (case sc of [] \<Rightarrow> None | m # _ \<Rightarrow> if is_elf ops m then Some m else None)"

definition module_by_addr ::
  "('c, 'i, 'l, 'm, 'y) link_ops \<Rightarrow> ('c, 'l, 'm) manager \<Rightarrow> usize \<Rightarrow> ('c, 'l, 'm) manager \<times> 'm option" where
  "module_by_addr ops mg addr =
     (case module_id_at ops (link_ctx mg) addr of
        (c, None) \<Rightarrow> (mg\<lparr>link_ctx := c\<rparr>, None)
      | (c, Some i) \<Rightarrow>
          (case load_group ops c i of
             (c', None) \<Rightarrow> (mg\<lparr>link_ctx := c'\<rparr>, None)
           | (c', Some sc) \<Rightarrow> (mg\<lparr>link_ctx := c'\<rparr>, first_elf ops sc)))"

fun snapshot_loop ::
  "('c, 'i, 'l, 'm, 'y) link_ops \<Rightarrow> ('c, 'l, 'm) manager \<Rightarrow> 'i list \<Rightarrow> ('c, 'l, 'm) manager \<times> ('m \<times> 'l) list" where
  "snapshot_loop ops mg [] = (mg, [])"
| "snapshot_loop ops mg (i # is) =
     (case load_group ops (link_ctx mg) i of
        (c, None) \<Rightarrow> snapshot_loop ops (mg\<lparr>link_ctx := c\<rparr>) is
      | (c, Some sc) \<Rightarrow>
          (case first_elf ops sc of
             None \<Rightarrow> snapshot_loop ops (mg\<lparr>link_ctx := c\<rparr>) is
           | Some m \<Rightarrow>
               (case acquire_module ops (mg\<lparr>link_ctx := c\<rparr>) i of
                  (mg1, None) \<Rightarrow> snapshot_loop ops mg1 is
                | (mg1, Some l) \<Rightarrow>
                    let (mg2, rest) = snapshot_loop ops mg1 is in (mg2, (m, l) # rest))))"

definition library_snapshot ::
  "('c, 'i, 'l, 'm, 'y) link_ops \<Rightarrow> ('c, 'l, 'm) manager \<Rightarrow> ('c, 'l, 'm) manager \<times> ('m \<times> 'l) list" where
  "library_snapshot ops mg = snapshot_loop ops mg (load_order ops (link_ctx mg))"

definition acquire_module_by_addr ::
  "('c, 'i, 'l, 'm, 'y) link_ops \<Rightarrow> ('c, 'l, 'm) manager \<Rightarrow> usize \<Rightarrow> ('c, 'l, 'm) manager \<times> 'l option" where
  "acquire_module_by_addr ops mg addr =
     (case module_id_at ops (link_ctx mg) addr of
        (c, None) \<Rightarrow> (mg\<lparr>link_ctx := c\<rparr>, None)
      | (c, Some i) \<Rightarrow> acquire_module ops (mg\<lparr>link_ctx := c\<rparr>) i)"

definition flags_of :: "('c, 'i, 'l, 'm, 'y) link_ops \<Rightarrow> ('c, 'l, 'm) manager \<Rightarrow> 'i \<Rightarrow> open_flags option" where
  "flags_of ops mg i = meta_of ops (link_ctx mg) i"

text \<open>A \<open>LoadResult\<close> is the lease of the root and the ids of the modules published with it.\<close>

fun open_load_loop ::
  "('c, 'i, 'l, 'm, 'y) link_ops \<Rightarrow> ('c, 'l, 'm) manager \<Rightarrow> 'i list \<Rightarrow> open_flags \<Rightarrow> ('c, 'l, 'm) manager run" where
  "open_load_loop ops mg [] flags = Done mg"
| "open_load_loop ops mg (i # is) flags =
     run_bind (expect (set_meta ops (link_ctx mg) i flags)) (\<lambda>c1.
     run_bind (if is_nodelete flags
               then (case acquire ops c1 i of
                       (c2, None) \<Rightarrow> Panic
                     | (c2, Some l) \<Rightarrow> expect (pin ops c2 l))
               else Done c1) (\<lambda>c3.
     open_load_loop ops (mg\<lparr>link_ctx := c3, adds := adds mg + 1\<rparr>) is flags))"

definition open_load ::
  "('c, 'i, 'l, 'm, 'y) link_ops \<Rightarrow> ('c, 'l, 'm) manager \<Rightarrow> 'l \<times> 'i list \<Rightarrow> open_flags \<Rightarrow>
     (('c, 'l, 'm) manager \<times> ('l, 'm) opened_library) run" where
  "open_load ops mg load flags =
     (let (l, modules) = load in
      run_bind (open_load_loop ops mg modules flags) (\<lambda>mg1.
      run_bind (if is_global flags then expect (promote_global ops (link_ctx mg1) (lease_id ops l))
                else Done (link_ctx mg1)) (\<lambda>c.
      case load_group ops c (lease_id ops l) of
        (c', None) \<Rightarrow> Panic
      | (c', Some sc) \<Rightarrow> Done (mg1\<lparr>link_ctx := c'\<rparr>, \<lparr>scope = sc, lease = l\<rparr>))))"

section \<open>Objects that were loaded before\<close>

definition add_alias ::
  "('c, 'i, 'l, 'm, 'y) link_ops \<Rightarrow> ('c, 'l, 'm) manager \<Rightarrow> 'i \<Rightarrow> bytes \<Rightarrow> ('c, 'l, 'm) manager run" where
  "add_alias ops mg i alias =
     run_bind (expect (module_key ops (link_ctx mg) i)) (\<lambda>k.
     if alias = [] \<or> alias = k then Done mg
     else run_bind (expect (ctx_add_alias ops (link_ctx mg) i alias)) (\<lambda>c. Done (mg\<lparr>link_ctx := c\<rparr>)))"

definition libc_compat_aliases :: "bytes \<Rightarrow> bytes list" where
  "libc_compat_aliases name =
     (if name = ascii ''libc.so.6'' then
        map ascii [''libdl.so.2'', ''libpthread.so.0'', ''libutil.so.1'', ''librt.so.1'', ''libanl.so.1'']
      else if name = ascii ''ld-linux-x86-64.so.2'' then [ascii ''ld-linux.so.2'']
      else [])"

fun add_aliases ::
  "('c, 'i, 'l, 'm, 'y) link_ops \<Rightarrow> ('c, 'l, 'm) manager \<Rightarrow> 'i \<Rightarrow> bytes list \<Rightarrow> ('c, 'l, 'm) manager run" where
  "add_aliases ops mg i [] = Done mg"
| "add_aliases ops mg i (a # as) = run_bind (add_alias ops mg i a) (\<lambda>mg1. add_aliases ops mg1 i as)"

fun register_aliases_loop ::
  "('c, 'i, 'l, 'm, 'y) link_ops \<Rightarrow> ('c, 'l, 'm) manager \<Rightarrow> bytes list \<Rightarrow> ('c, 'l, 'm) manager run" where
  "register_aliases_loop ops mg [] = Done mg"
| "register_aliases_loop ops mg (n # ns) =
     (case module_id ops (link_ctx mg) n of
        None \<Rightarrow> register_aliases_loop ops mg ns
      | Some i \<Rightarrow>
          run_bind (add_aliases ops mg i (libc_compat_aliases n)) (\<lambda>mg1. register_aliases_loop ops mg1 ns))"

definition register_initial_aliases ::
  "('c, 'i, 'l, 'm, 'y) link_ops \<Rightarrow> ('c, 'l, 'm) manager \<Rightarrow> ('c, 'l, 'm) manager run" where
  "register_initial_aliases ops mg =
     register_aliases_loop ops mg [ascii ''libc.so.6'', ascii ''ld-linux-x86-64.so.2'']"

definition register_loaded ::
  "('c, 'i, 'l, 'm, 'y) link_ops \<Rightarrow> ('c, 'l, 'm) manager \<Rightarrow> 'm \<Rightarrow> open_flags \<Rightarrow> ('c, 'l, 'm) manager run" where
  "register_loaded ops mg lib flags =
     (if \<not> scope_empty ops lib \<or> \<not> is_elf ops lib then Panic
      else let name = (case soname ops lib of Some n \<Rightarrow> n | None \<Rightarrow> mod_name ops lib);
               deps = map (instance_id ops)
                 (List.map_filter (module_of ops (link_ctx mg))
                   (List.map_filter (module_id ops (link_ctx mg)) (needed_libs ops lib)))
           in run_bind (expect (ctx_insert ops (link_ctx mg) name lib flags deps)) (\<lambda>(c1, l).
              let i = lease_id ops l in
              run_bind (add_alias ops (mg\<lparr>link_ctx := c1, adds := adds mg + 1\<rparr>) i (file_name ops lib)) (\<lambda>mg2.
              run_bind (if is_global flags \<or> name = []
                        then expect (promote_global ops (link_ctx mg2) i) else Done (link_ctx mg2)) (\<lambda>c3.
              run_bind (expect (pin ops c3 l)) (\<lambda>c4.
              Done (mg2\<lparr>link_ctx := c4\<rparr>))))))"

section \<open>Handles as stacks of leases\<close>

text \<open>A handle owns the lease of its first \<open>dlopen\<close> and one more for each further one.\<close>

definition handle_stack :: "('c, 'l, 'm) manager \<Rightarrow> usize \<Rightarrow> 'l list" where
  "handle_stack mg h =
     (case handles mg h of None \<Rightarrow> [] | Some st \<Rightarrow> lease (opened st) # extra_leases st)"

lemma handle_stack_new: "handle_stack (manager_new c) = (\<lambda>_. [])"
  by (simp add: handle_stack_def manager_new_def fun_eq_iff)

lemma register_handle_pushes:
  assumes "opened_link_map ops ol = Done h"
  obtains mg' where "register_handle ops mg ol = Done (mg', h)"
    "handle_stack mg' = (handle_stack mg)(h := handle_stack mg h @ [lease ol])"
  using assms that
  by (cases "handles mg h") (auto simp: register_handle_def handle_stack_def fun_eq_iff)

lemma release_handle_empty: "handle_stack mg h = [] \<Longrightarrow> release_handle ops mg h = Done (mg, None)"
  by (auto simp: handle_stack_def release_handle_def split: option.splits)

lemma release_handle_pops:
  assumes "handle_stack mg h = ls @ [l]" "release_lease ops (link_ctx mg) l = Some (c, u)"
  obtains mg' where "release_handle ops mg h = Done (mg', Some u)"
    "handle_stack mg' = (handle_stack mg)(h := ls)" "link_ctx mg' = c"
proof -
  obtain st where st: "handles mg h = Some st" "lease (opened st) # extra_leases st = ls @ [l]"
    using assms(1) by (auto simp: handle_stack_def split: option.splits)
  show thesis
  proof (cases "extra_leases st = []")
    case True
    with st have "ls = []" "l = lease (opened st)" by simp_all
    with True st assms(2) show thesis
      by (intro that) (auto simp: release_handle_def release_def handle_stack_def fun_eq_iff)
  next
    case False
    then obtain xs where xs: "extra_leases st = xs @ [l]" "ls = lease (opened st) # xs"
      using st(2) by (cases ls) auto
    with st assms(2) show thesis
      by (intro that) (auto simp: release_handle_def release_def handle_stack_def fun_eq_iff)
  qed
qed

datatype ('l, 'm) handle_event = HOpen "('l, 'm) opened_library" | HClose usize

fun handle_run ::
  "('c, 'i, 'l, 'm, 'y) link_ops \<Rightarrow> ('c, 'l, 'm) manager \<Rightarrow> ('l, 'm) handle_event list \<Rightarrow>
     (('c, 'l, 'm) manager \<times> bool list) run" where
  "handle_run ops mg [] = Done (mg, [])"
| "handle_run ops mg (HOpen ol # es) =
     run_bind (register_handle ops mg ol) (\<lambda>(mg1, h). handle_run ops mg1 es)"
| "handle_run ops mg (HClose h # es) =
     run_bind (release_handle ops mg h) (\<lambda>(mg1, unloaded).
     run_bind (handle_run ops mg1 es) (\<lambda>(mg2, rs). Done (mg2, (unloaded \<noteq> None) # rs)))"

text \<open>The specification: a stack of leases per handle; closing an empty one fails.\<close>

fun stack_run ::
  "('m list \<Rightarrow> usize) \<Rightarrow> (usize \<Rightarrow> 'l list) \<Rightarrow> ('l, 'm) handle_event list \<Rightarrow> (usize \<Rightarrow> 'l list) \<times> bool list" where
  "stack_run handle_of stk [] = (stk, [])"
| "stack_run handle_of stk (HOpen ol # es) =
     (let h = handle_of (scope ol) in stack_run handle_of (stk(h := stk h @ [lease ol])) es)"
| "stack_run handle_of stk (HClose h # es) =
     (let (stk', rs) = stack_run handle_of (stk(h := butlast (stk h))) es
      in (stk', (stk h \<noteq> []) # rs))"

fun event_ok :: "('c, 'i, 'l, 'm, 'y) link_ops \<Rightarrow> ('m list \<Rightarrow> usize) \<Rightarrow> ('l \<Rightarrow> bool) \<Rightarrow> ('l, 'm) handle_event \<Rightarrow> bool" where
  "event_ok ops handle_of ours (HOpen ol) \<longleftrightarrow> opened_link_map ops ol = Done (handle_of (scope ol)) \<and> ours (lease ol)"
| "event_ok ops handle_of ours (HClose h) \<longleftrightarrow> True"

text \<open>Documented of \<open>LinkContext::release\<close>: it accepts every lease that the context issued.\<close>

definition releases :: "('c, 'i, 'l, 'm, 'y) link_ops \<Rightarrow> ('l \<Rightarrow> bool) \<Rightarrow> bool" where
  "releases ops ours \<longleftrightarrow> (\<forall>c l. ours l \<longrightarrow> release_lease ops c l \<noteq> None)"

lemma handle_run_stack:
  assumes "releases ops ours" "\<forall>h. \<forall>l\<in>set (handle_stack mg h). ours l"
    "\<forall>e\<in>set es. event_ok ops handle_of ours e"
  shows "\<exists>mg'. handle_run ops mg es = Done (mg', snd (stack_run handle_of (handle_stack mg) es)) \<and>
    handle_stack mg' = fst (stack_run handle_of (handle_stack mg) es)"
  using assms(2,3)
proof (induction es arbitrary: mg)
  case Nil
  then show ?case by simp
next
  case (Cons e es)
  show ?case
  proof (cases e)
    case (HOpen ol)
    then have ok: "opened_link_map ops ol = Done (handle_of (scope ol))" "ours (lease ol)"
      using Cons.prems(2) by simp_all
    obtain mg1 where r: "register_handle ops mg ol = Done (mg1, handle_of (scope ol))"
      "handle_stack mg1 = (handle_stack mg)(handle_of (scope ol) := handle_stack mg (handle_of (scope ol)) @ [lease ol])"
      by (rule register_handle_pushes [OF ok(1)])
    have "\<forall>h. \<forall>l\<in>set (handle_stack mg1 h). ours l" using Cons.prems(1) ok(2) by (auto simp: r(2))
    from Cons.IH [OF this] Cons.prems(2) HOpen r show ?thesis by (simp add: Let_def del: fun_upd_apply)
  next
    case (HClose h)
    show ?thesis
    proof (cases "handle_stack mg h" rule: rev_cases)
      case Nil
      have "(handle_stack mg)(h := []) = handle_stack mg" using Nil by (metis fun_upd_triv)
      with Cons.IH [OF Cons.prems(1)] Cons.prems(2) HClose Nil release_handle_empty [OF Nil, of ops] show ?thesis
        by (auto simp: case_prod_beta simp del: fun_upd_apply)
    next
      case (snoc ls l)
      then have "ours l" using Cons.prems(1) by (metis in_set_conv_decomp)
      then obtain c u where "release_lease ops (link_ctx mg) l = Some (c, u)"
        using assms(1) by (auto simp: releases_def) (metis not_None_eq prod.collapse)
      from release_handle_pops [OF snoc this] obtain mg1 where
        r: "release_handle ops mg h = Done (mg1, Some u)" "handle_stack mg1 = (handle_stack mg)(h := ls)"
        by metis
      have "set ls \<subseteq> set (handle_stack mg h)" using snoc by auto
      then have "\<forall>h'. \<forall>l'\<in>set (handle_stack mg1 h'). ours l'" using Cons.prems(1) by (auto simp: r(2))
      from Cons.IH [OF this] Cons.prems(2) HClose r snoc show ?thesis
        by (auto simp: case_prod_beta simp del: fun_upd_apply)
    qed
  qed
qed


text \<open>A small context for the examples: it holds module ids, every id is its own module and lease, and
  releasing a lease unloads the module.\<close>

definition demo_ops :: "(nat list, nat, nat, nat, nat) link_ops" where
  "demo_ops = \<lparr>
     module_id_at = (\<lambda>c addr. (c, if unat addr \<in> set c then Some (unat addr) else None)),
     module_of = (\<lambda>c i. if i \<in> set c then Some i else None),
     load_group = (\<lambda>c i. (c, if i \<in> set c then Some [i] else None)),
     global_scope = (\<lambda>c. c), load_order = (\<lambda>c. c), module_id = (\<lambda>c k. None),
     module_key = (\<lambda>c i. Some []), acquire = (\<lambda>c i. (c, if i \<in> set c then Some i else None)),
     release_lease = (\<lambda>c l. Some (filter (\<lambda>x. x \<noteq> l) c, filter (\<lambda>x. x = l) c)),
     pin = (\<lambda>c l. Some c), promote_global = (\<lambda>c i. Some c), meta_of = (\<lambda>c i. Some 0),
     set_meta = (\<lambda>c i f. Some c), ctx_add_alias = (\<lambda>c i a. Some c),
     ctx_insert = (\<lambda>c n m f d. Some (c @ [m], m)), lease_id = (\<lambda>l. l), instance_id = (\<lambda>m. m),
     get_symbol = (\<lambda>m name. if m < 2 then None else Some (10 * m)), is_elf = (\<lambda>m. True),
     link_map_of = (\<lambda>m. Some (of_nat (4096 * m))), soname = (\<lambda>m. None), mod_name = (\<lambda>m. []),
     file_name = (\<lambda>m. []), needed_libs = (\<lambda>m. []), scope_empty = (\<lambda>m. True)\<rparr>"


section \<open>The next definition\<close>

text \<open>\<open>RTLD_NEXT\<close>: the search runs over the global scope if the caller's module is part of it, and
  over the load group of the caller otherwise, and returns the first definition in the modules
  that follow the caller's; the caller's own module and the modules before it are not asked.\<close>

theorem next_find_after_caller:
  assumes at: "module_id_at ops (link_ctx mg) addr = (c, Some i)" and m: "module_of ops c i = Some m"
    and sc: "if \<exists>x\<in>set (global_scope ops c). instance_id ops x = instance_id ops m
             then global_scope ops c = before @ x # rest \<and> c' = c
             else load_group ops c i = (c', Some (before @ x # rest))"
    and x: "instance_id ops x = instance_id ops m" "\<forall>y\<in>set before. instance_id ops y \<noteq> instance_id ops m"
  shows "next_find ops mg addr name = (mg\<lparr>link_ctx := c'\<rparr>, find_map (\<lambda>y. get_symbol ops y name) rest)"
proof -
  have "drop 1 (dropWhile (\<lambda>y. instance_id ops y \<noteq> instance_id ops m) (before @ x # rest)) = rest"
    using x by (simp add: dropWhile_append3 dropWhile_eq_Cons_conv takeWhile_eq_all_conv)
  with at m sc show ?thesis
    by (auto simp: next_find_def find_symbol_def Let_def split: if_splits)
qed

theorem next_find_after_caller_witness:
  "next_find demo_ops (manager_new [3, 1, 0, 2, 5]) 1 [] = (manager_new [3, 1, 0, 2, 5], Some 20)"
  using next_find_after_caller [of demo_ops "manager_new [3, 1, 0, 2, 5]" 1 "[3, 1, 0, 2, 5]" 1 1 "[3]" 1
      "[0, 2, 5]" "[3, 1, 0, 2, 5]" "[]"]
  by (simp add: demo_ops_def manager_new_def)

section \<open>Counting loads and unloads\<close>

text \<open>Documented of the link context: \<open>modules_in\<close> counts its modules.  A release unloads the modules it
  returns, an insertion adds one module, and the other operations add and remove none.\<close>

definition counts_modules :: "('c, 'i, 'l, 'm, 'y) link_ops \<Rightarrow> ('c \<Rightarrow> nat) \<Rightarrow> bool" where
  "counts_modules ops modules_in \<longleftrightarrow>
     (\<forall>c l c' u. release_lease ops c l = Some (c', u) \<longrightarrow> modules_in c = modules_in c' + length u) \<and>
     (\<forall>c i. modules_in (fst (acquire ops c i)) = modules_in c) \<and>
     (\<forall>c i. modules_in (fst (load_group ops c i)) = modules_in c) \<and>
     (\<forall>c a. modules_in (fst (module_id_at ops c a)) = modules_in c) \<and>
     (\<forall>c l c'. pin ops c l = Some c' \<longrightarrow> modules_in c' = modules_in c) \<and>
     (\<forall>c i c'. promote_global ops c i = Some c' \<longrightarrow> modules_in c' = modules_in c) \<and>
     (\<forall>c i f c'. set_meta ops c i f = Some c' \<longrightarrow> modules_in c' = modules_in c) \<and>
     (\<forall>c i a c'. ctx_add_alias ops c i a = Some c' \<longrightarrow> modules_in c' = modules_in c) \<and>
     (\<forall>c n m f d c' l. ctx_insert ops c n m f d = Some (c', l) \<longrightarrow> modules_in c' = modules_in c + 1)"

lemma counts_modulesD:
  assumes "counts_modules ops modules_in"
  shows "release_lease ops c l = Some (c', u) \<Longrightarrow> modules_in c = modules_in c' + length u"
    and "acquire ops c i = (c', q) \<Longrightarrow> modules_in c' = modules_in c"
    and "load_group ops c i = (c', g) \<Longrightarrow> modules_in c' = modules_in c"
    and "module_id_at ops c a = (c', w) \<Longrightarrow> modules_in c' = modules_in c"
    and "pin ops c l = Some c' \<Longrightarrow> modules_in c' = modules_in c"
    and "promote_global ops c i = Some c' \<Longrightarrow> modules_in c' = modules_in c"
    and "set_meta ops c i f = Some c' \<Longrightarrow> modules_in c' = modules_in c"
    and "ctx_add_alias ops c i al = Some c' \<Longrightarrow> modules_in c' = modules_in c"
    and "ctx_insert ops c n m f d = Some (c', l) \<Longrightarrow> modules_in c' = modules_in c + 1"
  using assms unfolding counts_modules_def by (simp_all) (metis fst_conv)+

definition balanced :: "('c \<Rightarrow> nat) \<Rightarrow> ('c, 'l, 'm) manager \<Rightarrow> bool" where
  "balanced modules_in mg \<longleftrightarrow> adds mg = subs mg + of_nat (modules_in (link_ctx mg))"

lemma balanced_ctx:
  "modules_in c = modules_in (link_ctx mg) \<Longrightarrow> balanced modules_in (mg\<lparr>link_ctx := c\<rparr>) = balanced modules_in mg"
  by (simp add: balanced_def)

lemma balanced_register_handle:
  "register_handle ops mg ol = Done (mg', h) \<Longrightarrow> balanced modules_in mg' = balanced modules_in mg"
  by (auto simp: register_handle_def run_bind_case balanced_def split: split_asms)

lemma balanced_release:
  assumes "counts_modules ops modules_in" "release ops mg l = Done (mg', u)"
  shows "balanced modules_in mg' = balanced modules_in mg"
proof -
  obtain c where c: "release_lease ops (link_ctx mg) l = Some (c, u)"
    "mg' = mg\<lparr>link_ctx := c, subs := subs mg + of_nat (length u)\<rparr>"
    using assms(2) by (auto simp: release_def split: split_asms)
  then show ?thesis
    using counts_modulesD(1) [OF assms(1) c(1)] by (simp add: balanced_def algebra_simps)
qed

lemma balanced_release_handle:
  assumes "counts_modules ops modules_in" "release_handle ops mg h = Done (mg', u)"
  shows "balanced modules_in mg' = balanced modules_in mg"
proof (cases "handles mg h")
  case None
  with assms(2) show ?thesis by (simp add: release_handle_def)
next
  case (Some st)
  then obtain hs l w where r: "release ops (mg\<lparr>handles := hs\<rparr>) l = Done (mg', w)"
    using assms(2) by (cases "extra_leases st = []") (auto simp: release_handle_def run_bind_case split: split_asms)
  have "balanced modules_in mg' = balanced modules_in (mg\<lparr>handles := hs\<rparr>)"
    by (rule balanced_release [OF assms(1) r])
  then show ?thesis by (simp add: balanced_def)
qed

lemma balanced_acquire:
  assumes "counts_modules ops modules_in" "acquire_module ops mg i = (mg', r)"
  shows "balanced modules_in mg' = balanced modules_in mg"
  using assms(2) counts_modulesD(2) [OF assms(1)]
  by (auto simp: acquire_module_def balanced_def split: split_asms)

lemma balanced_open_module:
  assumes "counts_modules ops modules_in" "open_module ops mg i = (mg', r)"
  shows "balanced modules_in mg' = balanced modules_in mg"
proof (cases "load_group ops (link_ctx mg) i")
  case (Pair c g)
  have s: "modules_in c = modules_in (link_ctx mg)" by (rule counts_modulesD(3) [OF assms(1) Pair])
  obtain mg1 q where a: "acquire_module ops (mg\<lparr>link_ctx := c\<rparr>) i = (mg1, q)" by fastforce
  have "mg' = mg\<lparr>link_ctx := c\<rparr> \<or> mg' = mg1"
    using assms(2) Pair a by (auto simp: open_module_def split: split_asms)
  then show ?thesis
    using balanced_acquire [OF assms(1) a] balanced_ctx [OF s] by auto
qed

lemma pin_acquired:
  assumes "counts_modules ops modules_in"
    "(case acquire ops c i of (c', None) \<Rightarrow> Panic | (c', Some l) \<Rightarrow> expect (pin ops c' l)) = Done c4"
  shows "modules_in c4 = modules_in c"
  using assms(2) counts_modulesD(2,5) [OF assms(1)] by (auto simp: expect_Done split: split_asms)

lemma balanced_promote:
  assumes ct: "counts_modules ops modules_in" and p: "promote ops mg i f = Done mg'"
  shows "balanced modules_in mg' = balanced modules_in mg"
proof -
  let ?f = "promotable f"
  obtain meta c1 c2 c4 where c: "set_meta ops (link_ctx mg) i (meta OR ?f) = Some c1"
    "(if is_global ?f then expect (promote_global ops c1 i) else Done c1) = Done c2"
    "(if is_nodelete ?f \<and> \<not> is_nodelete meta
      then (case acquire ops c2 i of (c', None) \<Rightarrow> Panic | (c', Some l) \<Rightarrow> expect (pin ops c' l))
      else Done c2) = Done c4" "mg' = mg\<lparr>link_ctx := c4\<rparr>"
    using p unfolding promote_def Let_def run_bind_Done expect_Done run.inject by blast
  have "modules_in c1 = modules_in (link_ctx mg)" by (rule counts_modulesD(7) [OF ct c(1)])
  moreover have "modules_in c2 = modules_in c1"
    using c(2) counts_modulesD(6) [OF ct] by (auto simp: expect_Done split: if_splits)
  moreover have "modules_in c4 = modules_in c2"
    using c(3) pin_acquired [OF ct, of c2 i c4] by (simp split: if_splits)
  ultimately show ?thesis unfolding c(4) by (intro balanced_ctx) simp
qed

lemma balanced_open_load_loop:
  assumes "counts_modules ops modules_in" "open_load_loop ops mg is f = Done mg'"
  shows "modules_in (link_ctx mg') = modules_in (link_ctx mg) \<and> subs mg' = subs mg \<and>
    adds mg' = adds mg + of_nat (length is)"
  using assms(2)
proof (induction "is" arbitrary: mg)
  case Nil
  then show ?case by simp
next
  case (Cons i "is")
  then obtain c1 c3 where c: "set_meta ops (link_ctx mg) i f = Some c1"
    "(if is_nodelete f then (case acquire ops c1 i of (c2, None) \<Rightarrow> Panic | (c2, Some l) \<Rightarrow> expect (pin ops c2 l))
      else Done c1) = Done c3"
    "open_load_loop ops (mg\<lparr>link_ctx := c3, adds := adds mg + 1\<rparr>) is f = Done mg'"
    by (auto simp: run_bind_Done expect_Done)
  have "modules_in c3 = modules_in c1"
    using c(2) counts_modulesD(2,5) [OF assms(1)] by (auto simp: expect_Done split: split_asms)
  moreover have "modules_in c1 = modules_in (link_ctx mg)" by (rule counts_modulesD(7) [OF assms(1) c(1)])
  ultimately show ?case using Cons.IH [OF c(3)] by (simp add: algebra_simps)
qed

lemma balanced_open_load:
  assumes "counts_modules ops modules_in" "open_load ops mg (l, ms) f = Done (mg', ol)"
    "adds mg + of_nat (length ms) = subs mg + of_nat (modules_in (link_ctx mg))"
  shows "balanced modules_in mg'"
proof -
  obtain mg1 c where o: "open_load_loop ops mg ms f = Done mg1"
    "(if is_global f then expect (promote_global ops (link_ctx mg1) (lease_id ops l)) else Done (link_ctx mg1)) = Done c"
    "(case load_group ops c (lease_id ops l) of (c', None) \<Rightarrow> Panic
      | (c', Some sc) \<Rightarrow> Done (mg1\<lparr>link_ctx := c'\<rparr>, \<lparr>scope = sc, lease = l\<rparr>)) = Done (mg', ol)"
    using assms(2) unfolding open_load_def run_bind_Done Let_def prod.case by blast
  then obtain c' g where g: "load_group ops c (lease_id ops l) = (c', g)" "mg' = mg1\<lparr>link_ctx := c'\<rparr>"
    by (auto split: split_asms)
  have "modules_in c = modules_in (link_ctx mg1)"
    using o(2) counts_modulesD(6) [OF assms(1)] by (auto simp: expect_Done split: split_asms)
  moreover have "modules_in c' = modules_in c"
    by (rule counts_modulesD(3) [OF assms(1) g(1)])
  ultimately show ?thesis
    using balanced_open_load_loop [OF assms(1) o(1)] assms(3) by (simp add: balanced_def g(2))
qed

lemma balanced_open_existing:
  assumes "counts_modules ops modules_in" "open_existing ops mg k f = Done (mg', r)"
  shows "balanced modules_in mg' = balanced modules_in mg"
proof (cases "module_id ops (link_ctx mg) k")
  case None
  with assms(2) show ?thesis by (simp add: open_existing_def)
next
  case (Some i)
  with assms(2) obtain mg1 where "promote ops mg i f = Done mg1" "open_module ops mg1 i = (mg', r)"
    by (auto simp: open_existing_def run_bind_Done)
  then show ?thesis using balanced_promote [OF assms(1)] balanced_open_module [OF assms(1)] by blast
qed

lemma balanced_by_addr:
  assumes "counts_modules ops modules_in"
  shows "library_by_addr ops mg a = (mg', r) \<Longrightarrow> balanced modules_in mg' = balanced modules_in mg"
    and "acquire_module_by_addr ops mg a = (mg', q) \<Longrightarrow> balanced modules_in mg' = balanced modules_in mg"
    and "module_by_addr ops mg a = (mg', w) \<Longrightarrow> balanced modules_in mg' = balanced modules_in mg"
    and "next_find ops mg a name = (mg', y) \<Longrightarrow> balanced modules_in mg' = balanced modules_in mg"
proof -
  obtain c i where at: "module_id_at ops (link_ctx mg) a = (c, i)" by fastforce
  have c: "modules_in c = modules_in (link_ctx mg)" by (rule counts_modulesD(4) [OF assms at])
  note ctx = balanced_ctx [OF c]
  have grp: "balanced modules_in (mg\<lparr>link_ctx := c'\<rparr>) = balanced modules_in mg"
    if "load_group ops c j = (c', g)" for c' j g
    by (rule balanced_ctx) (use counts_modulesD(3) [OF assms that] c in simp)
  show "balanced modules_in mg' = balanced modules_in mg" if "library_by_addr ops mg a = (mg', r)"
    using that at ctx balanced_open_module [OF assms, of "mg\<lparr>link_ctx := c\<rparr>"]
    by (cases i) (auto simp: library_by_addr_def)
  show "balanced modules_in mg' = balanced modules_in mg" if "acquire_module_by_addr ops mg a = (mg', q)"
    using that at ctx balanced_acquire [OF assms, of "mg\<lparr>link_ctx := c\<rparr>"]
    by (cases i) (auto simp: acquire_module_by_addr_def)
  show "balanced modules_in mg' = balanced modules_in mg" if "module_by_addr ops mg a = (mg', w)"
    using that at ctx grp by (auto simp: module_by_addr_def split: split_asms)
  show "balanced modules_in mg' = balanced modules_in mg" if "next_find ops mg a name = (mg', y)"
    using that at ctx grp by (auto simp: next_find_def Let_def split: split_asms)
qed

lemma balanced_snapshot:
  assumes "counts_modules ops modules_in" "snapshot_loop ops mg is = (mg', r)"
  shows "balanced modules_in mg' = balanced modules_in mg"
  using assms(2)
proof (induction "is" arbitrary: mg r)
  case Nil
  then show ?case by simp
next
  case (Cons i "is")
  obtain c g where g: "load_group ops (link_ctx mg) i = (c, g)" by fastforce
  note ctx = balanced_ctx [OF counts_modulesD(3) [OF assms(1) g]]
  obtain mg1 q where a: "acquire_module ops (mg\<lparr>link_ctx := c\<rparr>) i = (mg1, q)" by fastforce
  note acq = balanced_acquire [OF assms(1) a]
  have "\<exists>mg2 rs. (mg2 = mg1 \<or> mg2 = mg\<lparr>link_ctx := c\<rparr>) \<and> snapshot_loop ops mg2 is = (mg', rs)"
    using Cons.prems g a by (auto split: split_asms)
  then show ?case using Cons.IH ctx acq by metis
qed

lemma balanced_add_alias:
  assumes "counts_modules ops modules_in" "add_alias ops mg i a = Done mg'"
  shows "balanced modules_in mg' = balanced modules_in mg"
proof -
  have "mg' = mg \<or> (\<exists>c. ctx_add_alias ops (link_ctx mg) i a = Some c \<and> mg' = mg\<lparr>link_ctx := c\<rparr>)"
    using assms(2) by (auto simp: add_alias_def run_bind_Done expect_Done split: if_splits)
  then show ?thesis using counts_modulesD(8) [OF assms(1)] by (auto simp: balanced_def)
qed

lemma balanced_add_aliases:
  assumes "counts_modules ops modules_in"
  shows "add_aliases ops mg i as = Done mg' \<Longrightarrow> balanced modules_in mg' = balanced modules_in mg"
proof (induction "as" arbitrary: mg)
  case (Cons a "as")
  then obtain mg1 where "add_alias ops mg i a = Done mg1" "add_aliases ops mg1 i as = Done mg'"
    by (auto simp: run_bind_Done)
  then show ?case using Cons.IH balanced_add_alias [OF assms] by blast
qed simp

lemma balanced_aliases_loop:
  assumes "counts_modules ops modules_in"
  shows "register_aliases_loop ops mg ns = Done mg' \<Longrightarrow> balanced modules_in mg' = balanced modules_in mg"
proof (induction ns arbitrary: mg)
  case (Cons n ns)
  then obtain mg1 where "mg1 = mg \<or> (\<exists>i. add_aliases ops mg i (libc_compat_aliases n) = Done mg1)"
    "register_aliases_loop ops mg1 ns = Done mg'"
    by (auto simp: run_bind_Done split: option.split_asm)
  then show ?case using Cons.IH balanced_add_aliases [OF assms] by blast
qed simp

lemma balanced_register_loaded:
  assumes ct: "counts_modules ops modules_in" and r: "register_loaded ops mg lib f = Done mg'"
  shows "balanced modules_in mg' = balanced modules_in mg"
proof -
  have ok: "scope_empty ops lib" "is_elf ops lib"
    using r by (auto simp: register_loaded_def split: if_splits)
  obtain name deps c1 l mg2 c3 c4 where o: "ctx_insert ops (link_ctx mg) name lib f deps = Some (c1, l)"
    "add_alias ops (mg\<lparr>link_ctx := c1, adds := adds mg + 1\<rparr>) (lease_id ops l) (file_name ops lib) = Done mg2"
    "(if is_global f \<or> name = [] then expect (promote_global ops (link_ctx mg2) (lease_id ops l))
      else Done (link_ctx mg2)) = Done c3"
    "pin ops c3 l = Some c4" "mg' = mg2\<lparr>link_ctx := c4\<rparr>"
    using r ok unfolding register_loaded_def Let_def
    by (auto simp: run_bind_Done expect_Done simp del: if_split)
  have "modules_in c3 = modules_in (link_ctx mg2)"
    using o(3) counts_modulesD(6) [OF ct] by (auto simp: expect_Done split: if_splits)
  moreover have "modules_in c4 = modules_in c3" by (rule counts_modulesD(5) [OF ct o(4)])
  ultimately have "balanced modules_in mg' = balanced modules_in mg2"
    unfolding o(5) by (intro balanced_ctx) simp
  also have "\<dots> = balanced modules_in (mg\<lparr>link_ctx := c1, adds := adds mg + 1\<rparr>)"
    by (rule balanced_add_alias [OF ct o(2)])
  also have "\<dots> = balanced modules_in mg"
    using counts_modulesD(9) [OF ct o(1)] by (simp add: balanced_def algebra_simps)
  finally show ?thesis .
qed

text \<open>Runs of the registry.  \<open>publish\<close> is \<open>elf_loader\<close>'s commit of freshly loaded modules, with the
  lease of the root and the ids of the modules; \<open>open_load\<close> follows it under the same lock.\<close>

inductive registry_step ::
  "('c, 'i, 'l, 'm, 'y) link_ops \<Rightarrow> ('c \<Rightarrow> 'c \<times> 'l \<times> 'i list) set \<Rightarrow> ('c, 'l, 'm) manager \<Rightarrow> ('c, 'l, 'm) manager \<Rightarrow> bool"
  for ops publish where
  r_register: "register_handle ops mg ol = Done (mg', h) \<Longrightarrow> registry_step ops publish mg mg'"
| r_release_handle: "release_handle ops mg h = Done (mg', u) \<Longrightarrow> registry_step ops publish mg mg'"
| r_release: "release ops mg l = Done (mg', w) \<Longrightarrow> registry_step ops publish mg mg'"
| r_open_existing: "open_existing ops mg k f = Done (mg', r) \<Longrightarrow> registry_step ops publish mg mg'"
| r_open_module: "open_module ops mg i = (mg', r) \<Longrightarrow> registry_step ops publish mg mg'"
| r_promote: "promote ops mg i f = Done mg' \<Longrightarrow> registry_step ops publish mg mg'"
| r_by_addr: "library_by_addr ops mg a = (mg', r) \<Longrightarrow> registry_step ops publish mg mg'"
| r_module_by_addr: "module_by_addr ops mg a = (mg', m) \<Longrightarrow> registry_step ops publish mg mg'"
| r_acquire: "acquire_module_by_addr ops mg a = (mg', q) \<Longrightarrow> registry_step ops publish mg mg'"
| r_next: "next_find ops mg a name = (mg', y) \<Longrightarrow> registry_step ops publish mg mg'"
| r_snapshot: "library_snapshot ops mg = (mg', ms) \<Longrightarrow> registry_step ops publish mg mg'"
| r_loaded: "register_loaded ops mg lib f = Done mg' \<Longrightarrow> registry_step ops publish mg mg'"
| r_aliases: "register_initial_aliases ops mg = Done mg' \<Longrightarrow> registry_step ops publish mg mg'"
| r_load: "pub \<in> publish \<Longrightarrow> pub (link_ctx mg) = (c, l, is) \<Longrightarrow>
    open_load ops (mg\<lparr>link_ctx := c\<rparr>) (l, is) f = Done (mg', ol) \<Longrightarrow> registry_step ops publish mg mg'"

definition publishes :: "('c \<Rightarrow> 'c \<times> 'l \<times> 'i list) set \<Rightarrow> ('c \<Rightarrow> nat) \<Rightarrow> bool" where
  "publishes publish modules_in \<longleftrightarrow>
     (\<forall>pub\<in>publish. \<forall>c c' l is. pub c = (c', l, is) \<longrightarrow> modules_in c' = modules_in c + length is)"

lemma balanced_step:
  assumes ct: "counts_modules ops modules_in" and pb: "publishes publish modules_in"
    and st: "registry_step ops publish mg mg'" and b: "balanced modules_in mg"
  shows "balanced modules_in mg'"
  using st b
proof (induction rule: registry_step.induct)
  case (r_load pub mg c l "is" f mg' ol)
  have "modules_in c = modules_in (link_ctx mg) + length is"
    using pb r_load(1,2) by (auto simp: publishes_def)
  then show ?case
    using r_load(4) by (intro balanced_open_load [OF ct r_load(3)]) (simp add: balanced_def)
next
  case (r_snapshot mg mg' ms)
  then show ?case using balanced_snapshot [OF ct] by (auto simp: library_snapshot_def)
next
  case (r_aliases mg mg')
  then show ?case using balanced_aliases_loop [OF ct] unfolding register_initial_aliases_def by blast
next
  case (r_register mg ol mg' h)
  then show ?case using balanced_register_handle by blast
next
  case (r_release_handle mg h mg' u)
  then show ?case using balanced_release_handle [OF ct] by blast
next
  case (r_release mg l mg' w)
  then show ?case using balanced_release [OF ct] by blast
next
  case (r_open_existing mg k f mg' r)
  then show ?case using balanced_open_existing [OF ct] by blast
next
  case (r_open_module mg i mg' r)
  then show ?case using balanced_open_module [OF ct] by blast
next
  case (r_promote mg i f mg')
  then show ?case using balanced_promote [OF ct] by blast
next
  case (r_by_addr mg a mg' r)
  then show ?case using balanced_by_addr(1) [OF ct] by blast
next
  case (r_module_by_addr mg a mg' m)
  then show ?case using balanced_by_addr(3) [OF ct] by blast
next
  case (r_acquire mg a mg' q)
  then show ?case using balanced_by_addr(2) [OF ct] by blast
next
  case (r_next mg a name mg' y)
  then show ?case using balanced_by_addr(4) [OF ct] by blast
next
  case (r_loaded mg lib f mg')
  then show ?case using balanced_register_loaded [OF ct] by blast
qed


definition demo_manager :: "(nat list, nat, nat) manager" where
  "demo_manager = \<lparr>link_ctx = [7], handles = Map.empty, adds = 1, subs = 0\<rparr>"


end
