(* ===== verification/Open.thy ===== *)
theory Open
  imports Manager Ld_Cache
begin

text \<open>
  The opening pipeline (\<open>src/src/dlopen/run.rs\<close>): environment lookup, the search order, and
  \<open>open_with\<close>, which reuses a loaded module or drives \<open>elf_loader\<close>'s linker through its phases.
  The linker is third-party code: its phases are a record of functions \<open>linker_ops\<close>, over abstract
  types for what each phase hands to the next.
\<close>

section \<open>Environment and search order\<close>

text \<open>\<open>str::split_once('=')\<close>.\<close>

fun split_once :: "u8 \<Rightarrow> bytes \<Rightarrow> (bytes \<times> bytes) option" where
  "split_once d [] = None"
| "split_once d (b # bs) =
     (if b = d then Some ([], bs) else map_option (\<lambda>(k, v). (b # k, v)) (split_once d bs))"

text \<open>The environment is the list of strings that \<open>ENVP\<close> points to, \<open>None\<close> for a null pointer.\<close>

fun get_env_loop :: "bytes list \<Rightarrow> bytes \<Rightarrow> bytes option" where
  "get_env_loop [] name = None"
| "get_env_loop (e # es) name =
     (case Option.bind (from_utf8 e) (split_once 61) of
        Some (k, v) \<Rightarrow> if k = name then Some v else get_env_loop es name
      | None \<Rightarrow> get_env_loop es name)"

definition get_env :: "bytes list option \<Rightarrow> bytes \<Rightarrow> bytes option" where
  "get_env envp name = (case envp of None \<Rightarrow> None | Some es \<Rightarrow> get_env_loop es name)"

text \<open>\<open>str::split(':')\<close>.\<close>

fun split_on :: "u8 \<Rightarrow> bytes \<Rightarrow> bytes list" where
  "split_on d [] = [[]]"
| "split_on d (b # bs) =
     (if b = d then [] # split_on d bs
      else case split_on d bs of [] \<Rightarrow> [[b]] | w # ws \<Rightarrow> (b # w) # ws)"

datatype search_entry = Rpath | FixedDir bytes | Runpath | CacheProvider

definition platform_default_paths :: "search_entry list" where
  "platform_default_paths = map (\<lambda>p. FixedDir (ascii p)) [''/lib/x86_64-linux-gnu'', ''/usr/lib/x86_64-linux-gnu'']"

definition search_paths :: "bytes list option \<Rightarrow> search_entry list" where
  "search_paths envp =
     [Rpath] @
     (case get_env envp (ascii ''LD_LIBRARY_PATH'') of
        None \<Rightarrow> []
      | Some paths \<Rightarrow> map FixedDir (filter (\<lambda>p. p \<noteq> []) (split_on 58 paths))) @
     [Runpath, CacheProvider] @ platform_default_paths @
     map (\<lambda>p. FixedDir (ascii p)) [''/lib'', ''/usr/lib'', ''/lib64'', ''/usr/lib64'']"

text \<open>The candidate that the cache contributes; \<open>LD_CACHE\<close> is \<open>None\<close> if the cache could not be read.\<close>

definition cache_candidate :: "ld_cache option \<Rightarrow> bytes \<Rightarrow> bytes option run" where
  "cache_candidate cache request = (case cache of None \<Rightarrow> Done None | Some c \<Rightarrow> lookup c request)"

section \<open>The pipeline\<close>

text \<open>The crate's \<open>Error\<close>; \<open>'e\<close> is the error type of \<open>elf_loader\<close>, an I/O error is kept as its text.\<close>

datatype 'e open_error = LoaderError 'e | FindLibError bytes | FindSymbolError bytes
  | ParseLdCacheError bytes | Unsupported | IO bytes

datatype 'raw link_root = File bytes | Binary bytes bytes | Mapped bytes 'raw

record ('c, 'i, 'l, 'e, 'raw, 'p, 'q, 'b, 'f) linker_ops =
  load_dylib :: "open_flags \<Rightarrow> bytes \<Rightarrow> bytes \<Rightarrow> 'e + 'raw"
  resolve_committed :: "'i option \<Rightarrow> 'c \<Rightarrow> bytes \<Rightarrow> 'c \<times> ('e + 'i option)"
  prepare_load :: "'i option \<Rightarrow> open_flags \<Rightarrow> 'c \<Rightarrow> bytes \<Rightarrow> 'c \<times> ('e + 'p)"
  prepare_mapped :: "'i option \<Rightarrow> open_flags \<Rightarrow> 'c \<Rightarrow> bytes \<Rightarrow> 'raw \<Rightarrow> 'c \<times> ('e + 'p)"
  relocate :: "'p \<Rightarrow> 'e + 'q"
  publish :: "'c \<Rightarrow> 'q \<Rightarrow> 'c \<times> ('e + 'b)"
  pub_root :: "'b \<Rightarrow> 'i"
  pub_rollback :: "'c \<Rightarrow> 'b \<Rightarrow> 'c \<times> 'e option"
  initialize :: "'b \<Rightarrow> 'f + 'l \<times> 'i list"
  failed_rollback :: "'c \<Rightarrow> 'f \<Rightarrow> 'c \<times> 'e"

definition is_mapped_root :: "'raw link_root \<Rightarrow> bool" where
  "is_mapped_root r = (case r of Mapped _ _ \<Rightarrow> True | _ \<Rightarrow> False)"

definition is_binary_root :: "'raw link_root \<Rightarrow> bool" where
  "is_binary_root r = (case r of Binary _ _ \<Rightarrow> True | _ \<Rightarrow> False)"

text \<open>The caller's hook \<open>before_init\<close> runs once the modules are published and may change the registry and a state
  \<open>'x\<close> of its own, which the pipeline only hands on.  All callers but the start-up of a program pass one that does
  nothing.\<close>

type_synonym ('c, 'i, 'l, 'm, 'e, 'x) hook =
  "('c, 'l, 'm) manager \<Rightarrow> 'x \<Rightarrow> 'i \<Rightarrow> (('c, 'l, 'm) manager \<times> 'x \<times> 'e open_error option) run"

definition no_hook :: "('c, 'i, 'l, 'm, 'e, 'x) hook" where
  "no_hook mg x i = Done (mg, x, None)"

text \<open>The last phases: relocation, publication, the caller's hook, initialisation.  The code that relocation and
  initialisation run inside the loaded modules is taken not to call the loader.\<close>

definition finish_open ::
  "('c, 'i, 'l, 'm, 'y) link_ops \<Rightarrow> ('c, 'i, 'l, 'e, 'raw, 'p, 'q, 'b, 'f) linker_ops \<Rightarrow> ('c, 'i, 'l, 'm, 'e, 'x) hook \<Rightarrow>
     ('c, 'l, 'm) manager \<Rightarrow> 'x \<Rightarrow> open_flags \<Rightarrow> 'p \<Rightarrow>
     (('c, 'l, 'm) manager \<times> 'x \<times> ('e open_error + ('l, 'm) opened_library)) run" where
  "finish_open ops lk before_init mg x flags prepared =
     (case relocate lk prepared of
        Inl e \<Rightarrow> Done (mg, x, Inl (LoaderError e))
      | Inr relocated \<Rightarrow>
          (case publish lk (link_ctx mg) relocated of
             (c1, Inl e) \<Rightarrow> Done (mg\<lparr>link_ctx := c1\<rparr>, x, Inl (LoaderError e))
           | (c1, Inr published) \<Rightarrow>
               run_bind (before_init (mg\<lparr>link_ctx := c1\<rparr>) x (pub_root lk published)) (\<lambda>(mg1, x1, answer).
               case answer of
                 Some error \<Rightarrow>
                   (case pub_rollback lk (link_ctx mg1) published of
                      (c2, None) \<Rightarrow> Done (mg1\<lparr>link_ctx := c2\<rparr>, x1, Inl error)
                    | (c2, Some e) \<Rightarrow> Done (mg1\<lparr>link_ctx := c2\<rparr>, x1, Inl (LoaderError e)))
               | None \<Rightarrow>
                   (case initialize lk published of
                      Inr load \<Rightarrow> run_bind (open_load ops mg1 load flags) (\<lambda>(mg2, ol). Done (mg2, x1, Inr ol))
                    | Inl failed \<Rightarrow>
                        (case failed_rollback lk (link_ctx mg1) failed of
                           (c2, e) \<Rightarrow> Done (mg1\<lparr>link_ctx := c2\<rparr>, x1, Inl (LoaderError e)))))))"

definition not_found :: "bytes \<Rightarrow> 'e open_error" where
  "not_found request = FindLibError (ascii ''can not find file: '' @ request)"

text \<open>Resolving and preparing, once no loaded module answers the request.\<close>

definition link_open ::
  "('c, 'i, 'l, 'm, 'y) link_ops \<Rightarrow> ('c, 'i, 'l, 'e, 'raw, 'p, 'q, 'b, 'f) linker_ops \<Rightarrow> ('c, 'i, 'l, 'm, 'e, 'x) hook \<Rightarrow>
     ('c, 'l, 'm) manager \<Rightarrow> 'x \<Rightarrow> bytes \<Rightarrow> open_flags \<Rightarrow> 'raw link_root \<Rightarrow> usize option \<Rightarrow>
     (('c, 'l, 'm) manager \<times> 'x \<times> ('e open_error + ('l, 'm) opened_library)) run" where
  "link_open ops lk before_init mg x request flags root caller =
     (let (c1, caller_id) = (case caller of None \<Rightarrow> (link_ctx mg, None) | Some a \<Rightarrow> module_id_at ops (link_ctx mg) a);
          mg1 = mg\<lparr>link_ctx := c1\<rparr>
      in case root of
           File path \<Rightarrow>
             if is_noload flags then
               (case resolve_committed lk caller_id c1 path of
                  (c2, Inl e) \<Rightarrow> Done (mg1\<lparr>link_ctx := c2\<rparr>, x, Inl (LoaderError e))
                | (c2, Inr None) \<Rightarrow> Done (mg1\<lparr>link_ctx := c2\<rparr>, x, Inl (not_found request))
                | (c2, Inr (Some i)) \<Rightarrow>
                    run_bind (promote ops (mg1\<lparr>link_ctx := c2\<rparr>) i flags) (\<lambda>mg2.
                    case open_module ops mg2 i of
                      (mg3, None) \<Rightarrow> Panic
                    | (mg3, Some ol) \<Rightarrow> Done (mg3, x, Inr ol)))
             else (case prepare_load lk caller_id flags c1 path of
                     (c2, Inl e) \<Rightarrow> Done (mg1\<lparr>link_ctx := c2\<rparr>, x, Inl (LoaderError e))
                   | (c2, Inr p) \<Rightarrow> finish_open ops lk before_init (mg1\<lparr>link_ctx := c2\<rparr>) x flags p)
         | Binary _ _ \<Rightarrow> Panic
         | Mapped k raw \<Rightarrow>
             (case prepare_mapped lk caller_id flags c1 k raw of
                (c2, Inl e) \<Rightarrow> Done (mg1\<lparr>link_ctx := c2\<rparr>, x, Inl (LoaderError e))
              | (c2, Inr p) \<Rightarrow> finish_open ops lk before_init (mg1\<lparr>link_ctx := c2\<rparr>) x flags p))"

definition effective_flags :: "bytes list option \<Rightarrow> open_flags \<Rightarrow> open_flags" where
  "effective_flags envp flags =
     (if get_env envp (ascii ''LD_BIND_NOW'') \<noteq> None then flags OR RTLD_NOW else flags)"

definition open_with ::
  "('c, 'i, 'l, 'm, 'y) link_ops \<Rightarrow> ('c, 'i, 'l, 'e, 'raw, 'p, 'q, 'b, 'f) linker_ops \<Rightarrow> ('c, 'i, 'l, 'm, 'e, 'x) hook \<Rightarrow>
     bytes list option \<Rightarrow> ('c, 'l, 'm) manager \<Rightarrow> 'x \<Rightarrow> bytes \<Rightarrow> open_flags \<Rightarrow> 'raw link_root \<Rightarrow> usize option \<Rightarrow>
     (('c, 'l, 'm) manager \<times> 'x \<times> ('e open_error + ('l, 'm) opened_library)) run" where
  "open_with ops lk before_init envp mg x request flags0 root caller =
     (let flags = effective_flags envp flags0 in
      run_bind (if is_mapped_root root then Done (mg, None) else open_existing ops mg request flags) (\<lambda>(mg1, found).
      case found of
        Some ol \<Rightarrow> Done (mg1, x, Inr ol)
      | None \<Rightarrow>
          if is_noload flags \<and> is_binary_root root then Done (mg1, x, Inl (not_found request))
          else (case root of
                  Binary k bs \<Rightarrow>
                    (case load_dylib lk flags k bs of
                       Inl e \<Rightarrow> Done (mg1, x, Inl (LoaderError e))
                     | Inr raw \<Rightarrow> link_open ops lk before_init mg1 x request flags (Mapped k raw) caller)
                | _ \<Rightarrow> link_open ops lk before_init mg1 x request flags root caller)))"

definition open_main :: "('c, 'i, 'l, 'm, 'y) link_ops \<Rightarrow> ('c, 'l, 'm) manager \<Rightarrow> (('c, 'l, 'm) manager \<times> ('l, 'm) opened_library) run" where
  "open_main ops mg = (let (mg1, r) = main_library ops mg in run_bind (expect r) (\<lambda>ol. Done (mg1, ol)))"

definition open_file ::
  "('c, 'i, 'l, 'm, 'y) link_ops \<Rightarrow> ('c, 'i, 'l, 'e, 'raw, 'p, 'q, 'b, 'f) linker_ops \<Rightarrow> bytes list option \<Rightarrow>
     ('c, 'l, 'm) manager \<Rightarrow> bytes \<Rightarrow> open_flags \<Rightarrow> usize \<Rightarrow>
     (('c, 'l, 'm) manager \<times> ('e open_error + ('l, 'm) opened_library)) run" where
  "open_file ops lk envp mg path flags caller =
     run_bind (open_with ops lk no_hook envp mg () path flags (File path) (Some caller)) (\<lambda>(mg', _, r). Done (mg', r))"

definition dlopen_from_binary ::
  "('c, 'i, 'l, 'm, 'y) link_ops \<Rightarrow> ('c, 'i, 'l, 'e, 'raw, 'p, 'q, 'b, 'f) linker_ops \<Rightarrow> bytes list option \<Rightarrow>
     ('c, 'l, 'm) manager \<Rightarrow> bytes \<Rightarrow> bytes \<Rightarrow> open_flags \<Rightarrow> usize \<Rightarrow>
     (('c, 'l, 'm) manager \<times> ('e open_error + ('l, 'm) opened_library)) run" where
  "dlopen_from_binary ops lk envp mg bs path flags caller =
     run_bind (open_with ops lk no_hook envp mg () path flags (Binary path bs) (Some caller)) (\<lambda>(mg', _, r). Done (mg', r))"

section \<open>Properties\<close>

lemma split_once_Some:
  "split_once d e = Some (k, v) \<longleftrightarrow> e = k @ d # v \<and> d \<notin> set k"
proof (induction e arbitrary: k)
  case Nil
  then show ?case by simp
next
  case (Cons b e)
  show ?case
  proof (cases "b = d")
    case True
    then show ?thesis by (cases k) auto
  next
    case False
    then show ?thesis using Cons by (cases k) auto
  qed
qed

text \<open>An entry defines a variable if it is valid UTF-8 and its part before the first \<open>=\<close> is the name.\<close>

definition binds_var :: "bytes \<Rightarrow> bytes \<Rightarrow> bytes \<Rightarrow> bool" where
  "binds_var name e v \<longleftrightarrow> utf8_valid e \<and> e = name @ 61 # v \<and> 61 \<notin> set name"

definition env_entry :: "bytes \<Rightarrow> bytes \<Rightarrow> bytes option" where
  "env_entry name e =
     (case Option.bind (from_utf8 e) (split_once 61) of
        Some (k, v) \<Rightarrow> if k = name then Some v else None | None \<Rightarrow> None)"

lemma env_entry_Some: "env_entry name e = Some v \<longleftrightarrow> binds_var name e v"
proof -
  have "env_entry name e = Some v \<longleftrightarrow> utf8_valid e \<and> split_once 61 e = Some (name, v)"
    by (auto simp: env_entry_def from_utf8_def split: option.splits if_splits)
  then show ?thesis by (simp only: split_once_Some binds_var_def)
qed

lemma env_entry_None: "env_entry name e = None \<longleftrightarrow> (\<forall>w. \<not> binds_var name e w)"
  by (simp flip: env_entry_Some)

lemma get_env_loop_find_map: "get_env_loop es name = find_map (env_entry name) es"
  by (induction es) (auto simp: env_entry_def split: option.splits)

text \<open>Looking up an environment variable returns the value of the first entry that defines it, and
  nothing if no entry does; entries that are not valid UTF-8 or have no \<open>=\<close> are skipped.\<close>

theorem get_env_first:
  "(get_env (Some es) name = Some v \<longleftrightarrow>
      (\<exists>us e vs. es = us @ e # vs \<and> binds_var name e v \<and> (\<forall>u\<in>set us. \<forall>w. \<not> binds_var name u w))) \<and>
   (get_env (Some es) name = None \<longleftrightarrow> (\<forall>e\<in>set es. \<forall>w. \<not> binds_var name e w))"
  by (simp only: get_env_def option.case get_env_loop_find_map find_map_Some find_map_None env_entry_None
      env_entry_Some simp_thms)

theorem get_env_first_witness:
  "get_env (Some [ascii ''A=1'', ascii ''B'', ascii ''B=x=y'', ascii ''B=z'']) (ascii ''B'') = Some (ascii ''x=y'')"
proof -
  let ?es = "[ascii ''A=1'', ascii ''B'', ascii ''B=x=y'', ascii ''B=z'']"
  have "binds_var (ascii ''B'') (ascii ''B=x=y'') (ascii ''x=y'')"
    by (simp add: binds_var_def ascii_def of_char_def word_less_nat_alt)
  moreover have "\<not> binds_var (ascii ''B'') u w" if "u \<in> {ascii ''A=1'', ascii ''B''}" for u w
    using that by (auto simp: binds_var_def ascii_def)
  ultimately show ?thesis
    using conjunct1 [OF get_env_first [of ?es "ascii ''B''" "ascii ''x=y''"]]
    by (metis append_Cons append_Nil empty_set insert_iff list.simps(15) singletonD)
qed

lemma is_noload_effective: "is_noload (effective_flags envp f) = is_noload f"
proof -
  have "(f OR 2) AND 4 = f AND (4 :: open_flags)"
    by (simp add: bit.conj_disj_distrib2)
  then show ?thesis
    by (simp add: effective_flags_def is_noload_def contains_flags_def RTLD_NOW_def RTLD_NOLOAD_def)
qed

lemma promote_counters:
  "promote ops mg i f = Done mg' \<Longrightarrow> adds mg' = adds mg \<and> subs mg' = subs mg \<and> handles mg' = handles mg"
  unfolding promote_def Let_def run_bind_Done by auto

lemma open_module_counters:
  "open_module ops mg i = (mg', r) \<Longrightarrow> adds mg' = adds mg \<and> subs mg' = subs mg \<and> handles mg' = handles mg"
  by (auto simp: open_module_def acquire_module_def split: split_asms)

lemma open_existing_counters:
  "open_existing ops mg k f = Done (mg', r) \<Longrightarrow> adds mg' = adds mg \<and> subs mg' = subs mg \<and> handles mg' = handles mg"
  using promote_counters open_module_counters
  by (fastforce simp: open_existing_def run_bind_Done split: option.split_asm)

text \<open>A hook that changes neither handles nor counters.\<close>

definition hook_keeps :: "('c, 'i, 'l, 'm, 'e, 'x) hook \<Rightarrow> bool" where
  "hook_keeps hk \<longleftrightarrow> (\<forall>mg x i mg' x' r. hk mg x i = Done (mg', x', r) \<longrightarrow>
     adds mg' = adds mg \<and> subs mg' = subs mg \<and> handles mg' = handles mg)"

lemma hook_keeps_no_hook [simp]: "hook_keeps no_hook"
  by (simp add: hook_keeps_def no_hook_def)

lemma finish_open_error:
  assumes "hook_keeps bi" "finish_open ops lk bi mg x f p = Done (mg', x', Inl e)"
  shows "adds mg' = adds mg \<and> subs mg' = subs mg \<and> handles mg' = handles mg"
proof -
  have bi: "adds mg2 = adds mg1 \<and> subs mg2 = subs mg1 \<and> handles mg2 = handles mg1" if "bi mg1 y i = Done (mg2, z, r)"
    for mg1 y i mg2 z r
    using assms(1) that unfolding hook_keeps_def by blast
  show ?thesis
    using assms(2) by (auto simp: finish_open_def run_bind_case split: split_asms dest!: bi)
qed

lemma link_open_error:
  assumes "hook_keeps bi" "link_open ops lk bi mg x request f root caller = Done (mg', x', Inl e)"
  shows "adds mg' = adds mg \<and> subs mg' = subs mg \<and> handles mg' = handles mg"
  using assms(2) finish_open_error [OF assms(1), of ops lk]
  by (auto simp: link_open_def run_bind_case Let_def split: split_asms link_root.split_asm)

text \<open>A linker for the examples that knows no file and fails to prepare any with the given code.\<close>

definition demo_linker :: "nat \<Rightarrow> (nat list, nat, nat, nat, nat, nat, nat, nat, nat) linker_ops" where
  "demo_linker code = \<lparr>
     load_dylib = (\<lambda>f k bs. Inr code), resolve_committed = (\<lambda>caller c path. (c, Inr None)),
     prepare_load = (\<lambda>caller f c path. (c, Inl code)), prepare_mapped = (\<lambda>caller f c k raw. (c, Inl code)),
     relocate = (\<lambda>p. Inr p), publish = (\<lambda>c q. (c, Inr q)), pub_root = (\<lambda>b. b),
     pub_rollback = (\<lambda>c b. (c, None)), initialize = (\<lambda>b. Inl b), failed_rollback = (\<lambda>c f. (c, f))\<rparr>"



text \<open>With \<open>RTLD_NOLOAD\<close> a file or binary is never loaded: the answer does not depend on the phases
  that map, relocate, publish and initialise modules.\<close>

theorem noload_never_loads:
  assumes "is_noload flags" and "\<not> is_mapped_root root"
    and "resolve_committed lk = resolve_committed lk'"
  shows "open_with ops lk before_init envp mg x request flags root caller =
    open_with ops lk' before_init' envp mg x request flags root caller"
proof -
  have "link_open ops lk before_init mg1 x request (effective_flags envp flags) (File path) caller =
      link_open ops lk' before_init' mg1 x request (effective_flags envp flags) (File path) caller" for mg1 path
    using assms(1,3) by (simp add: link_open_def is_noload_effective)
  then show ?thesis
    using assms(1,2)
    by (cases root) (simp_all add: open_with_def is_noload_effective is_binary_root_def is_mapped_root_def Let_def cong: option.case_cong)
qed

theorem noload_never_loads_witness:
  "open_with demo_ops (demo_linker 5) no_hook None demo_manager () [1] 4 (File [1]) None =
   open_with demo_ops (demo_linker 6) no_hook None demo_manager () [1] 4 (File [1]) None"
  using noload_never_loads [of 4 "File [1]" "demo_linker 5" "demo_linker 6" demo_ops no_hook None demo_manager "()" "[1]" None no_hook]
  by (simp add: is_noload_def contains_flags_def RTLD_NOLOAD_def is_mapped_root_def demo_linker_def)

end
