(* ===== verification/Dl_Error.thy ===== *)
theory Dl_Error
  imports Prelude
begin

text \<open>
  The per-thread error slot behind \<open>dlerror\<close> (\<open>src/src/api/dlerror.rs\<close>): the \<open>std\<close> build keeps
  it in thread-local storage, the \<open>no_std\<close> build in a map keyed by the thread pointer.  A C string
  is the list of its bytes without the terminator, a returned pointer the string it points to,
  \<open>None\<close> for null.  Both builds implement the contract of the locale \<open>error_slot\<close>.
\<close>

section \<open>The slot\<close>

record dl_error_state =
  pending :: "bytes option"
  returned :: "bytes option"

definition dl_new :: dl_error_state where
  "dl_new = \<lparr>pending = None, returned = None\<rparr>"

definition with_error :: "bytes \<Rightarrow> dl_error_state" where
  "with_error e = \<lparr>pending = Some e, returned = None\<rparr>"

definition dl_take :: "dl_error_state \<Rightarrow> dl_error_state \<times> bytes option" where
  "dl_take st = (let st1 = st\<lparr>returned := pending st, pending := None\<rparr> in (st1, returned st1))"

text \<open>The argument is the displayed error; \<open>b'?'\<close> is 63.\<close>

definition error_message :: "bytes \<Rightarrow> bytes run" where
  "error_message msg =
     (let bs = map (\<lambda>b. if b = 0 then 63 else b) msg
      in if 0 \<in> set bs then Panic else Done bs)"

definition clean :: "bytes \<Rightarrow> bytes" where
  "clean msg = map (\<lambda>b. if b = 0 then 63 else b) msg"

lemma error_message_no_panic [no_panic]: "error_message msg = Done (clean msg)"
  by (auto simp: error_message_def clean_def Let_def)

lemma clean_no_nul: "0 \<notin> set (clean msg)"
  by (auto simp: clean_def)

section \<open>The two builds\<close>

type_synonym std_slots = "nat \<Rightarrow> dl_error_state"
type_synonym map_slots = "usize \<rightharpoonup> dl_error_state"

definition std_clear :: "std_slots \<Rightarrow> nat \<Rightarrow> std_slots" where
  "std_clear s t = s(t := dl_new)"

definition std_set :: "std_slots \<Rightarrow> nat \<Rightarrow> bytes \<Rightarrow> std_slots run" where
  "std_set s t msg = run_bind (error_message msg) (\<lambda>e. Done (s(t := with_error e)))"

definition std_take :: "std_slots \<Rightarrow> nat \<Rightarrow> std_slots \<times> bytes option" where
  "std_take s t = (let (st, r) = dl_take (s t) in (s(t := st), r))"

definition map_clear :: "map_slots \<Rightarrow> usize \<Rightarrow> map_slots" where
  "map_clear s key = s(key := None)"

definition map_set :: "map_slots \<Rightarrow> usize \<Rightarrow> bytes \<Rightarrow> map_slots run" where
  "map_set s key msg = run_bind (error_message msg) (\<lambda>e. Done (s(key \<mapsto> with_error e)))"

definition map_take :: "map_slots \<Rightarrow> usize \<Rightarrow> map_slots \<times> bytes option" where
  "map_take s key =
     (case s key of
        None \<Rightarrow> (s, None)
      | Some state \<Rightarrow>
          let (state', error) = dl_take state;
              s1 = s(key \<mapsto> state')
          in (if error = None then s1(key := None) else s1, error))"

section \<open>The contract\<close>

datatype 't call = Clear 't | Set 't bytes | Take 't

fun spec_run :: "('t \<Rightarrow> bytes option) \<Rightarrow> 't call list \<Rightarrow> bytes option list" where
  "spec_run p [] = []"
| "spec_run p (Clear t # cs) = spec_run (p(t := None)) cs"
| "spec_run p (Set t msg # cs) = spec_run (p(t := Some (clean msg))) cs"
| "spec_run p (Take t # cs) = p t # spec_run (p(t := None)) cs"

locale error_slot =
  fixes clear_op :: "'s \<Rightarrow> 't \<Rightarrow> 's"
    and set_op :: "'s \<Rightarrow> 't \<Rightarrow> bytes \<Rightarrow> 's run"
    and take_op :: "'s \<Rightarrow> 't \<Rightarrow> 's \<times> bytes option"
    and pending_of :: "'s \<Rightarrow> 't \<Rightarrow> bytes option"
  assumes clear_law: "pending_of (clear_op s t) = (pending_of s)(t := None)"
    and set_law: "\<exists>s'. set_op s t msg = Done s' \<and> pending_of s' = (pending_of s)(t := Some (clean msg))"
    and take_result: "snd (take_op s t) = pending_of s t"
    and take_law: "pending_of (fst (take_op s t)) = (pending_of s)(t := None)"
begin

fun run_calls :: "'s \<Rightarrow> 't call list \<Rightarrow> bytes option list run" where
  "run_calls s [] = Done []"
| "run_calls s (Clear t # cs) = run_calls (clear_op s t) cs"
| "run_calls s (Set t msg # cs) = run_bind (set_op s t msg) (\<lambda>s1. run_calls s1 cs)"
| "run_calls s (Take t # cs) =
     run_bind (run_calls (fst (take_op s t)) cs) (\<lambda>rs. Done (snd (take_op s t) # rs))"

lemma run_calls_spec: "run_calls s cs = Done (spec_run (pending_of s) cs)"
proof (induction cs arbitrary: s)
  case Nil
  then show ?case by simp
next
  case (Cons c cs)
  show ?case
  proof (cases c)
    case (Clear t)
    then show ?thesis by (simp add: Cons clear_law del: fun_upd_apply)
  next
    case (Set t msg)
    obtain s' where "set_op s t msg = Done s'" "pending_of s' = (pending_of s)(t := Some (clean msg))"
      using set_law by blast
    with Set show ?thesis by (simp add: Cons del: fun_upd_apply)
  next
    case (Take t)
    then show ?thesis by (simp add: Cons take_law take_result del: fun_upd_apply)
  qed
qed

end

definition std_pending :: "std_slots \<Rightarrow> nat \<Rightarrow> bytes option" where
  "std_pending s t = pending (s t)"

definition map_pending :: "map_slots \<Rightarrow> usize \<Rightarrow> bytes option" where
  "map_pending s key = Option.bind (s key) pending"

lemma std_set_eq: "std_set s t msg = Done (s(t := with_error (clean msg)))"
  by (simp add: std_set_def error_message_no_panic)

lemma map_set_eq: "map_set s key msg = Done (s(key \<mapsto> with_error (clean msg)))"
  by (simp add: map_set_def error_message_no_panic)

lemmas slot_defs = dl_new_def with_error_def dl_take_def Let_def fun_eq_iff

interpretation std_slot: error_slot std_clear std_set std_take std_pending
proof unfold_locales
  fix s :: std_slots and t msg
  have "std_pending (s(t := with_error (clean msg))) = (std_pending s)(t := Some (clean msg))"
    by (simp add: std_pending_def slot_defs)
  then show "\<exists>s'. std_set s t msg = Done s' \<and> std_pending s' = (std_pending s)(t := Some (clean msg))"
    unfolding std_set_eq by blast
qed (simp_all add: std_clear_def std_take_def std_pending_def slot_defs)

interpretation map_slot: error_slot map_clear map_set map_take map_pending
proof unfold_locales
  fix s :: map_slots and t msg
  have "map_pending (s(t \<mapsto> with_error (clean msg))) = (map_pending s)(t := Some (clean msg))"
    by (simp add: map_pending_def slot_defs)
  then show "\<exists>s'. map_set s t msg = Done s' \<and> map_pending s' = (map_pending s)(t := Some (clean msg))"
    unfolding map_set_eq by blast
qed (simp_all add: map_clear_def map_take_def map_pending_def slot_defs split: option.split)

section \<open>Properties\<close>

text \<open>The calls of the two builds, with threads numbered by their thread pointers.\<close>

fun std_calls :: "std_slots \<Rightarrow> usize call list \<Rightarrow> bytes option list run" where
  "std_calls s [] = Done []"
| "std_calls s (Clear t # cs) = std_calls (std_clear s (unat t)) cs"
| "std_calls s (Set t msg # cs) = run_bind (std_set s (unat t) msg) (\<lambda>s1. std_calls s1 cs)"
| "std_calls s (Take t # cs) =
     run_bind (std_calls (fst (std_take s (unat t))) cs) (\<lambda>rs. Done (snd (std_take s (unat t)) # rs))"

fun map_calls :: "map_slots \<Rightarrow> usize call list \<Rightarrow> bytes option list run" where
  "map_calls s [] = Done []"
| "map_calls s (Clear t # cs) = map_calls (map_clear s t) cs"
| "map_calls s (Set t msg # cs) = run_bind (map_set s t msg) (\<lambda>s1. map_calls s1 cs)"
| "map_calls s (Take t # cs) =
     run_bind (map_calls (fst (map_take s t)) cs) (\<lambda>rs. Done (snd (map_take s t) # rs))"

lemma map_calls_run: "map_calls s cs = map_slot.run_calls s cs"
  by (induction s cs rule: map_calls.induct) simp_all

lemma std_calls_run: "std_calls s cs = std_slot.run_calls s (map (map_call unat) cs)"
  by (induction s cs rule: std_calls.induct) simp_all

lemma spec_run_rename:
  assumes "inj f"
  shows "spec_run p (map (map_call f) cs) = spec_run (\<lambda>t. p (f t)) cs"
proof (induction cs arbitrary: p)
  case Nil
  then show ?case by simp
next
  case (Cons c cs)
  have "(\<lambda>t. (p(f u := v)) (f t)) = (\<lambda>t. p (f t))(u := v)" for u v
    using assms by (auto simp: fun_eq_iff inj_eq)
  then show ?case by (cases c) (simp_all add: Cons)
qed


end
