(* ===== verification/Api.thy ===== *)
theory Api
  imports Open Dl_Error
begin

text \<open>
  The C interface (\<open>src/src/api/*.rs\<close>) and the thread-exit destructors
  (\<open>src/src/registry/cxa.rs\<close>) on top of the registry: a state is the registry and the error slots of
  the threads.  What a module tells about itself (base, program headers, symbols) is third-party
  data, a record \<open>elf_view\<close> of functions.  A pointer result is its address, 0 for null; a C string
  argument is its bytes, \<open>None\<close> for a null pointer.
\<close>

record ('c, 'l, 'm) process =
  registry :: "('c, 'l, 'm) manager"
  errors :: std_slots

definition set_error :: "('c, 'l, 'm) process \<Rightarrow> nat \<Rightarrow> bytes \<Rightarrow> ('c, 'l, 'm) process run" where
  "set_error s t msg = run_bind (std_set (errors s) t msg) (\<lambda>es. Done (s\<lparr>errors := es\<rparr>))"

definition clear_error :: "('c, 'l, 'm) process \<Rightarrow> nat \<Rightarrow> ('c, 'l, 'm) process" where
  "clear_error s t = s\<lparr>errors := std_clear (errors s) t\<rparr>"

definition dlerror :: "('c, 'l, 'm) process \<Rightarrow> nat \<Rightarrow> ('c, 'l, 'm) process \<times> bytes option" where
  "dlerror s t = (let (es, r) = std_take (errors s) t in (s\<lparr>errors := es\<rparr>, r))"

fun error_text :: "('e \<Rightarrow> bytes) \<Rightarrow> 'e open_error \<Rightarrow> bytes" where
  "error_text show_loader (LoaderError e) = show_loader e"
| "error_text show_loader (FindLibError msg) = msg"
| "error_text show_loader (FindSymbolError msg) = msg"
| "error_text show_loader (ParseLdCacheError msg) = msg"
| "error_text show_loader Unsupported = ascii ''unsupported''"
| "error_text show_loader (IO msg) = ascii ''IO error: '' @ msg"

section \<open>Opening and closing\<close>

definition dlopen_with_caller ::
  "('c, 'i, 'l, 'm, 'y) link_ops \<Rightarrow> ('c, 'i, 'l, 'e, 'raw, 'p, 'q, 'b, 'f) linker_ops \<Rightarrow> ('e \<Rightarrow> bytes) \<Rightarrow>
     bytes list option \<Rightarrow> ('c, 'l, 'm) process \<Rightarrow> nat \<Rightarrow> bytes option \<Rightarrow> open_flags \<Rightarrow> usize \<Rightarrow>
     (('c, 'l, 'm) process \<times> usize) run" where
  "dlopen_with_caller ops lk show_loader envp s0 t filename flags caller =
     (let s = clear_error s0 t;
          finish = (\<lambda>mg ol. run_bind (register_handle ops mg ol) (\<lambda>(mg', h). Done (s\<lparr>registry := mg'\<rparr>, h)))
      in case filename of
           None \<Rightarrow> run_bind (open_main ops (registry s)) (\<lambda>(mg, ol). finish mg ol)
         | Some name \<Rightarrow>
             (case from_utf8 name of
                None \<Rightarrow> run_bind (set_error s t (ascii ''library name is not valid UTF-8'')) (\<lambda>s'. Done (s', 0))
              | Some path \<Rightarrow>
                  run_bind (open_file ops lk envp (registry s) path flags caller) (\<lambda>(mg, r).
                  case r of
                    Inr ol \<Rightarrow> finish mg ol
                  | Inl e \<Rightarrow>
                      run_bind (set_error (s\<lparr>registry := mg\<rparr>) t (error_text show_loader e)) (\<lambda>s'. Done (s', 0)))))"

definition dlclose ::
  "('c, 'i, 'l, 'm, 'y) link_ops \<Rightarrow> ('c, 'l, 'm) process \<Rightarrow> nat \<Rightarrow> usize \<Rightarrow> (('c, 'l, 'm) process \<times> int) run" where
  "dlclose ops s0 t handle =
     (let s = clear_error s0 t in
      if handle = 0 then run_bind (set_error s t (ascii ''invalid library handle'')) (\<lambda>s'. Done (s', - 1))
      else run_bind (release_handle ops (registry s) handle) (\<lambda>(mg, unloaded).
        let s1 = s\<lparr>registry := mg\<rparr> in
        if unloaded \<noteq> None then Done (s1, 0)
        else run_bind (set_error s1 t (ascii ''invalid library handle'')) (\<lambda>s'. Done (s', - 1))))"

section \<open>Symbols\<close>

definition RTLD_DEFAULT :: usize where "RTLD_DEFAULT = 0"
definition RTLD_NEXT :: usize where "RTLD_NEXT = - 1"

definition symbol_missing :: "bytes \<Rightarrow> bytes" where
  "symbol_missing name = ascii ''can not find symbol:'' @ name"

definition dlsym_find ::
  "('c, 'i, 'l, 'm, 'y) link_ops \<Rightarrow> ('c, 'l, 'm) manager \<Rightarrow> usize \<Rightarrow> bytes \<Rightarrow> usize \<Rightarrow> ('c, 'l, 'm) manager \<times> 'y option" where
  "dlsym_find ops mg handle name caller =
     (if handle = RTLD_DEFAULT then (mg, global_find ops mg name)
      else if handle = RTLD_NEXT then next_find ops mg caller name
      else (mg, handle_find ops mg handle name))"

definition dlsym_with_caller ::
  "('c, 'i, 'l, 'm, 'y) link_ops \<Rightarrow> ('y \<Rightarrow> usize) \<Rightarrow> ('c, 'l, 'm) process \<Rightarrow> nat \<Rightarrow> usize \<Rightarrow> bytes option \<Rightarrow> usize \<Rightarrow>
     (('c, 'l, 'm) process \<times> usize) run" where
  "dlsym_with_caller ops into_raw s0 t handle symbol_name caller =
     (let s = clear_error s0 t in
      case symbol_name of
        None \<Rightarrow> run_bind (set_error s t (ascii ''symbol name is null'')) (\<lambda>s'. Done (s', 0))
      | Some nm \<Rightarrow>
          (case from_utf8 nm of
             None \<Rightarrow> run_bind (set_error s t (ascii ''symbol name is not valid UTF-8'')) (\<lambda>s'. Done (s', 0))
           | Some name \<Rightarrow>
               let (mg, sym) = dlsym_find ops (registry s) handle name caller; s1 = s\<lparr>registry := mg\<rparr> in
               (case sym of
                  Some y \<Rightarrow> Done (s1, into_raw y)
                | None \<Rightarrow> run_bind (set_error s1 t (symbol_missing name)) (\<lambda>s'. Done (s', 0)))))"

section \<open>Addresses\<close>

record export_symbol =
  st_value :: usize
  st_size :: usize
  is_exported :: bool
  sym_name :: "bytes option"

record 'm elf_view =
  ev_base :: "'m \<Rightarrow> usize"
  ev_exports :: "'m \<Rightarrow> export_symbol list"
  ev_cname :: "'m \<Rightarrow> usize"
  ev_phdrs :: "'m \<Rightarrow> (u32 \<times> usize) list"
  ev_range_end :: "'m \<Rightarrow> usize \<Rightarrow> usize option"
  ev_tls_modid :: "'m \<Rightarrow> usize option"

definition symbol_covers :: "usize \<Rightarrow> usize \<Rightarrow> export_symbol \<Rightarrow> bool" where
  "symbol_covers base addr sy \<longleftrightarrow>
     is_exported sy \<and> st_value sy \<noteq> 0 \<and> base + st_value sy \<le> addr \<and>
     (st_size sy = 0 \<or> addr < base + st_value sy + st_size sy)"

fun best_symbol :: "usize \<Rightarrow> usize \<Rightarrow> (bytes option \<times> usize) option \<Rightarrow> export_symbol list \<Rightarrow> (bytes option \<times> usize) option" where
  "best_symbol base addr best [] = best"
| "best_symbol base addr best (sy # sys) =
     (if symbol_covers base addr sy \<and> (case best of None \<Rightarrow> True | Some (_, best_start) \<Rightarrow> base + st_value sy > best_start)
      then best_symbol base addr (Some (sym_name sy, base + st_value sy)) sys
      else best_symbol base addr best sys)"

definition find_best_symbol :: "'m elf_view \<Rightarrow> 'm \<Rightarrow> usize \<Rightarrow> (bytes option \<times> usize) option" where
  "find_best_symbol ev m addr = best_symbol (ev_base ev m) addr None (ev_exports ev m)"

record dl_info =
  dli_fbase :: usize
  dli_fname :: usize
  dli_saddr :: usize
  dli_sname :: "bytes option"

text \<open>\<open>dladdr\<close> opens the library and drops it again when the information has been copied.\<close>

definition dladdr ::
  "('c, 'i, 'l, 'm, 'y) link_ops \<Rightarrow> 'm elf_view \<Rightarrow> ('c, 'l, 'm) manager \<Rightarrow> usize \<Rightarrow> (('c, 'l, 'm) manager \<times> dl_info option) run" where
  "dladdr ops ev mg addr =
     (case library_by_addr ops mg addr of
        (mg1, None) \<Rightarrow> Done (mg1, None)
      | (mg1, Some ol) \<Rightarrow>
          run_bind (root_module ops ol) (\<lambda>m.
          let (sname, saddr) = (case find_best_symbol ev m addr of Some r \<Rightarrow> r | None \<Rightarrow> (None, 0)) in
          run_bind (release ops mg1 (lease ol)) (\<lambda>(mg2, _).
          Done (mg2, Some \<lparr>dli_fbase = ev_base ev m, dli_fname = ev_cname ev m, dli_saddr = saddr, dli_sname = sname\<rparr>))))"

definition PT_GNU_EH_FRAME :: u32 where "PT_GNU_EH_FRAME = 0x6474e550"

record find_object =
  dlfo_flags :: usize
  dlfo_map_start :: usize
  dlfo_map_end :: usize
  dlfo_link_map :: usize
  dlfo_eh_frame :: usize
  dlfo_reserved :: "usize list"

definition dl_find_object ::
  "('c, 'i, 'l, 'm, 'y) link_ops \<Rightarrow> 'm elf_view \<Rightarrow> ('c, 'l, 'm) manager \<Rightarrow> usize \<Rightarrow>
     (('c, 'l, 'm) manager \<times> find_object option \<times> int) run" where
  "dl_find_object ops ev mg pc =
     (case module_by_addr ops mg pc of
        (mg1, None) \<Rightarrow> Done (mg1, None, - 1)
      | (mg1, Some m) \<Rightarrow>
          run_bind (expect (link_map_of ops m)) (\<lambda>lm.
          run_bind (expect (ev_range_end ev m pc)) (\<lambda>map_end.
          let eh_frame = (case find (\<lambda>(ty, _). ty = PT_GNU_EH_FRAME) (ev_phdrs ev m) of
                            Some (_, vaddr) \<Rightarrow> ev_base ev m + vaddr | None \<Rightarrow> 0)
          in Done (mg1, Some \<lparr>dlfo_flags = 0, dlfo_map_start = ev_base ev m, dlfo_map_end = map_end,
                     dlfo_link_map = lm, dlfo_eh_frame = eh_frame, dlfo_reserved = replicate 7 0\<rparr>, 0))))"

definition dl_find_dso_for_object ::
  "('c, 'i, 'l, 'm, 'y) link_ops \<Rightarrow> ('c, 'l, 'm) manager \<Rightarrow> usize \<Rightarrow> (('c, 'l, 'm) manager \<times> usize) run" where
  "dl_find_dso_for_object ops mg addr =
     (case module_by_addr ops mg addr of
        (mg1, None) \<Rightarrow> Done (mg1, 0)
      | (mg1, Some m) \<Rightarrow> run_bind (expect (link_map_of ops m)) (\<lambda>lm. Done (mg1, lm)))"

section \<open>Iterating over the program headers\<close>

record phdr_info =
  lib_base :: usize
  lib_name :: usize
  lib_phdrs :: "(u32 \<times> usize) list"
  dlpi_adds :: u64
  dlpi_subs :: u64
  tls_modid :: usize
  tls_data :: usize

definition phdr_info_of :: "'m elf_view \<Rightarrow> (usize \<Rightarrow> usize) \<Rightarrow> u64 \<Rightarrow> u64 \<Rightarrow> 'm \<Rightarrow> phdr_info" where
  "phdr_info_of ev tls_data_ptr a sb m =
     \<lparr>lib_base = ev_base ev m, lib_name = ev_cname ev m, lib_phdrs = ev_phdrs ev m, dlpi_adds = a, dlpi_subs = sb,
      tls_modid = (case ev_tls_modid ev m of Some i \<Rightarrow> i | None \<Rightarrow> 0),
      tls_data = (case ev_tls_modid ev m of Some i \<Rightarrow> tls_data_ptr i | None \<Rightarrow> 0)\<rparr>"

text \<open>The callback has a state of its own, the \<open>data\<close> argument; an \<open>expect\<close> on the extra data of a
  module without a link map panics.\<close>

fun iterate_modules ::
  "('c, 'i, 'l, 'm, 'y) link_ops \<Rightarrow> 'm elf_view \<Rightarrow> (usize \<Rightarrow> usize) \<Rightarrow> u64 \<Rightarrow> u64 \<Rightarrow> ('d \<Rightarrow> phdr_info \<Rightarrow> 'd \<times> int) \<Rightarrow> 'd \<Rightarrow>
     'm list \<Rightarrow> ('d \<times> int) run" where
  "iterate_modules ops ev tdp a sb cb d [] = Done (d, 0)"
| "iterate_modules ops ev tdp a sb cb d (m # ms) =
     run_bind (expect (link_map_of ops m)) (\<lambda>_.
     if ev_phdrs ev m = [] then iterate_modules ops ev tdp a sb cb d ms
     else let (d1, ret) = cb d (phdr_info_of ev tdp a sb m)
          in if ret \<noteq> 0 then Done (d1, ret) else iterate_modules ops ev tdp a sb cb d1 ms)"

fun release_all :: "('c, 'i, 'l, 'm, 'y) link_ops \<Rightarrow> ('c, 'l, 'm) manager \<Rightarrow> 'l list \<Rightarrow> ('c, 'l, 'm) manager run" where
  "release_all ops mg [] = Done mg"
| "release_all ops mg (l # ls) = run_bind (release ops mg l) (\<lambda>(mg1, _). release_all ops mg1 ls)"

definition dl_iterate_phdr ::
  "('c, 'i, 'l, 'm, 'y) link_ops \<Rightarrow> 'm elf_view \<Rightarrow> (usize \<Rightarrow> usize) \<Rightarrow> ('c, 'l, 'm) manager \<Rightarrow>
     ('d \<Rightarrow> phdr_info \<Rightarrow> 'd \<times> int) option \<Rightarrow> 'd \<Rightarrow> (('c, 'l, 'm) manager \<times> 'd \<times> int) run" where
  "dl_iterate_phdr ops ev tdp mg callback d =
     (case callback of
        None \<Rightarrow> Done (mg, d, 0)
      | Some cb \<Rightarrow>
          let (mg1, libs) = library_snapshot ops mg in
          run_bind (iterate_modules ops ev tdp (adds mg) (subs mg) cb d (map fst libs)) (\<lambda>(d1, ret).
          run_bind (release_all ops mg1 (map snd libs)) (\<lambda>mg2. Done (mg2, d1, ret))))"

section \<open>Destructors that run at thread exit\<close>

record 'l thread_destructor =
  td_func :: usize
  td_arg :: usize
  td_lease :: "'l option"

text \<open>\<open>wrapper\<close> is the address of \<open>run_thread_destructor\<close>.\<close>

definition register_thread_destructor ::
  "('c, 'i, 'l, 'm, 'y) link_ops \<Rightarrow> usize \<Rightarrow> ('l thread_destructor \<Rightarrow> usize \<Rightarrow> int) \<Rightarrow> ('c, 'l, 'm) manager \<Rightarrow> usize \<Rightarrow> usize \<Rightarrow> usize \<Rightarrow>
     (('c, 'l, 'm) manager \<times> 'l thread_destructor option \<times> int) run" where
  "register_thread_destructor ops wrapper thread_atexit mg func arg dso_handle =
     (let (mg1, l) = acquire_module_by_addr ops mg dso_handle;
          d = \<lparr>td_func = func, td_arg = arg, td_lease = l\<rparr>;
          owner = (if l \<noteq> None then wrapper else dso_handle);
          result = thread_atexit d owner
      in if result \<noteq> 0
         then (case l of
                 None \<Rightarrow> Done (mg1, None, result)
               | Some x \<Rightarrow> run_bind (release ops mg1 x) (\<lambda>(mg2, _). Done (mg2, None, result)))
         else Done (mg1, Some d, result))"

text \<open>Running the destructor drops the lease afterwards.\<close>

definition run_thread_destructor ::
  "('c, 'i, 'l, 'm, 'y) link_ops \<Rightarrow> ('c, 'l, 'm) manager \<Rightarrow> 'l thread_destructor \<Rightarrow> (('c, 'l, 'm) manager \<times> usize \<times> usize) run" where
  "run_thread_destructor ops mg d =
     (case td_lease d of
        None \<Rightarrow> Done (mg, td_func d, td_arg d)
      | Some l \<Rightarrow> run_bind (release ops mg l) (\<lambda>(mg1, _). Done (mg1, td_func d, td_arg d)))"

section \<open>Properties\<close>

lemma set_error_done: "set_error s t msg = Done (s\<lparr>errors := (errors s)(t := with_error (clean msg))\<rparr>)"
  by (simp add: set_error_def std_set_eq)

lemma dlerror_result: "snd (dlerror s t) = pending (errors s t)"
  by (simp add: dlerror_def std_take_def dl_take_def Let_def case_prod_beta)

lemmas error_simps = set_error_done clear_error_def std_clear_def dlerror_result dl_new_def with_error_def


definition demo_process :: "(nat list, nat, nat) process" where
  "demo_process = \<lparr>registry = manager_new [3, 1, 0, 2, 5], errors = (\<lambda>_. dl_new)\<rparr>"


text \<open>\<open>dlclose\<close> of a handle that is open pops its last lease, returns 0 and leaves no error; of any
  other value, null included, it returns \<open>-1\<close>, reports an error and changes nothing else; given that
  the link context accepts the lease.\<close>

theorem dlclose_reports:
  assumes "\<And>l. release_lease ops (link_ctx (registry s)) l \<noteq> None" and "handle_stack (registry s) 0 = []"
  shows "\<exists>s' r. dlclose ops s t handle = Done (s', r) \<and>
    handle_stack (registry s') = (handle_stack (registry s))(handle := butlast (handle_stack (registry s) handle)) \<and>
    (if handle_stack (registry s) handle = []
     then r = - 1 \<and> registry s' = registry s \<and> snd (dlerror s' t) = Some (ascii ''invalid library handle'')
     else r = 0 \<and> snd (dlerror s' t) = None)"
proof (cases "handle_stack (registry s) handle" rule: rev_cases)
  case Nil
  have c: "clean (ascii ''invalid library handle'') = ascii ''invalid library handle''"
    by (simp add: clean_def ascii_def of_char_def word_unat_eq_iff)
  have same: "(handle_stack (registry s))(handle := []) = handle_stack (registry s)" using Nil by (metis fun_upd_triv)
  let ?s' = "s\<lparr>errors := (errors s)(t := with_error (ascii ''invalid library handle''))\<rparr>"
  have "dlclose ops s t handle = Done (?s', - 1)"
    using release_handle_empty [OF Nil, of ops]
    by (cases "handle = 0") (simp_all add: dlclose_def set_error_done clear_error_def std_clear_def c Let_def)
  moreover have "snd (dlerror ?s' t) = Some (ascii ''invalid library handle'')"
    by (simp add: dlerror_result with_error_def)
  ultimately show ?thesis using Nil same by (intro exI [of _ ?s'] exI [of _ "- 1"]) simp
next
  case (snoc ls l)
  then have h: "handle \<noteq> 0" using assms(2) by auto
  obtain c u where "release_lease ops (link_ctx (registry s)) l = Some (c, u)" using assms(1) by fastforce
  from release_handle_pops [OF snoc this] obtain mg where
    mg: "release_handle ops (registry s) handle = Done (mg, Some u)"
      "handle_stack mg = (handle_stack (registry s))(handle := ls)" by metis
  then show ?thesis using h snoc by (simp add: dlclose_def error_simps)
qed

theorem dlclose_reports_witness:
  "\<exists>s'. dlclose demo_ops demo_process 1 77 = Done (s', - 1) \<and>
     snd (dlerror s' 1) = Some (ascii ''invalid library handle'')"
proof -
  have "handle_stack (registry demo_process) = (\<lambda>_. [])" by (simp add: demo_process_def handle_stack_new)
  then show ?thesis using dlclose_reports [of demo_ops demo_process 1 77] by (auto simp: demo_ops_def)
qed

text \<open>The symbol that \<open>dladdr\<close> reports.\<close>

definition best_ok :: "usize \<Rightarrow> usize \<Rightarrow> export_symbol list \<Rightarrow> (bytes option \<times> usize) option \<Rightarrow> bool" where
  "best_ok base addr xs best \<longleftrightarrow>
     (case best of
        None \<Rightarrow> (\<forall>x\<in>set xs. \<not> symbol_covers base addr x)
      | Some (n, start) \<Rightarrow>
          \<exists>us sy vs. xs = us @ sy # vs \<and> symbol_covers base addr sy \<and> n = sym_name sy \<and> start = base + st_value sy \<and>
            (\<forall>x\<in>set us. symbol_covers base addr x \<longrightarrow> base + st_value x < start) \<and>
            (\<forall>x\<in>set vs. symbol_covers base addr x \<longrightarrow> base + st_value x \<le> start))"

lemma best_ok_skip:
  assumes "best_ok base addr xs best"
    "symbol_covers base addr x \<Longrightarrow> \<exists>n start. best = Some (n, start) \<and> base + st_value x \<le> start"
  shows "best_ok base addr (xs @ [x]) best"
proof (cases best)
  case None
  with assms show ?thesis by (auto simp: best_ok_def)
next
  case (Some p)
  then obtain n start us sy vs where p: "p = (n, start)" "xs = us @ sy # vs" "symbol_covers base addr sy"
    "n = sym_name sy" "start = base + st_value sy" "\<forall>x\<in>set us. symbol_covers base addr x \<longrightarrow> base + st_value x < start"
    "\<forall>x\<in>set vs. symbol_covers base addr x \<longrightarrow> base + st_value x \<le> start"
    using assms(1) by (cases p) (auto simp: best_ok_def)
  show ?thesis unfolding best_ok_def Some p(1) option.case prod.case
    by (rule exI [of _ us], rule exI [of _ sy], rule exI [of _ "vs @ [x]"]) (use p assms(2) Some in auto)
qed

lemma best_ok_take:
  assumes "best_ok base addr xs best" "symbol_covers base addr x"
    "case best of None \<Rightarrow> True | Some (_, start) \<Rightarrow> start < base + st_value x"
  shows "best_ok base addr (xs @ [x]) (Some (sym_name x, base + st_value x))"
proof -
  have "base + st_value y < base + st_value x" if "y \<in> set xs" "symbol_covers base addr y" for y
  proof (cases best)
    case None
    with assms(1) that show ?thesis by (simp add: best_ok_def)
  next
    case (Some p)
    then have "base + st_value y \<le> snd p"
      using assms(1) that by (cases p) (fastforce simp: best_ok_def)
    with assms(3) Some show ?thesis by (cases p) auto
  qed
  then show ?thesis unfolding best_ok_def option.case prod.case
    by (intro exI [of _ xs] exI [of _ x] exI [of _ "[]"]) (use assms(2) in auto)
qed

lemma best_symbol_ok:
  "best_ok base addr xs best \<Longrightarrow> best_ok base addr (xs @ ys) (best_symbol base addr best ys)"
proof (induction ys arbitrary: xs best)
  case Nil
  then show ?case by simp
next
  case (Cons y ys)
  show ?case
  proof (cases "symbol_covers base addr y \<and> (case best of None \<Rightarrow> True | Some (_, best_start) \<Rightarrow> base + st_value y > best_start)")
    case True
    then have "best_ok base addr (xs @ [y]) (Some (sym_name y, base + st_value y))"
      using best_ok_take [OF Cons.prems] by blast
    from Cons.IH [OF this] True show ?thesis by simp
  next
    case False
    then have "symbol_covers base addr y \<Longrightarrow> \<exists>n start. best = Some (n, start) \<and> base + st_value y \<le> start"
      by (cases best) (auto simp: not_less)
    from Cons.IH [OF best_ok_skip [OF Cons.prems this]]
    show ?thesis unfolding best_symbol.simps using False by (simp only: if_False append_assoc append_Cons append_Nil)
  qed
qed

text \<open>C30. The symbol that \<open>dladdr\<close> reports is the exported one with the highest start among those that
  cover the address, the first in table order if several start there; if it reports none, no
  exported symbol covers the address.\<close>

theorem find_best_symbol_nearest:
  "best_ok (ev_base ev m) addr (ev_exports ev m) (find_best_symbol ev m addr)"
  using best_symbol_ok [of "ev_base ev m" addr "[]" None "ev_exports ev m"]
  by (simp add: find_best_symbol_def best_ok_def)

definition demo_view :: "nat elf_view" where
  "demo_view = \<lparr>ev_base = (\<lambda>m. of_nat (4096 * m)), ev_exports = (\<lambda>m. []), ev_cname = (\<lambda>m. 0),
     ev_phdrs = (\<lambda>m. if m = 0 then [] else [(1, 0)]), ev_range_end = (\<lambda>m a. None), ev_tls_modid = (\<lambda>m. None)\<rparr>"

lemma demo_snapshot:
  "library_snapshot demo_ops (manager_new [0, 1, 2]) = (manager_new [0, 1, 2], [(0, 0), (1, 1), (2, 2)])"
  "release_all demo_ops (manager_new [0, 1, 2]) (map snd [(0::nat, 0), (1, 1), (2, 2)]) = Done ((manager_new [])\<lparr>subs := 3\<rparr>)"
  by (simp_all add: library_snapshot_def release_def demo_ops_def manager_new_def first_elf_def acquire_module_def)

end
