(* ===== verification/Debug_List.thy ===== *)
theory Debug_List
  imports Prelude
begin

text \<open>
  The list of link maps that debuggers walk (\<open>src/src/runtime/debug.rs\<close>, and \<open>link_loaded_objects\<close> of
  \<open>src/rtld/impl/src/bootstrap/publish.rs\<close>): a doubly linked list threaded through \<open>LinkMap\<close>s at
  addresses, with its head in \<open>r_debug\<close> and its tail in \<open>CustomDebug\<close>.  Addresses are \<open>usize\<close>, 0 is
  null, and the link maps are a store from addresses to their link fields.  \<open>states\<close> records the values
  of \<open>r_state\<close> at each call of the breakpoint function.
\<close>

section \<open>State and operations\<close>

record link_map =
  l_prev :: usize
  l_next :: usize
  l_real :: usize

datatype r_state = RT_CONSISTENT | RT_ADD | RT_DELETE

type_synonym store = "usize \<Rightarrow> link_map"

text \<open>\<open>dbg_null\<close> is whether the pointer to the debug structure is null, \<open>internal\<close> whether it is the
  linker's own one.\<close>

record custom_debug =
  dbg_null :: bool
  internal :: bool
  dbg_map :: usize
  dbg_tail :: usize
  has_brk :: bool
  dbg_state :: r_state
  states :: "r_state list"
  maps :: store

definition call_debug_state :: "custom_debug \<Rightarrow> custom_debug" where
  "call_debug_state s = (if has_brk s then s\<lparr>states := states s @ [dbg_state s]\<rparr> else s)"

definition set_state :: "r_state \<Rightarrow> custom_debug \<Rightarrow> custom_debug" where
  "set_state r s = call_debug_state (s\<lparr>dbg_state := r\<rparr>)"

definition add_debug_link_map :: "custom_debug \<Rightarrow> usize \<Rightarrow> custom_debug" where
  "add_debug_link_map s p =
     (let tail = dbg_tail s in
      if dbg_null s then s
      else let n = maps s p;
               n1 = (if internal s \<and> l_real n = 0 then n\<lparr>l_real := p\<rparr>
                     else if \<not> internal s then n\<lparr>l_real := 0\<rparr> else n);
               m1 = (maps s)(p := n1\<lparr>l_prev := tail, l_next := 0\<rparr>);
               s1 = (if tail = 0 then s\<lparr>maps := m1, dbg_map := p\<rparr>
                     else s\<lparr>maps := m1(tail := (m1 tail)\<lparr>l_next := p\<rparr>)\<rparr>)
           in set_state RT_CONSISTENT (set_state RT_ADD (s1\<lparr>dbg_tail := p\<rparr>)))"

definition unlink :: "custom_debug \<Rightarrow> usize \<Rightarrow> custom_debug" where
  "unlink s p =
     (let m = maps s; prev = l_prev (m p); next = l_next (m p) in
      if dbg_map s = p then
        if dbg_tail s = p then s\<lparr>dbg_map := 0, dbg_tail := 0\<rparr>
        else s\<lparr>dbg_map := next, maps := m(next := (m next)\<lparr>l_prev := 0\<rparr>)\<rparr>
      else
        if dbg_tail s = p then s\<lparr>maps := m(prev := (m prev)\<lparr>l_next := 0\<rparr>), dbg_tail := prev\<rparr>
        else let m1 = m(prev := (m prev)\<lparr>l_next := next\<rparr>)
             in s\<lparr>maps := m1(next := (m1 next)\<lparr>l_prev := prev\<rparr>)\<rparr>)"

definition drop_extra_data :: "custom_debug \<Rightarrow> usize \<Rightarrow> custom_debug" where
  "drop_extra_data s p =
     (if dbg_null s then s
      else if dbg_map s \<noteq> p \<and> l_prev (maps s p) = 0 then s
      else set_state RT_CONSISTENT (unlink (set_state RT_DELETE s) p))"

fun link_loaded_loop :: "store \<Rightarrow> usize \<Rightarrow> usize list \<Rightarrow> store" where
  "link_loaded_loop m prev [] = m"
| "link_loaded_loop m prev (p # ps) =
     link_loaded_loop
       (m(p := (m p)\<lparr>l_prev := prev, l_next := (case ps of [] \<Rightarrow> 0 | q # _ \<Rightarrow> q)\<rparr>)) p ps"

definition link_loaded_objects :: "store \<Rightarrow> usize list \<Rightarrow> store" where
  "link_loaded_objects m ps = link_loaded_loop m 0 ps"

section \<open>Linked segments\<close>

text \<open>\<open>seg m a xs z\<close>: the maps \<open>xs\<close> are linked in this order between \<open>a\<close> and \<open>z\<close>.\<close>

fun seg :: "store \<Rightarrow> usize \<Rightarrow> usize list \<Rightarrow> usize \<Rightarrow> bool" where
  "seg m a [] z = True"
| "seg m a (x # xs) z \<longleftrightarrow> l_prev (m x) = a \<and> l_next (m x) = hd (xs @ [z]) \<and> seg m x xs z"

lemma seg_append:
  "seg m a (us @ vs) z \<longleftrightarrow> seg m a us (hd (vs @ [z])) \<and> seg m (last (a # us)) vs z"
proof (induction us arbitrary: a)
  case Nil
  then show ?case by simp
next
  case (Cons u us)
  have "hd ((us @ vs) @ [z]) = hd (us @ [hd (vs @ [z])])" by (cases us) simp_all
  with Cons show ?case by simp
qed

lemma seg_frame: "p \<notin> set xs \<Longrightarrow> seg (m(p := n)) a xs z = seg m a xs z"
  by (induction xs arbitrary: a) auto

lemma seg_set_next:
  assumes "seg m a (us @ [u]) z" "u \<notin> set us"
  shows "seg (m(u := (m u)\<lparr>l_next := z'\<rparr>)) a (us @ [u]) z'"
proof -
  have "seg m a us u" "l_prev (m u) = last (a # us)" using assms(1) by (auto simp: seg_append)
  then show ?thesis using assms(2) by (simp add: seg_append seg_frame del: fun_upd_apply) simp
qed

lemma seg_set_prev:
  assumes "seg m a (v # vs) z" "v \<notin> set vs"
  shows "seg (m(v := (m v)\<lparr>l_prev := a'\<rparr>)) a' (v # vs) z"
  using assms by (simp add: seg_frame del: fun_upd_apply) simp

lemma seg_snoc:
  assumes "seg m a (us @ [u]) p" "l_prev (m p) = u" "l_next (m p) = z"
  shows "seg m a ((us @ [u]) @ [p]) z"
  using assms seg_append [of m a "us @ [u]" "[p]" z] by simp

definition debug_list :: "custom_debug \<Rightarrow> usize list \<Rightarrow> bool" where
  "debug_list s xs \<longleftrightarrow> distinct xs \<and> 0 \<notin> set xs \<and> seg (maps s) 0 xs 0 \<and>
     dbg_map s = hd (xs @ [0]) \<and> dbg_tail s = last (0 # xs)"

lemma debug_list_state [simp]:
  "debug_list (set_state r s) xs = debug_list s xs" "maps (set_state r s) = maps s"
  "dbg_map (set_state r s) = dbg_map s" "dbg_tail (set_state r s) = dbg_tail s"
  by (simp_all add: debug_list_def set_state_def call_debug_state_def)

lemma states_set_state: "has_brk s \<Longrightarrow> states (set_state r s) = states s @ [r]"
  by (simp add: set_state_def call_debug_state_def)

section \<open>Properties\<close>

text \<open>Adding a link map that is not in the debugger's list appends it, keeps the list well linked in
  both directions with its head and tail in place, and announces the change with \<open>RT_ADD\<close> followed by
  \<open>RT_CONSISTENT\<close>.\<close>

theorem add_debug_link_map_appends:
  assumes "debug_list s xs" and "p \<noteq> 0" and "p \<notin> set xs" and "\<not> dbg_null s" and "has_brk s"
  shows "debug_list (add_debug_link_map s p) (xs @ [p]) \<and>
    states (add_debug_link_map s p) = states s @ [RT_ADD, RT_CONSISTENT]"
proof -
  have seg: "seg (maps s) 0 xs 0" and d: "distinct xs" "0 \<notin> set xs"
    and hd: "dbg_map s = hd (xs @ [0])" and tl: "dbg_tail s = last (0 # xs)"
    using assms(1) by (simp_all add: debug_list_def)
  obtain n where n: "add_debug_link_map s p =
      set_state RT_CONSISTENT (set_state RT_ADD ((if dbg_tail s = 0
        then s\<lparr>maps := (maps s)(p := n\<lparr>l_prev := dbg_tail s, l_next := 0\<rparr>), dbg_map := p\<rparr>
        else let m1 = (maps s)(p := n\<lparr>l_prev := dbg_tail s, l_next := 0\<rparr>)
             in s\<lparr>maps := m1(dbg_tail s := (m1 (dbg_tail s))\<lparr>l_next := p\<rparr>)\<rparr>)\<lparr>dbg_tail := p\<rparr>))"
    using assms(4) unfolding add_debug_link_map_def Let_def by auto
  let ?m1 = "(maps s)(p := n\<lparr>l_prev := dbg_tail s, l_next := 0\<rparr>)"
  have seg1: "seg ?m1 0 xs 0" using seg assms(3) by (simp add: seg_frame del: fun_upd_apply)
  have "debug_list (add_debug_link_map s p) (xs @ [p])"
  proof (cases xs rule: rev_cases)
    case Nil
    then show ?thesis using tl assms(2) by (simp add: n debug_list_def)
  next
    case (snoc us u)
    have u: "u \<noteq> 0" "u \<notin> set us" "u \<noteq> p" using snoc d assms(3) by auto
    have tail: "dbg_tail s = u" using tl snoc by simp
    let ?m2 = "?m1(u := (?m1 u)\<lparr>l_next := p\<rparr>)"
    have "seg ?m2 0 (us @ [u]) p" by (rule seg_set_next) (use seg1 snoc u in simp_all)
    moreover have "l_prev (?m2 p) = u" "l_next (?m2 p) = 0" using u tail by simp_all
    ultimately have "seg ?m2 0 (xs @ [p]) 0" unfolding snoc by (rule seg_snoc)
    then show ?thesis using d assms(2,3) hd u tail snoc by (simp add: n debug_list_def Let_def hd_append)
  qed
  moreover have "states (add_debug_link_map s p) = states s @ [RT_ADD, RT_CONSISTENT]"
    using assms(5) by (simp add: n set_state_def call_debug_state_def Let_def)
  ultimately show ?thesis by simp
qed

lemma unlink_removes:
  assumes "debug_list s (us @ p # vs)"
  shows "debug_list (unlink s p) (us @ vs)"
proof -
  let ?m = "maps s"
  have sg: "seg ?m 0 us p" "l_prev (?m p) = last (0 # us)" "l_next (?m p) = hd (vs @ [0])" "seg ?m p vs 0"
    and d: "distinct (us @ p # vs)" "0 \<notin> set (us @ p # vs)"
    and hd: "dbg_map s = hd (us @ [p])" and tl: "dbg_tail s = last (p # vs)"
    using assms by (auto simp: debug_list_def seg_append hd_append)
  show ?thesis
  proof (cases us rule: rev_cases)
    case Nil
    show ?thesis
    proof (cases vs)
      case Nil
      then show ?thesis using \<open>us = []\<close> hd tl by (simp add: unlink_def debug_list_def)
    next
      case (Cons v vs')
      have "seg (?m(v := (?m v)\<lparr>l_prev := 0\<rparr>)) 0 (v # vs') 0"
        by (rule seg_set_prev) (use sg(4) Cons d in auto)
      moreover have "last (p # vs) \<noteq> p" using d Cons by auto
      ultimately show ?thesis
        using \<open>us = []\<close> Cons hd tl sg(3) d by (auto simp: unlink_def debug_list_def Let_def)
    qed
  next
    case (snoc us' u)
    then have map_ne: "dbg_map s \<noteq> p" using hd d by (cases us') auto
    have u: "u \<noteq> p" "u \<notin> set us'" "u \<notin> set vs" "u \<noteq> 0" using d snoc by auto
    show ?thesis
    proof (cases vs)
      case Nil
      have "seg (?m(u := (?m u)\<lparr>l_next := 0\<rparr>)) 0 (us' @ [u]) 0"
        by (rule seg_set_next) (use sg(1) snoc u in auto)
      then show ?thesis
        using Nil map_ne tl sg(2) snoc d hd u by (simp add: unlink_def debug_list_def Let_def hd_append)
    next
      case (Cons v vs')
      have v: "v \<noteq> u" "v \<notin> set vs'" "v \<notin> set us" using d snoc Cons by auto
      have tail_ne: "dbg_tail s \<noteq> p" using tl Cons d by auto
      let ?m1 = "?m(u := (?m u)\<lparr>l_next := v\<rparr>)"
      let ?m2 = "?m1(v := (?m1 v)\<lparr>l_prev := u\<rparr>)"
      have "seg ?m1 0 (us' @ [u]) v" by (rule seg_set_next) (use sg(1) snoc u in auto)
      then have 1: "seg ?m2 0 us v" using v snoc by (simp add: seg_frame del: fun_upd_apply)
      have "seg ?m1 p (v # vs') 0" using sg(4) seg_frame [of u "v # vs'"] u(3) Cons by blast
      then have "seg ?m2 u (v # vs') 0" by (rule seg_set_prev) (rule v(2))
      with 1 have "seg ?m2 0 (us @ vs) 0" using Cons snoc by (simp add: seg_append del: fun_upd_apply)
      moreover have "unlink s p = s\<lparr>maps := ?m2\<rparr>"
        using map_ne tail_ne sg(2,3) Cons snoc by (simp add: unlink_def Let_def)
      ultimately show ?thesis using d hd tl Cons snoc by (simp add: debug_list_def hd_append)
    qed
  qed
qed

text \<open>C29. Dropping a module's data takes its link map out of the debugger's list, wherever it stands, keeps
  the others linked in order and announces \<open>RT_DELETE\<close> and then \<open>RT_CONSISTENT\<close>; dropping one that was
  never added changes nothing.\<close>

theorem drop_extra_data_removes:
  assumes "debug_list s xs" and "\<not> dbg_null s" and "has_brk s" and "p \<noteq> 0"
    and "p \<in> set xs \<or> l_prev (maps s p) = 0"
  shows "debug_list (drop_extra_data s p) (remove1 p xs) \<and>
    states (drop_extra_data s p) = states s @ (if p \<in> set xs then [RT_DELETE, RT_CONSISTENT] else []) \<and>
    (p \<in> set xs \<or> drop_extra_data s p = s)"
proof (cases "p \<in> set xs")
  case False
  then have "dbg_map s \<noteq> p" using assms(1,4) by (cases xs) (auto simp: debug_list_def)
  with False assms show ?thesis by (simp add: drop_extra_data_def remove1_idem)
next
  case True
  then obtain us vs where xs: "xs = us @ p # vs" by (metis split_list)
  have d: "distinct xs" "0 \<notin> set xs" and seg: "seg (maps s) 0 xs 0" and h: "dbg_map s = hd (xs @ [0])"
    using assms(1) by (simp_all add: debug_list_def)
  have "\<not> (dbg_map s \<noteq> p \<and> l_prev (maps s p) = 0)"
  proof (cases us rule: rev_cases)
    case Nil
    then show ?thesis using h xs by simp
  next
    case (snoc us' u)
    then have "l_prev (maps s p) = u" using seg xs by (simp add: seg_append)
    moreover have "u \<noteq> 0" using d xs snoc by auto
    ultimately show ?thesis by simp
  qed
  then have eq: "drop_extra_data s p = set_state RT_CONSISTENT (unlink (set_state RT_DELETE s) p)"
    unfolding drop_extra_data_def using assms(2) by (simp only: if_False)
  have "debug_list (unlink (set_state RT_DELETE s) p) (us @ vs)"
    by (rule unlink_removes) (use assms(1) xs in simp)
  moreover have "remove1 p xs = us @ vs" using d xs by (simp add: remove1_append)
  moreover have "has_brk (unlink (set_state RT_DELETE s) p)" "states (unlink (set_state RT_DELETE s) p) = states s @ [RT_DELETE]"
    using assms(3) by (simp_all add: unlink_def Let_def set_state_def call_debug_state_def)
  ultimately show ?thesis using True by (simp add: eq states_set_state)
qed

lemma link_loaded_loop_frame: "p \<notin> set ps \<Longrightarrow> link_loaded_loop m a ps p = m p"
  by (induction ps arbitrary: m a) auto

lemma link_loaded_loop_seg: "distinct ps \<Longrightarrow> seg (link_loaded_loop m a ps) a ps 0"
proof (induction ps arbitrary: m a)
  case Nil
  then show ?case by simp
next
  case (Cons p ps)
  let ?n = "(m p)\<lparr>l_prev := a, l_next := (case ps of [] \<Rightarrow> 0 | q # _ \<Rightarrow> q)\<rparr>"
  have "seg (link_loaded_loop (m(p := ?n)) p ps) p ps 0" using Cons by simp
  moreover have "link_loaded_loop (m(p := ?n)) p ps p = ?n"
    using Cons.prems by (simp add: link_loaded_loop_frame)
  moreover have "(case ps of [] \<Rightarrow> 0 | q # _ \<Rightarrow> q) = hd (ps @ [0])" by (cases ps) simp_all
  ultimately show ?case by simp
qed

text \<open>At start-up the link maps of the loaded objects are linked in the given order, and no other link
  map is touched.\<close>

theorem link_loaded_objects_links:
  assumes "distinct ps"
  shows "seg (link_loaded_objects m ps) 0 ps 0 \<and> (\<forall>p. p \<notin> set ps \<longrightarrow> link_loaded_objects m ps p = m p)"
  using link_loaded_loop_seg [OF assms] link_loaded_loop_frame by (auto simp: link_loaded_objects_def)

section \<open>Examples\<close>

definition demo_debug :: custom_debug where
  "demo_debug = \<lparr>dbg_null = False, internal = True, dbg_map = 0x10, dbg_tail = 0x20, has_brk = True,
     dbg_state = RT_CONSISTENT, states = [],
     maps = link_loaded_objects (\<lambda>_. \<lparr>l_prev = 0, l_next = 0, l_real = 0\<rparr>) [0x10, 0x20]\<rparr>"

lemma demo_debug_list: "debug_list demo_debug [0x10, 0x20]"
  by (simp add: debug_list_def demo_debug_def link_loaded_objects_def)

theorem add_debug_link_map_appends_witness:
  "debug_list (add_debug_link_map demo_debug 0x30) [0x10, 0x20, 0x30]"
  using add_debug_link_map_appends [OF demo_debug_list, of "0x30"] by (simp add: demo_debug_def)

theorem drop_extra_data_removes_witness: "debug_list (drop_extra_data demo_debug 0x10) [0x20]"
  using drop_extra_data_removes [OF demo_debug_list, of "0x10"] by (simp add: demo_debug_def)

theorem link_loaded_objects_links_witness:
  "seg (link_loaded_objects (\<lambda>_. \<lparr>l_prev = 7, l_next = 7, l_real = 7\<rparr>) [0x10, 0x20]) 0 [0x10, 0x20] 0"
  using link_loaded_objects_links [of "[0x10, 0x20]"] by simp

end
