(* ===== verification/Stack.thy ===== *)
theory Stack
  imports Prelude
begin

text \<open>
  The initial process stack (\<open>src/rtld/impl/src/bootstrap/stack.rs\<close>): the words the kernel leaves for
  a new program (argument count, arguments, environment, auxiliary vector), the parser that finds them,
  the rewriting that removes the interpreter's own arguments after a direct invocation, and the
  patching of the auxiliary vector.  The stack is an array of \<open>usize\<close> at an aligned address, so
  memory is a store of words; \<open>ptr.add(k)\<close> adds \<open>8 * k\<close>.  A scan that meets no terminator does not
  return, which is \<open>None\<close>.  \<open>ElfPhdr\<close> belongs to another crate: its size and the program header read
  at an address are arguments.
\<close>

section \<open>Auxiliary values\<close>

type_synonym wmem = "usize \<Rightarrow> usize"

definition AT_NULL :: usize where "AT_NULL = 0"
definition AT_PHDR :: usize where "AT_PHDR = 3"
definition AT_PHENT :: usize where "AT_PHENT = 4"
definition AT_PHNUM :: usize where "AT_PHNUM = 5"
definition AT_PAGESZ :: usize where "AT_PAGESZ = 6"
definition AT_BASE :: usize where "AT_BASE = 7"
definition AT_ENTRY :: usize where "AT_ENTRY = 9"
definition AT_PLATFORM :: usize where "AT_PLATFORM = 15"
definition AT_HWCAP :: usize where "AT_HWCAP = 16"
definition AT_CLKTCK :: usize where "AT_CLKTCK = 17"
definition AT_FPUCW :: usize where "AT_FPUCW = 18"
definition AT_SECURE :: usize where "AT_SECURE = 23"
definition AT_RANDOM :: usize where "AT_RANDOM = 25"
definition AT_HWCAP2 :: usize where "AT_HWCAP2 = 26"
definition AT_HWCAP3 :: usize where "AT_HWCAP3 = 29"
definition AT_HWCAP4 :: usize where "AT_HWCAP4 = 30"
definition AT_EXECFN :: usize where "AT_EXECFN = 31"
definition AT_SYSINFO_EHDR :: usize where "AT_SYSINFO_EHDR = 33"
definition AT_MINSIGSTKSZ :: usize where "AT_MINSIGSTKSZ = 51"

lemmas at_defs = AT_NULL_def AT_PHDR_def AT_PHENT_def AT_PHNUM_def AT_PAGESZ_def AT_BASE_def AT_ENTRY_def
  AT_PLATFORM_def AT_HWCAP_def AT_CLKTCK_def AT_FPUCW_def AT_SECURE_def AT_RANDOM_def AT_HWCAP2_def AT_HWCAP3_def
  AT_HWCAP4_def AT_EXECFN_def AT_SYSINFO_EHDR_def AT_MINSIGSTKSZ_def

record aux_values =
  phdr :: usize
  phent :: usize
  phnum :: usize
  base :: usize
  entry :: usize
  secure :: usize
  pagesize :: usize
  platform :: usize
  hwcap :: usize
  hwcap2 :: usize
  hwcap3 :: usize
  hwcap4 :: usize
  clktck :: usize
  fpucw :: usize
  minsigstacksize :: usize
  sysinfo_ehdr :: usize

definition aux_empty :: aux_values where
  "aux_empty = \<lparr>phdr = 0, phent = 0, phnum = 0, base = 0, entry = 0, secure = 0, pagesize = 0, platform = 0,
     hwcap = 0, hwcap2 = 0, hwcap3 = 0, hwcap4 = 0, clktck = 0, fpucw = 0, minsigstacksize = 0,
     sysinfo_ehdr = 0\<rparr>"

datatype program_type = PT_PHDR | PT_DYNAMIC | PT_TLS | PT_OTHER u32

record elf_phdr =
  program_type :: program_type
  p_vaddr :: usize

definition phdr_at :: "usize \<Rightarrow> (usize \<Rightarrow> elf_phdr) \<Rightarrow> aux_values \<Rightarrow> usize \<Rightarrow> elf_phdr option" where
  "phdr_at phdr_size read_phdr a index =
     (if phdr a = 0 \<or> phent a < phdr_size then None
      else case checked_mul index (phent a) of
          None \<Rightarrow> None
        | Some offset \<Rightarrow> Some (read_phdr (phdr a + offset)))"

definition find_phdr :: "usize \<Rightarrow> (usize \<Rightarrow> elf_phdr) \<Rightarrow> aux_values \<Rightarrow> program_type \<Rightarrow> elf_phdr option" where
  "find_phdr phdr_size read_phdr a t =
     find (\<lambda>ph. program_type ph = t)
       (List.map_filter (\<lambda>i. phdr_at phdr_size read_phdr a (of_nat i)) [0..<unat (phnum a)])"

definition load_bias :: "usize \<Rightarrow> (usize \<Rightarrow> elf_phdr) \<Rightarrow> aux_values \<Rightarrow> usize" where
  "load_bias phdr_size read_phdr a =
     (case find_phdr phdr_size read_phdr a PT_PHDR of None \<Rightarrow> 0 | Some ph \<Rightarrow> phdr a - p_vaddr ph)"

definition dynamic :: "usize \<Rightarrow> (usize \<Rightarrow> elf_phdr) \<Rightarrow> aux_values \<Rightarrow> usize \<Rightarrow> usize" where
  "dynamic phdr_size read_phdr a bias =
     (case find_phdr phdr_size read_phdr a PT_DYNAMIC of None \<Rightarrow> 0 | Some ph \<Rightarrow> bias + p_vaddr ph)"

definition has_tls :: "usize \<Rightarrow> (usize \<Rightarrow> elf_phdr) \<Rightarrow> aux_values \<Rightarrow> bool" where
  "has_tls phdr_size read_phdr a \<longleftrightarrow> find_phdr phdr_size read_phdr a PT_TLS \<noteq> None"

section \<open>Parsing\<close>

definition set_aux :: "usize \<Rightarrow> usize \<Rightarrow> aux_values \<Rightarrow> aux_values" where
  "set_aux kind v a =
     (if kind = AT_PHDR then a\<lparr>phdr := v\<rparr>
      else if kind = AT_PHENT then a\<lparr>phent := v\<rparr>
      else if kind = AT_PHNUM then a\<lparr>phnum := v\<rparr>
      else if kind = AT_BASE then a\<lparr>base := v\<rparr>
      else if kind = AT_ENTRY then a\<lparr>entry := v\<rparr>
      else if kind = AT_SECURE then a\<lparr>secure := v\<rparr>
      else if kind = AT_PAGESZ then a\<lparr>pagesize := v\<rparr>
      else if kind = AT_PLATFORM then a\<lparr>platform := v\<rparr>
      else if kind = AT_HWCAP then a\<lparr>hwcap := v\<rparr>
      else if kind = AT_HWCAP2 then a\<lparr>hwcap2 := v\<rparr>
      else if kind = AT_HWCAP3 then a\<lparr>hwcap3 := v\<rparr>
      else if kind = AT_HWCAP4 then a\<lparr>hwcap4 := v\<rparr>
      else if kind = AT_CLKTCK then a\<lparr>clktck := v\<rparr>
      else if kind = AT_FPUCW then a\<lparr>fpucw := v\<rparr>
      else if kind = AT_MINSIGSTKSZ then a\<lparr>minsigstacksize := v\<rparr>
      else if kind = AT_SYSINFO_EHDR then a\<lparr>sysinfo_ehdr := v\<rparr>
      else a)"

partial_function (option) parse_auxv_loop :: "wmem \<Rightarrow> usize \<Rightarrow> aux_values \<Rightarrow> aux_values option" where
  "parse_auxv_loop m auxv aux =
     (let kind = m auxv; v = m (auxv + 8)
      in if kind = AT_NULL then Some aux else parse_auxv_loop m (auxv + 16) (set_aux kind v aux))"

definition parse_auxv :: "wmem \<Rightarrow> usize \<Rightarrow> aux_values option" where
  "parse_auxv m auxv = parse_auxv_loop m auxv aux_empty"

record process_stack =
  argc :: usize
  argv :: usize
  envp :: usize
  auxv :: usize
  exec_path :: usize

record initial_stack =
  raw :: usize
  process :: process_stack
  aux :: aux_values

partial_function (option) skip_words :: "wmem \<Rightarrow> usize \<Rightarrow> usize option" where
  "skip_words m p = (if m p \<noteq> 0 then skip_words m (p + 8) else Some p)"

definition parse :: "wmem \<Rightarrow> usize \<Rightarrow> initial_stack option" where
  "parse m stack =
     (let argc = m stack;
          argv = stack + 8;
          envp = stack + 8 * (argc + 2)
      in case skip_words m envp of
          None \<Rightarrow> None
        | Some z \<Rightarrow>
            (case parse_auxv m (z + 8) of
               None \<Rightarrow> None
             | Some a \<Rightarrow> Some \<lparr>raw = stack,
                  process = \<lparr>argc = argc, argv = argv, envp = envp, auxv = z + 8, exec_path = 0\<rparr>,
                  aux = a\<rparr>))"

section \<open>Rewriting\<close>

record direct_program =
  argv_index :: usize
  argv0 :: usize

partial_function (option) skip_pairs :: "wmem \<Rightarrow> usize \<Rightarrow> usize option" where
  "skip_pairs m p = (if m p \<noteq> AT_NULL then skip_pairs m (p + 16) else Some p)"

function copy_words :: "wmem \<Rightarrow> usize \<Rightarrow> usize \<Rightarrow> usize \<Rightarrow> usize \<Rightarrow> wmem" where
  "copy_words m dst src count index =
     (if index < count then copy_words (m(dst + 8 * index := m (src + 8 * index))) dst src count (index + 1)
      else m)"
  by pat_completeness auto
termination
  by (relation "measure (\<lambda>(m, dst, src, count, index). unat count - unat index)")
    (auto simp: rust_arith word_less_nat_alt)

declare copy_words.simps [simp del]

definition rewrite_for_program ::
  "wmem \<Rightarrow> initial_stack \<Rightarrow> direct_program \<Rightarrow> (wmem \<times> process_stack) option" where
  "rewrite_for_program m s d =
     (let n = argc (process s) - argv_index d;
          src = raw s + 8 * (1 + argv_index d);
          dst = raw s + 8
      in case skip_pairs m (auxv (process s)) of
          None \<Rightarrow> None
        | Some z \<Rightarrow>
            (let end = z + 16;
                 count = (end - src) div 8;
                 m1 = copy_words m dst src count 0;
                 m2 = m1(raw s := n);
                 exec = m2 dst;
                 m3 = (if argv0 d \<noteq> 0 then m2(dst := argv0 d) else m2);
                 envp = raw s + 8 * (n + 2)
             in case skip_words m3 envp of
                 None \<Rightarrow> None
               | Some y \<Rightarrow> Some (m3, \<lparr>argc = n, argv = dst, envp = envp, auxv = y + 8, exec_path = exec\<rparr>)))"

section \<open>Patching\<close>

text \<open>\<open>patched\<close> is the value that the \<open>match\<close> writes for a kind of entry, if any.\<close>

definition patched :: "usize \<Rightarrow> usize \<Rightarrow> usize \<Rightarrow> usize \<Rightarrow> usize \<Rightarrow> usize \<Rightarrow> usize \<Rightarrow> usize option" where
  "patched phdr_size ph num bs en exec kind =
     (if kind = AT_PHDR then Some ph
      else if kind = AT_PHENT then Some phdr_size
      else if kind = AT_PHNUM then Some num
      else if kind = AT_BASE then Some bs
      else if kind = AT_ENTRY then Some en
      else if kind = AT_EXECFN then Some exec
      else None)"

partial_function (option) patch_loop :: "(usize \<Rightarrow> usize option) \<Rightarrow> wmem \<Rightarrow> usize \<Rightarrow> wmem option" where
  "patch_loop f m p =
     (let kind = m p
      in if kind = AT_NULL then Some m
         else patch_loop f (case f kind of None \<Rightarrow> m | Some v \<Rightarrow> m(p + 8 := v)) (p + 16))"

definition patch_auxv ::
  "usize \<Rightarrow> wmem \<Rightarrow> usize \<Rightarrow> usize \<Rightarrow> usize \<Rightarrow> usize \<Rightarrow> usize \<Rightarrow> usize \<Rightarrow> wmem option" where
  "patch_auxv phdr_size m p ph num bs en exec =
     (if p = 0 then Some m else patch_loop (patched phdr_size ph num bs en exec) m p)"

section \<open>Words at an address\<close>

fun words_at :: "wmem \<Rightarrow> usize \<Rightarrow> usize list \<Rightarrow> bool" where
  "words_at m p [] = True"
| "words_at m p (w # ws) \<longleftrightarrow> m p = w \<and> words_at m (p + 8) ws"

lemma words_at_append:
  "words_at m p (us @ vs) \<longleftrightarrow> words_at m p us \<and> words_at m (p + 8 * of_nat (length us)) vs"
  by (induction us arbitrary: p) (auto simp: algebra_simps)

lemma slot_inj:
  assumes "i < 2 ^ 61" "j < 2 ^ 61" "(p :: usize) + 8 * of_nat i = p + 8 * of_nat j"
  shows "i = j"
proof -
  have "(of_nat (8 * i) :: usize) = of_nat (8 * j)" using assms(3) by simp
  then have "8 * i = 8 * j" by (subst (asm) of_nat_usize_inject) (use assms in simp_all)
  then show ?thesis by simp
qed

lemma slot_ne: "0 < j \<Longrightarrow> j < 2 ^ 61 \<Longrightarrow> (p :: usize) + 8 * of_nat j \<noteq> p"
  using slot_inj [of j 0 p] by auto

lemma words_at_frame:
  "(\<And>j. j < length ws \<Longrightarrow> a \<noteq> p + 8 * of_nat j) \<Longrightarrow> words_at (m(a := v)) p ws = words_at m p ws"
proof (induction ws arbitrary: p)
  case Nil
  then show ?case by simp
next
  case (Cons w ws)
  have "a \<noteq> p" using Cons.prems [of 0] by simp
  moreover have "a \<noteq> (p + 8) + 8 * of_nat j" if "j < length ws" for j
    using Cons.prems [of "Suc j"] that by (simp add: algebra_simps)
  ultimately show ?case using Cons.IH [of "p + 8"] by simp
qed

lemma words_at_below:
  assumes "words_at m (p + 8) ws" "length ws < 2 ^ 61 - 1"
  shows "words_at (m(p := v)) (p + 8) ws"
proof -
  have "p \<noteq> (p + 8) + 8 * of_nat j" if "j < length ws" for j
    using slot_ne [of "1 + j" p] that assms(2) by (simp add: algebra_simps)
  then have "words_at (m(p := v)) (p + 8) ws = words_at m (p + 8) ws" by (rule words_at_frame)
  with assms(1) show ?thesis by blast
qed

lemma skip_words_at:
  "words_at m p (ws @ [0]) \<Longrightarrow> 0 \<notin> set ws \<Longrightarrow> skip_words m p = Some (p + 8 * of_nat (length ws))"
  by (induction ws arbitrary: p) (subst skip_words.simps; auto simp: algebra_simps)+

definition flat :: "(usize \<times> usize) list \<Rightarrow> usize list" where
  "flat kvs = concat (map (\<lambda>(k, v). [k, v]) kvs)"

lemma flat_simps [simp]: "flat [] = []" "flat ((k, v) # kvs) = k # v # flat kvs"
  by (simp_all add: flat_def)

lemma length_flat [simp]: "length (flat kvs) = 2 * length kvs"
  by (induction kvs) auto

lemma skip_pairs_at:
  "words_at m p (flat kvs @ [0]) \<Longrightarrow> 0 \<notin> fst ` set kvs \<Longrightarrow>
     skip_pairs m p = Some (p + 16 * of_nat (length kvs))"
  by (induction kvs arbitrary: p) (subst skip_pairs.simps; auto simp: AT_NULL_def algebra_simps)+

lemma parse_auxv_loop_at:
  "words_at m p (flat kvs @ [0]) \<Longrightarrow> 0 \<notin> fst ` set kvs \<Longrightarrow>
     parse_auxv_loop m p a = Some (fold (\<lambda>(k, v). set_aux k v) kvs a)"
  by (induction kvs arbitrary: p a) (subst parse_auxv_loop.simps; auto simp: AT_NULL_def Let_def algebra_simps)+

section \<open>The layout of a process stack\<close>

text \<open>The words from the argument count to the end of the auxiliary vector; \<open>fin\<close> is the unused value of
  the terminating \<open>AT_NULL\<close> entry.\<close>

definition stack_words :: "usize list \<Rightarrow> usize list \<Rightarrow> (usize \<times> usize) list \<Rightarrow> usize \<Rightarrow> usize list" where
  "stack_words args env kvs fin =
     of_nat (length args) # args @ 0 # env @ 0 # flat kvs @ [0, fin]"

definition process_layout ::
  "wmem \<Rightarrow> usize \<Rightarrow> usize list \<Rightarrow> usize list \<Rightarrow> (usize \<times> usize) list \<Rightarrow> usize \<Rightarrow> bool" where
  "process_layout m p args env kvs fin \<longleftrightarrow>
     words_at m p (stack_words args env kvs fin) \<and> 0 \<notin> set env \<and> 0 \<notin> fst ` set kvs \<and>
     length (stack_words args env kvs fin) < 2 ^ 61"

definition envp_of :: "usize \<Rightarrow> usize list \<Rightarrow> usize" where
  "envp_of p args = p + 8 * of_nat (length args + 2)"

definition auxv_of :: "usize \<Rightarrow> usize list \<Rightarrow> usize list \<Rightarrow> usize" where
  "auxv_of p args env = p + 8 * of_nat (length args + length env + 3)"

lemma process_layout_parts:
  assumes "process_layout m p args env kvs fin"
  shows "m p = of_nat (length args)" "words_at m (p + 8) (args @ 0 # env @ 0 # flat kvs @ [0, fin])"
    "words_at m (envp_of p args) (env @ [0])" "words_at m (auxv_of p args env) (flat kvs @ [0])"
  using assms
  by (simp_all add: process_layout_def stack_words_def words_at_append envp_of_def auxv_of_def algebra_simps)

lemma layout_scan:
  assumes "process_layout m p args env kvs fin"
  shows "skip_words m (envp_of p args) = Some (auxv_of p args env - 8)"
    "skip_pairs m (auxv_of p args env) = Some (auxv_of p args env + 16 * of_nat (length kvs))"
    "parse_auxv m (auxv_of p args env) = Some (fold (\<lambda>(k, v). set_aux k v) kvs aux_empty)"
  using skip_words_at [OF process_layout_parts(3) [OF assms]] skip_pairs_at [OF process_layout_parts(4) [OF assms]]
    parse_auxv_loop_at [OF process_layout_parts(4) [OF assms]] assms
  by (simp_all add: process_layout_def parse_auxv_def envp_of_def auxv_of_def algebra_simps)

text \<open>The field that an auxiliary key is stored in.\<close>

definition aux_fields :: "(usize \<times> (aux_values \<Rightarrow> usize)) list" where
  "aux_fields = [(AT_PHDR, phdr), (AT_PHENT, phent), (AT_PHNUM, phnum), (AT_BASE, base), (AT_ENTRY, entry),
     (AT_SECURE, secure), (AT_PAGESZ, pagesize), (AT_PLATFORM, platform), (AT_HWCAP, hwcap),
     (AT_HWCAP2, hwcap2), (AT_HWCAP3, hwcap3), (AT_HWCAP4, hwcap4), (AT_CLKTCK, clktck), (AT_FPUCW, fpucw),
     (AT_MINSIGSTKSZ, minsigstacksize), (AT_SYSINFO_EHDR, sysinfo_ehdr)]"

definition last_value :: "(usize \<times> usize) list \<Rightarrow> usize \<Rightarrow> usize" where
  "last_value kvs k = (case map_of (rev kvs) k of None \<Rightarrow> 0 | Some v \<Rightarrow> v)"

lemma set_aux_fields:
  "phdr (set_aux k v a) = (if k = AT_PHDR then v else phdr a)"
  "phent (set_aux k v a) = (if k = AT_PHENT then v else phent a)"
  "phnum (set_aux k v a) = (if k = AT_PHNUM then v else phnum a)"
  "base (set_aux k v a) = (if k = AT_BASE then v else base a)"
  "entry (set_aux k v a) = (if k = AT_ENTRY then v else entry a)"
  "secure (set_aux k v a) = (if k = AT_SECURE then v else secure a)"
  "pagesize (set_aux k v a) = (if k = AT_PAGESZ then v else pagesize a)"
  "platform (set_aux k v a) = (if k = AT_PLATFORM then v else platform a)"
  "hwcap (set_aux k v a) = (if k = AT_HWCAP then v else hwcap a)"
  "hwcap2 (set_aux k v a) = (if k = AT_HWCAP2 then v else hwcap2 a)"
  "hwcap3 (set_aux k v a) = (if k = AT_HWCAP3 then v else hwcap3 a)"
  "hwcap4 (set_aux k v a) = (if k = AT_HWCAP4 then v else hwcap4 a)"
  "clktck (set_aux k v a) = (if k = AT_CLKTCK then v else clktck a)"
  "fpucw (set_aux k v a) = (if k = AT_FPUCW then v else fpucw a)"
  "minsigstacksize (set_aux k v a) = (if k = AT_MINSIGSTKSZ then v else minsigstacksize a)"
  "sysinfo_ehdr (set_aux k v a) = (if k = AT_SYSINFO_EHDR then v else sysinfo_ehdr a)"
  by (simp_all add: set_aux_def at_defs)

lemma set_aux_field: "(k, f) \<in> set aux_fields \<Longrightarrow> f (set_aux k' v a) = (if k' = k then v else f a)"
proof -
  have "list_all (\<lambda>(k, f). f (set_aux k' v a) = (if k' = k then v else f a)) aux_fields"
    unfolding aux_fields_def by (simp only: list.pred_inject prod.case set_aux_fields simp_thms)
  then show "(k, f) \<in> set aux_fields \<Longrightarrow> ?thesis" by (auto simp: list_all_iff)
qed

lemma fold_set_aux:
  "(k, f) \<in> set aux_fields \<Longrightarrow>
     f (fold (\<lambda>(k, v). set_aux k v) kvs a) = (case map_of (rev kvs) k of None \<Rightarrow> f a | Some v \<Rightarrow> v)"
  by (induction kvs rule: rev_induct) (auto simp: set_aux_field)

lemma aux_empty_field: "(k, f) \<in> set aux_fields \<Longrightarrow> f aux_empty = 0"
proof -
  have "list_all (\<lambda>(k, f). f aux_empty = 0) aux_fields" by (simp add: aux_fields_def aux_empty_def)
  then show "(k, f) \<in> set aux_fields \<Longrightarrow> ?thesis" by (auto simp: list_all_iff)
qed

section \<open>Properties\<close>

lemma layout_parse:
  assumes "process_layout m p args env kvs fin"
  shows "parse m p = Some \<lparr>raw = p,
    process = \<lparr>argc = of_nat (length args), argv = p + 8, envp = envp_of p args,
      auxv = auxv_of p args env, exec_path = 0\<rparr>,
    aux = fold (\<lambda>(k, v). set_aux k v) kvs aux_empty\<rparr>"
proof -
  have "p + 8 * (m p + 2) = envp_of p args"
    by (simp add: process_layout_parts(1) [OF assms] envp_of_def)
  then show ?thesis
    using layout_scan [OF assms] by (simp add: parse_def process_layout_parts(1) [OF assms])
qed

text \<open>C28. On a well-formed initial stack the parser returns: the argument count, the addresses of the argument,
  environment and auxiliary vectors are those of the layout, and every recognised auxiliary key has its
  last value, or 0 when it does not occur.\<close>

theorem parse_finds_layout:
  assumes "process_layout m p args env kvs fin"
  shows "\<exists>s. parse m p = Some s \<and> raw s = p \<and>
    process s = \<lparr>argc = of_nat (length args), argv = p + 8, envp = envp_of p args,
      auxv = auxv_of p args env, exec_path = 0\<rparr> \<and>
    (\<forall>k f. (k, f) \<in> set aux_fields \<longrightarrow> f (aux s) = last_value kvs k)"
  using layout_parse [OF assms] by (auto simp: fold_set_aux aux_empty_field last_value_def split: option.split)

text \<open>Copying downwards word by word.\<close>

fun copy_up :: "wmem \<Rightarrow> usize \<Rightarrow> usize \<Rightarrow> nat \<Rightarrow> wmem" where
  "copy_up m d s 0 = m"
| "copy_up m d s (Suc n) = copy_up (m(d := m s)) (d + 8) (s + 8) n"

lemma copy_words_eq:
  "copy_words m d s n i = copy_up m (d + 8 * i) (s + 8 * i) (unat n - unat i)"
proof (induction m d s n i rule: copy_words.induct)
  case (1 m d s n i)
  show ?case
  proof (cases "i < n")
    case True
    then have "unat n - unat i = Suc (unat n - unat (i + 1))"
      by (simp add: rust_arith word_less_nat_alt)
    moreover have "d + 8 * (i + 1) = d + 8 * i + 8" "s + 8 * (i + 1) = s + 8 * i + 8"
      by (simp_all add: algebra_simps)
    ultimately show ?thesis using True 1
      by (simp add: copy_words.simps [of m d s n i] add.assoc del: fun_upd_apply)
  next
    case False
    then show ?thesis by (simp add: copy_words.simps [of m d s n i] word_less_nat_alt)
  qed
qed

lemma copy_up_frame: "(\<And>j. j < n \<Longrightarrow> a \<noteq> d + 8 * of_nat j) \<Longrightarrow> copy_up m d s n a = m a"
proof (induction n arbitrary: m d s)
  case 0
  then show ?case by simp
next
  case (Suc n)
  have "a \<noteq> d" using Suc.prems [of 0] by simp
  moreover have "a \<noteq> (d + 8) + 8 * of_nat j" if "j < n" for j
    using Suc.prems [of "Suc j"] that by (simp add: algebra_simps)
  ultimately show ?case using Suc.IH by simp
qed

lemma copy_up_words:
  assumes "words_at m s ws" "s = d + 8 * of_nat k" "k + length ws < 2 ^ 61"
  shows "words_at (copy_up m d s (length ws)) d ws"
  using assms
proof (induction ws arbitrary: m d s)
  case Nil
  then show ?case by simp
next
  case (Cons w ws)
  have "d \<noteq> (s + 8) + 8 * of_nat j" if "j < length ws" for j
    using slot_ne [of "k + 1 + j" d] Cons.prems(2,3) that by (simp add: algebra_simps)
  then have "words_at (m(d := m s)) (s + 8) ws" using Cons.prems(1) by (simp add: words_at_frame)
  then have "words_at (copy_up (m(d := m s)) (d + 8) (s + 8) (length ws)) (d + 8) ws"
    by (rule Cons.IH) (use Cons.prems in \<open>simp_all add: algebra_simps\<close>)
  moreover have "d \<noteq> (d + 8) + 8 * of_nat j" if "j < length ws" for j
    using slot_ne [of "1 + j" d] Cons.prems(3) that by (simp add: algebra_simps)
  then have "copy_up (m(d := m s)) (d + 8) (s + 8) (length ws) d = m s"
    by (simp add: copy_up_frame)
  ultimately show ?case using Cons.prems(1) by simp
qed

lemma slot_count: "n < 2 ^ 61 \<Longrightarrow> (8 * of_nat n :: usize) div 8 = of_nat n"
proof -
  assume n: "n < 2 ^ 61"
  have "unat (of_nat (8 * n) :: usize) = 8 * n" by (rule unat_of_nat_usize) (use n in simp)
  moreover have "unat (of_nat n :: usize) = n" by (rule unat_of_nat_usize) (use n in simp)
  ultimately show ?thesis by (simp add: word_unat_eq_iff unat_div)
qed

lemma copy_words_down:
  assumes "words_at m (d + 8 * of_nat k) ws" "k + length ws < 2 ^ 61" "n = of_nat (length ws)"
  shows "words_at (copy_words m d (d + 8 * of_nat k) n 0) d ws"
proof -
  have "unat n = length ws" unfolding assms(3) by (rule unat_of_nat_usize) (use assms(2) in simp)
  then show ?thesis using copy_up_words [OF assms(1) refl assms(2)] by (simp add: copy_words_eq)
qed

lemma layout_set_count:
  assumes "words_at m (p + 8) (args @ 0 # env @ 0 # flat kvs @ [0, fin])" "0 \<notin> set env" "0 \<notin> fst ` set kvs"
    "length (stack_words args env kvs fin) < 2 ^ 61" "n = of_nat (length args)"
  shows "process_layout (m(p := n)) p args env kvs fin"
proof -
  let ?ws = "args @ 0 # env @ 0 # flat kvs @ [0, fin]"
  have "words_at (m(p := n)) (p + 8) ?ws"
    by (rule words_at_below [OF assms(1)]) (use assms(4) in \<open>simp add: stack_words_def\<close>)
  then show ?thesis using assms by (simp add: process_layout_def stack_words_def)
qed

lemma layout_set_arg0:
  assumes "process_layout m p (a # args) env kvs fin"
  shows "process_layout (m(p + 8 := v)) p (v # args) env kvs fin"
proof -
  let ?ws = "args @ 0 # env @ 0 # flat kvs @ [0, fin]"
  have "words_at m (p + 8 + 8) ?ws" using process_layout_parts(2) [OF assms] by simp
  then have "words_at (m(p + 8 := v)) (p + 8 + 8) ?ws"
    by (rule words_at_below) (use assms in \<open>simp add: process_layout_def stack_words_def\<close>)
  then show ?thesis using assms by (simp add: process_layout_def stack_words_def)
qed

text \<open>The argument vector of the program after a direct invocation.\<close>

definition program_args :: "usize list \<Rightarrow> nat \<Rightarrow> usize \<Rightarrow> usize list" where
  "program_args args i a0 = (if a0 = 0 then drop i args else a0 # drop (Suc i) args)"

text \<open>The state after the copy and the new argument count.\<close>

lemma rewrite_copied:
  assumes "process_layout m p args env kvs fin" "i < length args"
    and "src = p + 8 + 8 * of_nat i" "z = auxv_of p args env + 16 * of_nat (length kvs)"
  shows "process_layout ((copy_words m (p + 8) src ((z + 16 - src) div 8) 0)(p := of_nat (length args - i)))
    p (drop i args) env kvs fin"
proof -
  let ?tail = "0 # env @ 0 # flat kvs @ [0, fin]"
  let ?ws = "drop i args @ ?tail"
  have len: "i + length ?ws < 2 ^ 61" using assms(1,2) by (simp add: process_layout_def stack_words_def)
  have "args @ ?tail = take i args @ ?ws" by simp
  then have "words_at m (p + 8) (take i args @ ?ws)" using process_layout_parts(2) [OF assms(1)] by metis
  then have src: "words_at m (p + 8 + 8 * of_nat i) ?ws"
    by (subst (asm) words_at_append) (use assms(2) in simp)
  have "z + 16 - src = 8 * of_nat (length ?ws)"
    using assms(2-4) by (simp add: auxv_of_def of_nat_diff algebra_simps)
  then have count: "(z + 16 - src) div 8 = of_nat (length ?ws)"
    using slot_count [of "length ?ws"] len by (metis add_lessD1 add.commute)
  have "words_at (copy_words m (p + 8) src ((z + 16 - src) div 8) 0) (p + 8) ?ws"
    using copy_words_down [OF src len count] assms(3) by simp
  then show ?thesis
    by (rule layout_set_count) (use assms(1,2) in \<open>auto simp: process_layout_def stack_words_def\<close>)
qed

lemma rewrite_for_program_eq:
  assumes "skip_pairs m (auxv (process s)) = Some z" "skip_words m3 (raw s + 8 * (n + 2)) = Some y"
    and "n = argc (process s) - argv_index d" "src = raw s + 8 * (1 + argv_index d)"
    and "m2 = (copy_words m (raw s + 8) src ((z + 16 - src) div 8) 0)(raw s := n)"
    and "m3 = (if argv0 d \<noteq> 0 then m2(raw s + 8 := argv0 d) else m2)"
  shows "rewrite_for_program m s d = Some (m3, \<lparr>argc = n, argv = raw s + 8, envp = raw s + 8 * (n + 2),
    auxv = y + 8, exec_path = m2 (raw s + 8)\<rparr>)"
  unfolding rewrite_for_program_def Let_def assms(1) option.case assms(3,4) [symmetric]
    assms(5,6) [symmetric] assms(2) ..

lemma rewrite_layout:
  assumes "process_layout m p args env kvs fin" and "parse m p = Some s" and "i < length args"
  shows "\<exists>m'. let args' = program_args args i a0 in
    rewrite_for_program m s \<lparr>argv_index = of_nat i, argv0 = a0\<rparr> =
      Some (m', \<lparr>argc = of_nat (length args'), argv = p + 8, envp = envp_of p args',
        auxv = auxv_of p args' env, exec_path = args ! i\<rparr>) \<and>
    process_layout m' p args' env kvs fin"
proof -
  let ?args' = "program_args args i a0"
  let ?n = "of_nat (length args) - of_nat i :: usize"
  let ?src = "p + 8 + 8 * of_nat i" and ?z = "auxv_of p args env + 16 * of_nat (length kvs)"
  have s: "raw s = p" "process s = \<lparr>argc = of_nat (length args), argv = p + 8, envp = envp_of p args,
      auxv = auxv_of p args env, exec_path = 0\<rparr>"
    using layout_parse [OF assms(1)] assms(2) by auto
  let ?m2 = "(copy_words m (p + 8) ?src ((?z + 16 - ?src) div 8) 0)(p := ?n)"
  have l2: "process_layout ?m2 p (drop i args) env kvs fin"
    using rewrite_copied [OF assms(1,3) refl refl] assms(3) by (simp add: of_nat_diff)
  have dr: "drop i args = args ! i # drop (Suc i) args" using assms(3) by (simp add: Cons_nth_drop_Suc)
  have exec: "?m2 (p + 8) = args ! i" using process_layout_parts(2) [OF l2] unfolding dr by simp
  let ?m3 = "if a0 \<noteq> 0 then ?m2(p + 8 := a0) else ?m2"
  have l3: "process_layout ?m3 p ?args' env kvs fin"
    using l2 layout_set_arg0 [of ?m2 p "args ! i" "drop (Suc i) args" env kvs fin a0] dr
    by (simp add: program_args_def del: fun_upd_apply)
  have n': "?n = of_nat (length ?args')"
  proof -
    have "length ?args' = length args - i" using assms(3) by (simp add: program_args_def Suc_diff_Suc)
    then show ?thesis using assms(3) by (simp add: of_nat_diff)
  qed
  then have envp: "p + 8 * (?n + 2) = envp_of p ?args'" by (simp add: envp_of_def)
  have src': "raw s + 8 * (1 + of_nat i) = ?src" "raw s = p" using s(1) by (simp_all add: algebra_simps)
  have "rewrite_for_program m s \<lparr>argv_index = of_nat i, argv0 = a0\<rparr> =
      Some (?m3, \<lparr>argc = of_nat (length ?args'), argv = p + 8, envp = envp_of p ?args',
        auxv = auxv_of p ?args' env, exec_path = args ! i\<rparr>)"
    using rewrite_for_program_eq [where m = m and s = s and z = ?z and n = ?n and src = ?src
        and d = "\<lparr>argv_index = of_nat i, argv0 = a0\<rparr>" and y = "auxv_of p ?args' env - 8", OF _ _ _ _ refl refl]
      layout_scan(2) [OF assms(1)] layout_scan(1) [OF l3]
    unfolding initial_stack.simps direct_program.simps process_stack.simps s src' exec envp n' [symmetric]
    by simp
  with l3 show ?thesis by (auto simp: Let_def)
qed

text \<open>C26. After a direct invocation the stack is rewritten to the layout the program would have had if it had
  been started itself: the interpreter's arguments are gone, an explicit \<open>argv[0]\<close> replaces the program's
  path, environment and auxiliary vector are moved down unchanged, and the returned pointers describe the
  new layout.\<close>

theorem rewrite_for_program_layout:
  assumes "process_layout m p args env kvs fin" and "parse m p = Some s" and "i < length args"
  shows "\<exists>m'. let args' = program_args args i a0 in
    rewrite_for_program m s \<lparr>argv_index = of_nat i, argv0 = a0\<rparr> =
      Some (m', \<lparr>argc = of_nat (length args'), argv = p + 8, envp = envp_of p args',
        auxv = auxv_of p args' env, exec_path = args ! i\<rparr>) \<and>
    process_layout m' p args' env kvs fin"
  by (rule rewrite_layout [OF assms])

lemma patch_loop_at:
  assumes "words_at m p (flat kvs @ [0])" "0 \<notin> fst ` set kvs" "2 * length kvs < 2 ^ 61"
  shows "\<exists>m'. patch_loop f m p = Some m' \<and>
    words_at m' p (flat (map (\<lambda>(k, v). (k, case f k of None \<Rightarrow> v | Some w \<Rightarrow> w)) kvs) @ [0]) \<and>
    (\<forall>a. (\<forall>j < length kvs. a \<noteq> p + 8 * of_nat (2 * j + 1)) \<longrightarrow> m' a = m a)"
  using assms
proof (induction kvs arbitrary: m p)
  case Nil
  then show ?case by (subst patch_loop.simps) (simp add: AT_NULL_def)
next
  case (Cons kv kvs)
  obtain k v where kv: "kv = (k, v)" by force
  let ?m = "case f k of None \<Rightarrow> m | Some v \<Rightarrow> m(p + 8 := v)"
  have k: "m p = k" "k \<noteq> 0" and v: "m (p + 8) = v" and rest: "words_at m (p + 16) (flat kvs @ [0])"
    using Cons.prems kv by (auto simp: add.assoc)
  have step: "patch_loop f m p = patch_loop f ?m (p + 16)"
    using k by (subst patch_loop.simps) (simp add: AT_NULL_def)
  have ne: "p + 8 \<noteq> (p + 16) + 8 * of_nat j" if "j < length (flat kvs @ [0])" for j
    using slot_ne [of "1 + j" "p + 8"] that Cons.prems(3) by (simp add: algebra_simps)
  have "words_at ?m (p + 16) (flat kvs @ [0])"
    using rest ne words_at_frame [of "flat kvs @ [0]" "p + 8" "p + 16" m] by (auto split: option.split simp del: fun_upd_apply)
  then obtain m' where m': "patch_loop f ?m (p + 16) = Some m'"
    "words_at m' (p + 16) (flat (map (\<lambda>(k, v). (k, case f k of None \<Rightarrow> v | Some w \<Rightarrow> w)) kvs) @ [0])"
    and fr: "\<And>a. (\<And>j. j < length kvs \<Longrightarrow> a \<noteq> (p + 16) + 8 * of_nat (2 * j + 1)) \<Longrightarrow> m' a = ?m a"
    using Cons.IH [of ?m "p + 16"] Cons.prems kv by auto
  have "p \<noteq> (p + 16) + 8 * of_nat (2 * j + 1)" "p + 8 \<noteq> (p + 16) + 8 * of_nat (2 * j + 1)"
    if "j < length kvs" for j
    using slot_ne [of "2 * j + 3" p] slot_ne [of "2 * j + 2" "p + 8"] that Cons.prems(3)
    by (simp_all add: algebra_simps)
  then have "m' p = ?m p" "m' (p + 8) = ?m (p + 8)" using fr by blast+
  then have here: "m' p = k" "m' (p + 8) = (case f k of None \<Rightarrow> v | Some w \<Rightarrow> w)"
    using k v slot_ne [of 1 p] by (auto split: option.split)
  have "m' a = m a" if a: "\<And>j. j < length (kv # kvs) \<Longrightarrow> a \<noteq> p + 8 * of_nat (2 * j + 1)" for a
  proof -
    have "a \<noteq> (p + 16) + 8 * of_nat (2 * j + 1)" if "j < length kvs" for j
      using a [of "Suc j"] that by (simp add: algebra_simps)
    then have "m' a = ?m a" by (rule fr)
    then show ?thesis using a [of 0] by (auto split: option.split)
  qed
  with step m' here kv show ?case by (auto simp: add.assoc)
qed

lemma words_at_nth: "words_at m p ws \<longleftrightarrow> (\<forall>j < length ws. m (p + 8 * of_nat j) = ws ! j)"
  by (induction ws arbitrary: p) (auto simp: All_less_Suc2 algebra_simps)

text \<open>Patching the auxiliary vector returns, replaces the values of the keys that describe the program and
  leaves every other word of the process stack as it was.\<close>

theorem patch_auxv_layout:
  assumes "process_layout m p args env kvs fin" and "auxv_of p args env \<noteq> 0"
  shows "\<exists>m'. patch_auxv phdr_size m (auxv_of p args env) ph num bs en exec = Some m' \<and>
    process_layout m' p args env
      (map (\<lambda>(k, v). (k, case patched phdr_size ph num bs en exec k of None \<Rightarrow> v | Some w \<Rightarrow> w)) kvs) fin"
proof -
  let ?f = "patched phdr_size ph num bs en exec" and ?q = "auxv_of p args env"
  let ?kvs = "map (\<lambda>(k, v). (k, case ?f k of None \<Rightarrow> v | Some w \<Rightarrow> w)) kvs"
  let ?n = "length args + length env + 3"
  let ?pre = "of_nat (length args) # args @ 0 # env @ [0]"
  have lay: "words_at m p (?pre @ flat kvs @ [0, fin])" "0 \<notin> set env" "0 \<notin> fst ` set kvs"
    and len: "?n + 2 * length kvs + 2 < 2 ^ 61"
    using assms(1) by (simp_all add: process_layout_def stack_words_def)
  obtain m' where m': "patch_loop ?f m ?q = Some m'" "words_at m' ?q (flat ?kvs @ [0])"
    and fr: "\<And>a. (\<And>j. j < length kvs \<Longrightarrow> a \<noteq> ?q + 8 * of_nat (2 * j + 1)) \<Longrightarrow> m' a = m a"
    using patch_loop_at [OF process_layout_parts(4) [OF assms(1)] lay(3)] len by fastforce
  have keep: "m' (p + 8 * of_nat k) = m (p + 8 * of_nat k)"
    if "k < ?n \<or> k = ?n + 2 * length kvs + 1" for k
  proof (rule fr)
    fix j
    assume "j < length kvs"
    then have "k < 2 ^ 61" "?n + 2 * j + 1 < 2 ^ 61" "k \<noteq> ?n + 2 * j + 1" using that len by auto
    then have "p + 8 * of_nat k \<noteq> p + 8 * of_nat (?n + 2 * j + 1)" using slot_inj by blast
    then show "p + 8 * of_nat k \<noteq> ?q + 8 * of_nat (2 * j + 1)" by (simp add: auxv_of_def algebra_simps)
  qed
  have q: "p + 8 * of_nat (length ?pre) = ?q" by (simp add: auxv_of_def algebra_simps)
  have "words_at m p ?pre" using lay(1) by (subst (asm) words_at_append) blast
  then have pre: "words_at m' p ?pre" using keep by (simp only: words_at_nth) auto
  have "words_at m ?q (flat kvs @ [0, fin])" using lay(1) q by (subst (asm) words_at_append) simp
  then have "m (?q + 8 * of_nat (2 * length kvs + 1)) = fin"
    by (simp add: words_at_append algebra_simps)
  then have "m' (?q + 8 * of_nat (2 * length kvs + 1)) = fin"
    using keep [of "?n + 2 * length kvs + 1"] by (simp add: auxv_of_def algebra_simps)
  then have "words_at m' ?q (flat ?kvs @ [0, fin])"
    using m'(2) by (simp add: words_at_append algebra_simps)
  with pre q have "words_at m' p (?pre @ flat ?kvs @ [0, fin])" by (subst words_at_append) simp
  then have "process_layout m' p args env ?kvs fin"
    using lay(2,3) len by (force simp: process_layout_def stack_words_def)
  then show ?thesis using m'(1) assms(2) by (auto simp: patch_auxv_def)
qed

section \<open>Program headers\<close>

definition phdr_table :: "usize \<Rightarrow> (usize \<Rightarrow> elf_phdr) \<Rightarrow> aux_values \<Rightarrow> elf_phdr list \<Rightarrow> bool" where
  "phdr_table phdr_size read_phdr a phs \<longleftrightarrow>
     phdr a \<noteq> 0 \<and> phdr_size \<le> phent a \<and> unat (phnum a) = length phs \<and> length phs * unat (phent a) < 2 ^ 64 \<and>
     (\<forall>i < length phs. read_phdr (phdr a + of_nat i * phent a) = phs ! i)"

lemma phdr_at_table:
  assumes "phdr_table phdr_size read_phdr a phs" "i < length phs"
  shows "phdr_at phdr_size read_phdr a (of_nat i) = Some (phs ! i)"
proof -
  have len: "length phs < 2 ^ 64" using assms(1) unat_usize_bound [of "phnum a"] by (simp add: phdr_table_def)
  then have i: "unat (of_nat i :: usize) = i" by (intro unat_of_nat_usize) (use assms(2) in simp)
  have "i * unat (phent a) \<le> length phs * unat (phent a)" using assms(2) by simp
  also have "\<dots> < 2 ^ 64" using assms(1) by (simp add: phdr_table_def)
  finally have "i * unat (phent a) < 2 ^ 64" .
  then have "checked_mul (of_nat i) (phent a) = Some (of_nat i * phent a)"
    using i by (simp add: checked_mul_def)
  with assms show ?thesis by (simp add: phdr_at_def phdr_table_def not_less)
qed

lemma find_phdr_table:
  assumes "phdr_table phdr_size read_phdr a phs"
  shows "find_phdr phdr_size read_phdr a t = find (\<lambda>ph. program_type ph = t) phs"
proof -
  have n: "unat (phnum a) = length phs" using assms by (simp add: phdr_table_def)
  have "List.map_filter (\<lambda>i. phdr_at phdr_size read_phdr a (of_nat i)) [0..<length phs] =
      List.map_filter (\<lambda>i. Some (phs ! i)) [0..<length phs]"
    using phdr_at_table [OF assms] by (simp add: List.map_filter_def cong: map_cong filter_cong)
  also have "\<dots> = phs" by (simp add: List.map_filter_def o_def map_nth)
  finally show ?thesis by (simp add: find_phdr_def n)
qed

text \<open>From the program headers that the auxiliary vector describes, the load bias is the difference between
  where the table is and where the file says it is, the dynamic section is found at its biased address, and
  \<open>has_tls\<close> tells whether there is a TLS segment.\<close>

theorem program_headers_located:
  assumes "phdr_table phdr_size read_phdr a phs"
    and "find (\<lambda>ph. program_type ph = PT_PHDR) phs = Some self" and "phdr a = bias + p_vaddr self"
    and "find (\<lambda>ph. program_type ph = PT_DYNAMIC) phs = Some dyn"
  shows "load_bias phdr_size read_phdr a = bias \<and>
    dynamic phdr_size read_phdr a (load_bias phdr_size read_phdr a) = bias + p_vaddr dyn \<and>
    (has_tls phdr_size read_phdr a \<longleftrightarrow> (\<exists>ph\<in>set phs. program_type ph = PT_TLS))"
  using assms
  by (auto simp: load_bias_def dynamic_def has_tls_def find_phdr_table [OF assms(1)] find_None_iff)

section \<open>Examples\<close>

text \<open>The stack of \<open>ld.so --argv0 x prog arg\<close>: five arguments, one environment string.\<close>

definition demo_kvs :: "(usize \<times> usize) list" where
  "demo_kvs = [(AT_PHDR, 0x400040), (AT_PHNUM, 11), (AT_PAGESZ, 0x1000), (AT_RANDOM, 0x77)]"

definition demo_stack :: wmem where
  "demo_stack a = (let ws = stack_words [0x10, 0x20, 0x30, 0x40, 0x50] [0x60] demo_kvs 0;
     i = unat (a - 0x7000) div 8 in if a < 0x7000 \<or> length ws \<le> i then 0 else ws ! i)"

lemma demo_stack_layout: "process_layout demo_stack 0x7000 [0x10, 0x20, 0x30, 0x40, 0x50] [0x60] demo_kvs 0"
  by (simp add: process_layout_def stack_words_def demo_kvs_def demo_stack_def Let_def at_defs)

theorem parse_finds_layout_witness:
  "\<exists>s. parse demo_stack 0x7000 = Some s \<and> argc (process s) = 5 \<and> phdr (aux s) = 0x400040 \<and> base (aux s) = 0"
proof -
  obtain s where s: "parse demo_stack 0x7000 = Some s"
    "process s = \<lparr>argc = 5, argv = 0x7008, envp = 0x7038, auxv = 0x7048, exec_path = 0\<rparr>"
    "\<And>k f. (k, f) \<in> set aux_fields \<Longrightarrow> f (aux s) = last_value demo_kvs k"
    using parse_finds_layout [OF demo_stack_layout] by (auto simp: envp_of_def auxv_of_def)
  have "phdr (aux s) = 0x400040" "base (aux s) = 0"
    using s(3) [of AT_PHDR phdr] s(3) [of AT_BASE base]
    by (simp_all add: aux_fields_def last_value_def demo_kvs_def at_defs)
  with s(1,2) show ?thesis by simp
qed

theorem rewrite_for_program_layout_witness:
  "\<exists>m' q. rewrite_for_program demo_stack (the (parse demo_stack 0x7000)) \<lparr>argv_index = 3, argv0 = 0x30\<rparr> =
     Some (m', q) \<and> argc q = 2 \<and> exec_path q = 0x40 \<and>
     process_layout m' 0x7000 [0x30, 0x50] [0x60] demo_kvs 0"
  using rewrite_for_program_layout [OF demo_stack_layout layout_parse [OF demo_stack_layout], of 3 "0x30"]
  by (auto simp: layout_parse [OF demo_stack_layout] program_args_def Let_def)

theorem patch_auxv_layout_witness:
  "\<exists>m'. patch_auxv 56 demo_stack 0x7048 0x500040 9 0 0 0 = Some m' \<and>
     process_layout m' 0x7000 [0x10, 0x20, 0x30, 0x40, 0x50] [0x60]
       [(AT_PHDR, 0x500040), (AT_PHNUM, 9), (AT_PAGESZ, 0x1000), (AT_RANDOM, 0x77)] 0"
  using patch_auxv_layout [OF demo_stack_layout, of 56 "0x500040" 9 0 0 0]
  by (auto simp: auxv_of_def demo_kvs_def patched_def at_defs)

theorem program_headers_located_witness:
  "load_bias 56 (\<lambda>p. if p = 0x400040 then \<lparr>program_type = PT_PHDR, p_vaddr = 0x40\<rparr>
       else \<lparr>program_type = PT_DYNAMIC, p_vaddr = 0x3000\<rparr>)
     (aux_empty\<lparr>phdr := 0x400040, phent := 56, phnum := 2\<rparr>) = 0x400000"
  using program_headers_located [of 56 "\<lambda>p. if p = 0x400040 then \<lparr>program_type = PT_PHDR, p_vaddr = 0x40\<rparr>
       else \<lparr>program_type = PT_DYNAMIC, p_vaddr = 0x3000\<rparr>"
      "aux_empty\<lparr>phdr := 0x400040, phent := 56, phnum := 2\<rparr>"
      "[\<lparr>program_type = PT_PHDR, p_vaddr = 0x40\<rparr>, \<lparr>program_type = PT_DYNAMIC, p_vaddr = 0x3000\<rparr>]"
      "\<lparr>program_type = PT_PHDR, p_vaddr = 0x40\<rparr>" "0x400000" "\<lparr>program_type = PT_DYNAMIC, p_vaddr = 0x3000\<rparr>"]
  by (simp add: phdr_table_def aux_empty_def All_less_Suc2)

end
