(* ===== verification/Host.thy ===== *)
theory Host
  imports Debug_List Stack Manager
begin

text \<open>
  Joining a process that the system's dynamic linker has started (\<open>src/src/runtime/host.rs\<close>): finding its
  \<open>r_debug\<close> through the auxiliary vector and the program headers, adopting its list of link maps, undoing the
  changes glibc makes to a dynamic table, describing every loaded object, and registering it.  What the code
  reads through raw pointers to structures of other crates (program headers, dynamic entries, ELF headers,
  symbols) is the record \<open>host_view\<close>; the construction of a module from such a description is an argument.
  \<open>None\<close> is a scan that does not return.  Sums of addresses wrap, as in a release build.
\<close>

section \<open>Auxiliary vector\<close>

text \<open>\<open>chunks_exact(16)\<close> of \<open>/proc/self/auxv\<close>.\<close>

function auxv_scan :: "bytes \<Rightarrow> usize \<Rightarrow> usize" where
  "auxv_scan data target =
     (if length data < 16 then 0
      else let type = of_nat (le_nat (take 8 data)); val = of_nat (le_nat (take 8 (drop 8 data)))
           in if type = target then val
              else if type = 0 then 0
              else auxv_scan (drop 16 data) target)"
  by pat_completeness auto
termination by (relation "measure (\<lambda>(data, target). length data)") auto

declare auxv_scan.simps [simp del]

definition get_auxv :: "bytes option \<Rightarrow> usize \<Rightarrow> usize" where
  "get_auxv file target = (case file of None \<Rightarrow> 0 | Some data \<Rightarrow> auxv_scan data target)"

section \<open>The debug structure of the host\<close>

definition PT_LOAD :: program_type where "PT_LOAD = PT_OTHER 1"

record host_phdr = elf_phdr +
  p_offset :: usize
  p_memsz :: usize

type_synonym elf_dyn = "int \<times> usize"

record host_view =
  phdr_size :: usize
  dyn_size :: usize
  phdr_of :: "usize \<Rightarrow> host_phdr"
  dyn_of :: "usize \<Rightarrow> elf_dyn"
  ehdr_phoff :: "usize \<Rightarrow> usize"
  ehdr_phnum :: "usize \<Rightarrow> usize"
  ehdr_entry :: "usize \<Rightarrow> usize"
  version_of :: "usize \<Rightarrow> int"

definition phdrs_from :: "host_view \<Rightarrow> usize \<Rightarrow> usize \<Rightarrow> host_phdr list" where
  "phdrs_from hv start n = map (\<lambda>i. phdr_of hv (start + of_nat i * phdr_size hv)) [0..<unat n]"

definition DT_DEBUG_NUM :: int where "DT_DEBUG_NUM = 21"

partial_function (option) find_debug_in_dynamic :: "host_view \<Rightarrow> usize \<Rightarrow> usize option" where
  "find_debug_in_dynamic hv p =
     (if p \<noteq> 0 \<and> fst (dyn_of hv p) \<noteq> 0 then
        (if fst (dyn_of hv p) = DT_DEBUG_NUM \<and> snd (dyn_of hv p) \<noteq> 0 \<and>
            version_of hv (snd (dyn_of hv p)) \<noteq> 0
         then Some (snd (dyn_of hv p))
         else find_debug_in_dynamic hv (p + dyn_size hv))
      else Some 0)"

text \<open>The last \<open>PT_PHDR\<close> and the last \<open>PT_DYNAMIC\<close> header; without the former, the first \<open>PT_LOAD\<close> that
  maps the start of the file.\<close>

fun scan_headers :: "usize \<Rightarrow> host_phdr list \<Rightarrow> usize option \<times> host_phdr option \<Rightarrow> usize option \<times> host_phdr option" where
  "scan_headers phdr_addr [] acc = acc"
| "scan_headers phdr_addr (ph # phs) (bias, dyn) =
     scan_headers phdr_addr phs
       (if program_type ph = PT_PHDR then (Some (phdr_addr - p_vaddr ph), dyn)
        else if program_type ph = PT_DYNAMIC then (bias, Some ph) else (bias, dyn))"

definition bias_from_load :: "usize \<Rightarrow> host_phdr list \<Rightarrow> usize option" where
  "bias_from_load phdr_addr phs =
     map_option (\<lambda>ph. phdr_addr - (p_vaddr ph + 64)) (find (\<lambda>ph. program_type ph = PT_LOAD \<and> p_offset ph = 0) phs)"

definition debug_in_program :: "host_view \<Rightarrow> usize \<Rightarrow> usize \<Rightarrow> usize option" where
  "debug_in_program hv phdr_addr phnum' =
     (let phs = phdrs_from hv phdr_addr phnum';
          (bias0, dyn) = scan_headers phdr_addr phs (None, None);
          bias = (case bias0 of None \<Rightarrow> bias_from_load phdr_addr phs | Some b \<Rightarrow> Some b)
      in case (bias, dyn) of
           (Some b, Some ph) \<Rightarrow> find_debug_in_dynamic hv (b + p_vaddr ph)
         | _ \<Rightarrow> Some 0)"

definition debug_in_interpreter :: "host_view \<Rightarrow> usize \<Rightarrow> usize option" where
  "debug_in_interpreter hv start =
     (if start \<noteq> 0 then
        (case find (\<lambda>ph. program_type ph = PT_DYNAMIC) (phdrs_from hv (start + ehdr_phoff hv start) (ehdr_phnum hv start)) of
           None \<Rightarrow> Some 0
         | Some ph \<Rightarrow> find_debug_in_dynamic hv (start + p_vaddr ph))
      else Some 0)"

definition find_r_debug :: "host_view \<Rightarrow> usize \<Rightarrow> usize \<Rightarrow> usize \<Rightarrow> usize option" where
  "find_r_debug hv phdr_addr phnum' interpreter_base =
     (if phdr_addr = 0 \<or> phnum' = 0 then Some 0
      else Option.bind (debug_in_program hv phdr_addr phnum') (\<lambda>ptr.
        if ptr \<noteq> 0 then Some ptr else debug_in_interpreter hv interpreter_base))"

definition get_debug_struct :: "host_view \<Rightarrow> bytes option \<Rightarrow> usize option option" where
  "get_debug_struct hv file =
     map_option (\<lambda>ptr. if ptr \<noteq> 0 \<and> version_of hv ptr \<noteq> 0 then Some ptr else None)
       (find_r_debug hv (get_auxv file AT_PHDR) (get_auxv file AT_PHNUM) (get_auxv file AT_BASE))"

section \<open>Adopting the list of link maps\<close>

partial_function (option) last_map :: "store \<Rightarrow> usize \<Rightarrow> usize option" where
  "last_map m cur = (if l_next (m cur) \<noteq> 0 then last_map m (l_next (m cur)) else Some cur)"

record host_debug =
  hd_map :: usize
  hd_brk :: bool
  hd_state :: r_state

definition init_host_debug :: "custom_debug \<Rightarrow> host_debug \<Rightarrow> custom_debug option" where
  "init_host_debug s d =
     map_option (\<lambda>tail. s\<lparr>dbg_null := False, internal := False, dbg_map := hd_map d, has_brk := hd_brk d,
         dbg_state := hd_state d, dbg_tail := tail\<rparr>)
       (if hd_map d \<noteq> 0 then last_map (maps s) (hd_map d) else Some 0)"

partial_function (option) find_map_at :: "store \<Rightarrow> (usize \<Rightarrow> usize) \<Rightarrow> usize \<Rightarrow> usize \<Rightarrow> usize option" where
  "find_map_at m l_addr start cur =
     (if cur \<noteq> 0 then (if l_addr cur = start then Some cur else find_map_at m l_addr start (l_next (m cur))) else Some 0)"

definition find_host_link_map :: "custom_debug \<Rightarrow> (usize \<Rightarrow> usize) \<Rightarrow> usize \<Rightarrow> usize option" where
  "find_host_link_map s l_addr start =
     find_map_at (maps s) l_addr start (if dbg_null s then 0 else dbg_map s)"

section \<open>Dynamic tables\<close>

definition DT_ADDR_TAGS :: "int list" where
  "DT_ADDR_TAGS = [3, 4, 5, 6, 7, 12, 13, 17, 23, 25, 26, 36, 0x6ffffef5, 0x6ffffef9, 0x6ffffff9, 0x6ffffff0,
     0x6ffffffc, 0x6ffffffe]"

partial_function (option) count_dynamic :: "host_view \<Rightarrow> usize \<Rightarrow> nat \<Rightarrow> nat option" where
  "count_dynamic hv ptr count =
     (if fst (dyn_of hv (ptr + of_nat count * dyn_size hv)) \<noteq> 0 then count_dynamic hv ptr (count + 1) else Some count)"

definition recover_entry :: "usize \<Rightarrow> elf_dyn \<Rightarrow> elf_dyn" where
  "recover_entry start e =
     (if fst e \<in> set DT_ADDR_TAGS \<and> start < snd e then (fst e, snd e - start) else e)"

definition recover_dynamic_table :: "host_view \<Rightarrow> usize \<Rightarrow> usize \<Rightarrow> elf_dyn list option" where
  "recover_dynamic_table hv ptr start =
     map_option (\<lambda>count. map (recover_entry start) (map (\<lambda>i. dyn_of hv (ptr + of_nat i * dyn_size hv)) [0..<count + 1]))
       (count_dynamic hv ptr 0)"

section \<open>Descriptions of loaded objects\<close>

fun contains :: "bytes \<Rightarrow> bytes \<Rightarrow> bool" where
  "contains pat [] \<longleftrightarrow> pat = []"
| "contains pat (b # bs) \<longleftrightarrow> take (length pat) (b # bs) = pat \<or> contains pat bs"

record host_extra =
  hx_phdrs :: "host_phdr list"
  hx_tls_data :: "usize option"
  hx_offset :: "usize option"

definition get_phdrs_and_len :: "host_view \<Rightarrow> usize \<Rightarrow> host_phdr list option \<Rightarrow> host_phdr list \<times> usize" where
  "get_phdrs_and_len hv start extra =
     (let phs = (case extra of
            Some phs \<Rightarrow> phs
          | None \<Rightarrow> phdrs_from hv (start + ehdr_phoff hv start) (ehdr_phnum hv start))
      in (phs, fold max (map (\<lambda>ph. p_vaddr ph + p_memsz ph) (filter (\<lambda>ph. program_type ph = PT_LOAD) phs)) 0))"

fun redirect_dynamic :: "usize \<Rightarrow> host_phdr list \<Rightarrow> host_phdr list" where
  "redirect_dynamic v [] = []"
| "redirect_dynamic v (ph # phs) =
     (if program_type ph = PT_DYNAMIC then ph\<lparr>p_vaddr := v\<rparr> # phs else ph # redirect_dynamic v phs)"

record raw_module =
  rm_name :: bytes
  rm_base :: usize
  rm_len :: usize
  rm_phdrs :: "host_phdr list"
  rm_table :: "elf_dyn list"
  rm_link :: link_map
  rm_l_addr :: usize
  rm_l_phdr :: usize
  rm_entry :: usize
  rm_phnum :: u16
  rm_tls_offset :: "usize option"

text \<open>The addresses the allocator chooses for the link map, the recovered table and the program headers.\<close>

record places =
  pl_link :: usize
  pl_table :: usize
  pl_phdrs :: usize

definition from_raw ::
  "host_view \<Rightarrow> (usize \<Rightarrow> usize) \<Rightarrow> places \<Rightarrow> bool \<Rightarrow> bytes \<Rightarrow> usize \<Rightarrow> usize \<Rightarrow> host_extra option \<Rightarrow> usize \<Rightarrow>
     raw_module option option" where
  "from_raw hv l_addr pl musl name start dyn_ptr extra host_link_map =
     (if dyn_ptr = 0 then Some None
      else map_option (\<lambda>table.
        let (phs0, len) = get_phdrs_and_len hv start (map_option hx_phdrs extra);
            phs1 = (if table \<noteq> [] then redirect_dynamic (pl_table pl - start) phs0 else phs0);
            phs = (if Option.bind extra hx_tls_data = None then filter (\<lambda>ph. program_type ph \<noteq> PT_TLS) phs1 else phs1)
        in Some \<lparr>rm_name = name, rm_base = start, rm_len = (len + 0xfff) AND NOT 0xfff, rm_phdrs = phs, rm_table = table,
             rm_link = \<lparr>l_prev = 0, l_next = 0, l_real = pl_link pl\<rparr>,
             rm_l_addr = (if host_link_map \<noteq> 0 then l_addr host_link_map else start),
             rm_l_phdr = (if phs = [] then 0 else pl_phdrs pl),
             rm_entry = ehdr_entry hv start + start, rm_phnum = of_nat (min (length phs) 65535),
             rm_tls_offset = map_option uminus (Option.bind extra hx_offset)\<rparr>)
        (if \<not> contains (ascii ''linux-vdso.so.1'') name \<and> \<not> musl then recover_dynamic_table hv dyn_ptr start else Some []))"

section \<open>Globals of the C library\<close>

record libc_globals =
  g_argc :: usize
  g_argv :: usize
  g_envp :: usize

text \<open>\<open>symb\<close> gives the address of a symbol; \<open>int_at\<close> and \<open>word_at\<close> read a C \<open>int\<close> and a pointer.\<close>

definition update_libc_globals ::
  "(usize \<Rightarrow> u32) \<Rightarrow> (usize \<Rightarrow> usize) \<Rightarrow> (bytes \<Rightarrow> usize option) \<Rightarrow> libc_globals \<Rightarrow> libc_globals" where
  "update_libc_globals int_at word_at symb g =
     (let either = (\<lambda>a b. case symb (ascii a) of Some p \<Rightarrow> Some p | None \<Rightarrow> symb (ascii b));
          g1 = (case (if g_argc g = 0 then either ''__libc_argc'' ''__argc'' else None) of
                  Some p \<Rightarrow> g\<lparr>g_argc := scast (int_at p)\<rparr> | None \<Rightarrow> g);
          g2 = (case (if g_argv g1 = 0 then either ''__libc_argv'' ''__argv'' else None) of
                  Some p \<Rightarrow> g1\<lparr>g_argv := p\<rparr> | None \<Rightarrow> g1)
      in case (if g_envp g2 = 0 then either ''environ'' ''__environ'' else None) of
           Some p \<Rightarrow> g2\<lparr>g_envp := word_at p\<rparr> | None \<Rightarrow> g2)"

record host_state =
  is_musl :: bool
  thread_atexit :: "usize option"
  globals :: libc_globals
  iter_phdr :: "usize option"

definition init_libc_thread_atexit :: "(bytes \<Rightarrow> usize option) \<Rightarrow> host_state \<Rightarrow> host_state" where
  "init_libc_thread_atexit symb st =
     (if thread_atexit st \<noteq> None then st
      else case symb (ascii ''__cxa_thread_atexit_impl'') of
          Some f \<Rightarrow> st\<lparr>thread_atexit := Some f\<rparr> | None \<Rightarrow> st)"

text \<open>What the loop does for one link map: \<open>l_ld\<close> and \<open>name_of\<close> are fields of the map, \<open>build\<close> makes a
  module of a description, and \<open>symb\<close> looks a symbol up in it.\<close>

record 'm host_env =
  he_view :: host_view
  he_l_addr :: "usize \<Rightarrow> usize"
  he_l_ld :: "usize \<Rightarrow> usize"
  he_name :: "usize \<Rightarrow> bytes"
  he_places :: "bytes \<Rightarrow> places"
  he_build :: "raw_module \<Rightarrow> 'm option"
  he_sym :: "'m \<Rightarrow> bytes \<Rightarrow> usize option"
  he_int :: "usize \<Rightarrow> u32"
  he_word :: "usize \<Rightarrow> usize"

definition visit_map :: "'m host_env \<Rightarrow> usize \<Rightarrow> host_state \<Rightarrow> host_state option" where
  "visit_map he cur st =
     (let ns = he_name he cur;
          st1 = (if contains (ascii ''ld-musl'') ns then st\<lparr>is_musl := True\<rparr> else st);
          is_main = (ns = []);
          is_libc = ((contains (ascii ''libc'') ns \<or> contains (ascii ''ld-musl'') ns) \<and> contains (ascii ''.so'') ns)
      in if is_main \<or> is_libc then
           map_option (\<lambda>raw.
             case Option.bind raw (he_build he) of
               None \<Rightarrow> st1
             | Some lib \<Rightarrow>
                 let st2 = (if is_libc then init_libc_thread_atexit (he_sym he lib) st1 else st1);
                     st3 = st2\<lparr>globals := update_libc_globals (he_int he) (he_word he) (he_sym he lib) (globals st2)\<rparr>
                 in if is_libc \<and> iter_phdr st3 = None
                    then st3\<lparr>iter_phdr := he_sym he lib (ascii ''dl_iterate_phdr'')\<rparr> else st3)
             (from_raw (he_view he) (he_l_addr he) (he_places he ns) (is_musl st1) ns (he_l_addr he cur) (he_l_ld he cur)
                None cur)
         else Some st1)"

partial_function (option) visit_maps :: "'m host_env \<Rightarrow> store \<Rightarrow> usize \<Rightarrow> host_state \<Rightarrow> host_state option" where
  "visit_maps he m cur st =
     (if cur = 0 then Some st else Option.bind (visit_map he cur st) (\<lambda>st1. visit_maps he m (l_next (m cur)) st1))"

definition find_iterate_phdr :: "'m host_env \<Rightarrow> store \<Rightarrow> usize \<Rightarrow> host_state \<Rightarrow> (host_state \<times> usize option) run option" where
  "find_iterate_phdr he m start st =
     (if start = 0 then Some (Done (st, None))
      else map_option (\<lambda>st1. run_bind (expect (iter_phdr st1)) (\<lambda>f. Done (st1, Some f)))
        (visit_maps he m start (st\<lparr>iter_phdr := None\<rparr>)))"

section \<open>Registration\<close>

record dl_phdr_info =
  dlpi_addr :: usize
  dlpi_name :: bytes
  dlpi_phdrs :: "host_phdr list"
  dlpi_tls_data :: usize

definition callback ::
  "('c, 'i, 'l, 'm, 'y) link_ops \<Rightarrow> 'm host_env \<Rightarrow> usize \<Rightarrow> custom_debug \<Rightarrow> host_state \<Rightarrow> ('c, 'l, 'm) manager \<Rightarrow> dl_phdr_info \<Rightarrow>
     ('c, 'l, 'm) manager run option" where
  "callback ops he tp dbg st mg info =
     (case find (\<lambda>ph. program_type ph = PT_DYNAMIC) (dlpi_phdrs info) of
        None \<Rightarrow> Some Panic
      | Some ph \<Rightarrow>
          Option.bind (find_host_link_map dbg (he_l_addr he) (dlpi_addr info)) (\<lambda>host.
          map_option (\<lambda>raw.
            run_bind (expect raw) (\<lambda>rm. run_bind (expect (he_build he rm)) (\<lambda>lib.
            register_loaded ops mg lib (RTLD_NODELETE OR RTLD_GLOBAL))))
            (from_raw (he_view he) (he_l_addr he) (he_places he (dlpi_name info)) (is_musl st) (dlpi_name info) (dlpi_addr info)
               (dlpi_addr info + p_vaddr ph)
               (Some \<lparr>hx_phdrs = dlpi_phdrs info,
                      hx_tls_data = (if dlpi_tls_data info = 0 then None else Some (dlpi_tls_data info)),
                      hx_offset = (if dlpi_tls_data info = 0 then None else Some (tp - dlpi_tls_data info))\<rparr>) host)))"

text \<open>The iteration function of the C library calls back for every object; the callback always asks to go on.\<close>

fun iterate_infos ::
  "('c, 'i, 'l, 'm, 'y) link_ops \<Rightarrow> 'm host_env \<Rightarrow> usize \<Rightarrow> custom_debug \<Rightarrow> host_state \<Rightarrow> dl_phdr_info list \<Rightarrow> ('c, 'l, 'm) manager \<Rightarrow>
     ('c, 'l, 'm) manager run option" where
  "iterate_infos ops he tp dbg st [] mg = Some (Done mg)"
| "iterate_infos ops he tp dbg st (info # infos) mg =
     (case callback ops he tp dbg st mg info of
        None \<Rightarrow> None
      | Some Panic \<Rightarrow> Some Panic
      | Some (Done mg1) \<Rightarrow> iterate_infos ops he tp dbg st infos mg1)"

definition host_init ::
  "('c, 'i, 'l, 'm, 'y) link_ops \<Rightarrow> 'm host_env \<Rightarrow> usize \<Rightarrow> bytes option \<Rightarrow> (usize \<Rightarrow> host_debug) \<Rightarrow> (usize \<Rightarrow> dl_phdr_info list) \<Rightarrow>
     custom_debug \<Rightarrow> host_state \<Rightarrow> ('c, 'l, 'm) manager \<Rightarrow> (custom_debug \<times> host_state \<times> ('c, 'l, 'm) manager) run option" where
  "host_init ops he tp auxv_file debug_at infos_of dbg st mg =
     Option.bind (get_debug_struct (he_view he) auxv_file) (\<lambda>found.
     case found of
       None \<Rightarrow> Some (Done (dbg, st, mg))
     | Some ptr \<Rightarrow>
         Option.bind (init_host_debug dbg (debug_at ptr)) (\<lambda>dbg1.
         Option.bind (find_iterate_phdr he (maps dbg1) (hd_map (debug_at ptr)) st) (\<lambda>r.
         case r of
           Panic \<Rightarrow> Some Panic
         | Done (st1, f) \<Rightarrow>
             map_option (\<lambda>r2. run_bind r2 (\<lambda>mg1. run_bind (register_initial_aliases ops mg1) (\<lambda>mg2. Done (dbg1, st1, mg2))))
               (iterate_infos ops he tp dbg1 st1 (case f of None \<Rightarrow> [] | Some g \<Rightarrow> infos_of g) mg))))"

section \<open>Properties of the scans\<close>

text \<open>The auxiliary vector as the kernel writes it: pairs of words, ended by the key 0.\<close>

definition enc_pair :: "usize \<times> usize \<Rightarrow> bytes" where
  "enc_pair kv = le_enc 8 (unat (fst kv)) @ le_enc 8 (unat (snd kv))"

lemma of_nat_le_enc: "of_nat (le_nat (le_enc 8 (unat w))) = (w :: usize)"
  using unat_usize_bound [of w] by (simp add: le_nat_enc)

lemma auxv_scan_pair:
  "auxv_scan (enc_pair (k, v) @ rest) target = (if k = target then v else if k = 0 then 0 else auxv_scan rest target)"
  by (subst auxv_scan.simps) (simp add: enc_pair_def of_nat_le_enc Let_def)

lemma get_auxv_first:
  assumes "\<forall>kv\<in>set kvs. fst kv \<noteq> 0" "target \<noteq> 0"
  shows "get_auxv (Some (concat (map enc_pair (kvs @ [(0, fin)])) @ rest)) target =
    (case map_of kvs target of None \<Rightarrow> 0 | Some v \<Rightarrow> v)"
proof -
  have "auxv_scan (concat (map enc_pair (kvs @ [(0, fin)])) @ rest) target = (case map_of kvs target of None \<Rightarrow> 0 | Some v \<Rightarrow> v)"
    using assms(1)
  proof (induction kvs)
    case Nil
    then show ?case using assms(2) auxv_scan_pair [of 0 fin] by simp
  next
    case (Cons kv kvs)
    then show ?case by (cases kv) (auto simp: auxv_scan_pair)
  qed
  then show ?thesis by (simp add: get_auxv_def)
qed

lemma last_map_seg:
  assumes "seg m a xs 0" "xs \<noteq> []" "0 \<notin> set xs"
  shows "last_map m (hd xs) = Some (last xs)"
  using assms
proof (induction xs arbitrary: a)
  case Nil
  then show ?case by simp
next
  case (Cons x xs)
  show ?case
  proof (cases xs)
    case Nil
    then show ?thesis using Cons.prems by (subst last_map.simps) simp
  next
    case (Cons y ys)
    have "l_next (m x) = y" "y \<noteq> 0" "seg m x xs 0" using Cons.prems Cons by auto
    then show ?thesis using Cons.IH [of x] Cons.prems Cons by (subst last_map.simps) simp
  qed
qed

lemma find_map_at_seg:
  assumes "seg m a xs 0" "0 \<notin> set xs"
  shows "find_map_at m l_addr start (hd (xs @ [0])) = Some (case find (\<lambda>p. l_addr p = start) xs of None \<Rightarrow> 0 | Some p \<Rightarrow> p)"
  using assms
proof (induction xs arbitrary: a)
  case Nil
  then show ?case by (subst find_map_at.simps) simp
next
  case (Cons x xs)
  then show ?case by (subst find_map_at.simps) auto
qed

text \<open>C37. Adopting the host's list of link maps finds its tail: the loader's own view of the list is well linked
  from the host's head to the last map, so that maps added later are appended to the host's list, and the
  search by load address returns the first map of the list with that address, or null.\<close>

theorem init_host_debug_adopts:
  assumes "seg (maps s) 0 xs 0" "distinct xs" "0 \<notin> set xs" "hd_map d = hd (xs @ [0])"
  shows "\<exists>s'. init_host_debug s d = Some s' \<and> debug_list s' xs \<and> \<not> dbg_null s' \<and> maps s' = maps s \<and>
    (\<forall>l_addr start. find_host_link_map s' l_addr start =
      Some (case find (\<lambda>p. l_addr p = start) xs of None \<Rightarrow> 0 | Some p \<Rightarrow> p))"
proof -
  have walk: "(if hd_map d \<noteq> 0 then last_map (maps s) (hd_map d) else Some 0) = Some (last (0 # xs))"
  proof (cases "xs = []")
    case True
    then show ?thesis using assms(4) by simp
  next
    case False
    then have "hd xs \<noteq> 0" using assms(3) by (metis hd_in_set)
    then show ?thesis using last_map_seg [OF assms(1) False assms(3)] assms(4) False by simp
  qed
  let ?s' = "s\<lparr>dbg_null := False, internal := False, dbg_map := hd_map d, has_brk := hd_brk d,
    dbg_state := hd_state d, dbg_tail := last (0 # xs)\<rparr>"
  have "init_host_debug s d = Some ?s'" unfolding init_host_debug_def walk by simp
  moreover have "debug_list ?s' xs" using assms by (simp add: debug_list_def)
  moreover have "find_host_link_map ?s' l_addr start = Some (case find (\<lambda>p. l_addr p = start) xs of None \<Rightarrow> 0 | Some p \<Rightarrow> p)"
    for l_addr start
    using find_map_at_seg [OF assms(1,3)] assms(4) by (simp add: find_host_link_map_def)
  ultimately show ?thesis by (intro exI [of _ ?s']) simp
qed

theorem init_host_debug_adopts_witness:
  "let m = link_loaded_objects (\<lambda>_. \<lparr>l_prev = 0, l_next = 0, l_real = 0\<rparr>) [0x100, 0x200];
       s = \<lparr>dbg_null = True, internal = True, dbg_map = 0, dbg_tail = 0, has_brk = True, dbg_state = RT_CONSISTENT,
             states = [], maps = m\<rparr>
   in \<exists>s'. init_host_debug s \<lparr>hd_map = 0x100, hd_brk = False, hd_state = RT_CONSISTENT\<rparr> = Some s' \<and> dbg_tail s' = 0x200"
proof -
  let ?m = "link_loaded_objects (\<lambda>_. \<lparr>l_prev = 0, l_next = 0, l_real = 0\<rparr>) [0x100, 0x200]"
  let ?s = "\<lparr>dbg_null = True, internal = True, dbg_map = 0, dbg_tail = 0, has_brk = True, dbg_state = RT_CONSISTENT,
    states = [], maps = ?m\<rparr>"
  have "seg ?m 0 [0x100, 0x200] 0" by (simp add: link_loaded_objects_def)
  then show ?thesis
    using init_host_debug_adopts [of ?s "[0x100, 0x200]" "\<lparr>hd_map = 0x100, hd_brk = False, hd_state = RT_CONSISTENT\<rparr>"]
    by (auto simp: debug_list_def Let_def)
qed

section \<open>Recovering a dynamic table\<close>

definition dyn_table_at :: "host_view \<Rightarrow> usize \<Rightarrow> elf_dyn list \<Rightarrow> bool" where
  "dyn_table_at hv ptr es \<longleftrightarrow> (\<forall>i<length es. dyn_of hv (ptr + of_nat i * dyn_size hv) = es ! i)"

lemma count_dynamic_table:
  assumes "dyn_table_at hv ptr (es @ [(0, v)])" "\<forall>e\<in>set es. fst e \<noteq> 0" "k \<le> length es"
  shows "count_dynamic hv ptr k = Some (length es)"
  using assms(3)
proof (induction "length es - k" arbitrary: k)
  case 0
  then have "k = length es" by simp
  then have "fst (dyn_of hv (ptr + of_nat k * dyn_size hv)) = 0" using assms(1) by (simp add: dyn_table_at_def)
  then show ?case using \<open>k = length es\<close> by (subst count_dynamic.simps) simp
next
  case (Suc d)
  then have "k < length es" by simp
  then have "dyn_of hv (ptr + of_nat k * dyn_size hv) = es ! k" using assms(1) by (simp add: dyn_table_at_def nth_append)
  then have "fst (dyn_of hv (ptr + of_nat k * dyn_size hv)) \<noteq> 0" using assms(2) \<open>k < length es\<close> by simp
  then have "count_dynamic hv ptr k = count_dynamic hv ptr (k + 1)" by (subst count_dynamic.simps) simp
  then show ?case using Suc by simp
qed

text \<open>What the host's linker did to the entries: it added the load address to those with a tag in \<open>R\<close>.\<close>

definition host_relocated :: "int set \<Rightarrow> usize \<Rightarrow> elf_dyn \<Rightarrow> elf_dyn" where
  "host_relocated R start e = (if fst e \<in> R then (fst e, snd e + start) else e)"

lemma recover_host_relocated:
  assumes "R \<subseteq> set DT_ADDR_TAGS" "fst e \<in> R \<Longrightarrow> snd e \<noteq> 0 \<and> unat (snd e) + unat start < 2 ^ 64"
    and "fst e \<in> set DT_ADDR_TAGS - R \<Longrightarrow> snd e \<le> start"
  shows "recover_entry start (host_relocated R start e) = e"
proof (cases "fst e \<in> R")
  case True
  then have "unat (snd e + start) = unat (snd e) + unat start" "unat (snd e) \<noteq> 0"
    using assms(2) by (simp_all add: unat_add_no_wrap unat_eq_zero)
  then have "start < snd e + start" by (simp add: word_less_nat_alt)
  then show ?thesis using True assms(1) by (auto simp: recover_entry_def host_relocated_def)
next
  case False
  then show ?thesis using assms(3) by (auto simp: recover_entry_def host_relocated_def)
qed

text \<open>C36. A dynamic table whose address entries the host's linker has made absolute, whichever of the address
  tags it relocates, is recovered exactly: the entries come back in order with their link-time values, the
  terminator included.\<close>

theorem recover_dynamic_table_roundtrip:
  assumes "dyn_table_at hv ptr (map (host_relocated R start) (es @ [(0, v)]))"
    and "\<forall>e\<in>set es. fst e \<noteq> 0" and "R \<subseteq> set DT_ADDR_TAGS"
    and "\<forall>e\<in>set es. fst e \<in> R \<longrightarrow> snd e \<noteq> 0 \<and> unat (snd e) + unat start < 2 ^ 64"
    and "\<forall>e\<in>set es. fst e \<in> set DT_ADDR_TAGS - R \<longrightarrow> snd e \<le> start"
  shows "recover_dynamic_table hv ptr start = Some (es @ [(0, v)])"
proof -
  have zero: "0 \<notin> set DT_ADDR_TAGS" by (simp add: DT_ADDR_TAGS_def)
  then have z: "host_relocated R start (0, v) = (0, v)" using assms(3) by (auto simp: host_relocated_def)
  have at: "dyn_table_at hv ptr (map (host_relocated R start) es @ [(0, v)])" using assms(1) z by simp
  have "\<forall>e\<in>set (map (host_relocated R start) es). fst e \<noteq> 0" using assms(2) by (auto simp: host_relocated_def)
  from count_dynamic_table [OF at this, of 0] have n: "count_dynamic hv ptr 0 = Some (length es)" by simp
  have entries: "map (\<lambda>i. dyn_of hv (ptr + of_nat i * dyn_size hv)) [0..<length es + 1] = map (host_relocated R start) (es @ [(0, v)])"
    by (rule nth_equalityI) (use assms(1) in \<open>simp_all add: dyn_table_at_def del: map_append upt_Suc\<close>)
  have "recover_entry start (host_relocated R start e) = e" if "e \<in> set es" for e
    using that assms(4,5) by (intro recover_host_relocated [OF assms(3)]) blast+
  then have "map (recover_entry start) (map (host_relocated R start) es) = es" by (simp add: map_idI)
  moreover have "recover_entry start (0, v) = (0, v)" using zero by (simp add: recover_entry_def)
  ultimately show ?thesis unfolding recover_dynamic_table_def n option.map(2) entries by (simp add: z)
qed

definition demo_host_view :: "(usize \<Rightarrow> elf_dyn) \<Rightarrow> host_view" where
  "demo_host_view rd = \<lparr>phdr_size = 56, dyn_size = 16, phdr_of = (\<lambda>_. \<lparr>program_type = PT_TLS, p_vaddr = 0, p_offset = 0, p_memsz = 0\<rparr>),
     dyn_of = rd, ehdr_phoff = (\<lambda>_. 0), ehdr_phnum = (\<lambda>_. 0), ehdr_entry = (\<lambda>_. 0), version_of = (\<lambda>_. 0)\<rparr>"

theorem recover_dynamic_table_roundtrip_witness:
  "recover_dynamic_table (demo_host_view (\<lambda>p. if p = 0x1000 then (5, 0x7F0000000200) else if p = 0x1010 then (0x6ffffff9, 12)
     else if p = 0x1020 then (10, 0x80) else (0, 0))) 0x1000 0x7F0000000000 =
   Some ([(5, 0x200), (0x6ffffff9, 12), (10, 0x80)] @ [(0, 0)])"
  by (rule recover_dynamic_table_roundtrip [where R = "{5}"])
    (simp_all add: demo_host_view_def dyn_table_at_def host_relocated_def DT_ADDR_TAGS_def less_Suc_eq all_conj_distrib)

text \<open>Unlike \<open>__libc_argc\<close> and \<open>environ\<close>, whose values are read, the argument vector is set to the address of
  the variable \<open>__libc_argv\<close>.\<close>

lemma argv_not_dereferenced:
  assumes "g_argv g = 0" "symb (ascii ''__libc_argv'') = Some p"
  shows "g_argv (update_libc_globals int_at word_at symb g) = p"
  using assms by (auto simp: update_libc_globals_def Let_def split: option.split)

end
