(* ===== verification/Library.thy ===== *)
theory Library
  imports Api Host
begin

text \<open>
  The library objects of the Rust interface (\<open>ElfLibrary\<close> of \<open>src/src/library.rs\<close>) and the leases behind them
  (\<open>ModuleLease\<close> of \<open>src/src/registry/manager.rs\<close>).  An \<open>ElfLibrary\<close> is a counted reference to an \<open>OpenedLibrary\<close>;
  cloning adds a reference, and dropping the last one drops the lease, which goes back to the registry.  Counted
  references are a store from allocations to counts and values.  The theory also has the destructor registration
  that the library exports in a process started by glibc (\<open>runtime/host.rs\<close>).
\<close>

section \<open>Leases\<close>

text \<open>\<open>ModuleLease\<close>: \<open>None\<close> once the acquisition was taken out.\<close>

type_synonym 'l module_lease = "'l option"

definition lease_new :: "'l \<Rightarrow> 'l module_lease" where "lease_new l = Some l"

definition lease_module :: "('c, 'i, 'l, 'm, 'y) link_ops \<Rightarrow> 'l module_lease \<Rightarrow> 'i run" where
  "lease_module ops l = run_bind (expect l) (\<lambda>x. Done (lease_id ops x))"

text \<open>\<open>into_inner\<close> takes the acquisition out, so that the destructor that runs afterwards has nothing to release.\<close>

definition lease_into_inner :: "'l module_lease \<Rightarrow> ('l module_lease \<times> 'l) run" where
  "lease_into_inner l = run_bind (expect l) (\<lambda>x. Done (None, x))"

definition drop_lease ::
  "('c, 'i, 'l, 'm, 'y) link_ops \<Rightarrow> ('c, 'l, 'm) manager \<Rightarrow> 'l module_lease \<Rightarrow> (('c, 'l, 'm) manager \<times> 'm list) run" where
  "drop_lease ops mg l = (case l of None \<Rightarrow> Done (mg, []) | Some x \<Rightarrow> release ops mg x)"

section \<open>Thread destructors\<close>

text \<open>The exported \<open>__cxa_thread_atexit_impl\<close>: \<open>call\<close> is the call of the function libc has under that name.\<close>

definition cxa_thread_atexit_impl ::
  "('c, 'i, 'l, 'm, 'y) link_ops \<Rightarrow> usize \<Rightarrow> (usize \<Rightarrow> 'l thread_destructor \<Rightarrow> usize \<Rightarrow> int) \<Rightarrow> host_state \<Rightarrow>
     ('c, 'l, 'm) manager \<Rightarrow> usize \<Rightarrow> usize \<Rightarrow> usize \<Rightarrow> (('c, 'l, 'm) manager \<times> 'l thread_destructor option \<times> int) run" where
  "cxa_thread_atexit_impl ops wrapper call st mg func arg dso_handle =
     (case thread_atexit st of
        None \<Rightarrow> Done (mg, None, - 1)
      | Some f \<Rightarrow> register_thread_destructor ops wrapper (call f) mg func arg dso_handle)"

section \<open>Libraries\<close>

record ('c, 'l, 'm) libraries =
  lib_registry :: "('c, 'l, 'm) manager"
  lib_arcs :: "nat \<rightharpoonup> nat \<times> ('l, 'm) opened_library"

text \<open>\<open>a\<close> is the allocation of the new \<open>Arc\<close>.\<close>

definition library_from :: "('c, 'l, 'm) libraries \<Rightarrow> nat \<Rightarrow> ('l, 'm) opened_library \<Rightarrow> ('c, 'l, 'm) libraries" where
  "library_from s a ol = s\<lparr>lib_arcs := (lib_arcs s)(a \<mapsto> (1, ol))\<rparr>"

definition library_clone :: "('c, 'l, 'm) libraries \<Rightarrow> nat \<Rightarrow> ('c, 'l, 'm) libraries" where
  "library_clone s a =
     (case lib_arcs s a of None \<Rightarrow> s | Some (n, ol) \<Rightarrow> s\<lparr>lib_arcs := (lib_arcs s)(a \<mapsto> (n + 1, ol))\<rparr>)"

definition library_drop :: "('c, 'i, 'l, 'm, 'y) link_ops \<Rightarrow> ('c, 'l, 'm) libraries \<Rightarrow> nat \<Rightarrow> ('c, 'l, 'm) libraries run" where
  "library_drop ops s a =
     (case lib_arcs s a of
        None \<Rightarrow> Done s
      | Some (n, ol) \<Rightarrow>
          if n > 1 then Done (s\<lparr>lib_arcs := (lib_arcs s)(a \<mapsto> (n - 1, ol))\<rparr>)
          else run_bind (drop_lease ops (lib_registry s) (lease_new (lease ol))) (\<lambda>(mg, _).
            Done (s\<lparr>lib_registry := mg, lib_arcs := (lib_arcs s)(a := None)\<rparr>)))"

text \<open>\<open>AsFilename\<close>: strings (\<open>str\<close>, \<open>String\<close> and references) are their own name; the system strings (\<open>Path\<close>, \<open>PathBuf\<close>,
  \<open>OsStr\<close>, \<open>OsString\<close>) are any bytes and must be UTF-8.\<close>

datatype filename = StrName bytes | OsName bytes

fun as_filename :: "filename \<Rightarrow> bytes run" where
  "as_filename (StrName bs) = Done bs"
| "as_filename (OsName bs) = expect (from_utf8 bs)"

text \<open>\<open>ElfLibrary::this\<close> and \<open>ElfLibrary::dlopen\<close> (\<open>dlopen/run.rs\<close>): the opened library moves into a new \<open>Arc\<close>.\<close>

definition library_this :: "('c, 'i, 'l, 'm, 'y) link_ops \<Rightarrow> ('c, 'l, 'm) libraries \<Rightarrow> nat \<Rightarrow> ('c, 'l, 'm) libraries run" where
  "library_this ops s a =
     run_bind (open_main ops (lib_registry s)) (\<lambda>(mg, ol). Done (library_from (s\<lparr>lib_registry := mg\<rparr>) a ol))"

definition library_dlopen ::
  "('c, 'i, 'l, 'm, 'y) link_ops \<Rightarrow> ('c, 'i, 'l, 'e, 'raw, 'p, 'q, 'b, 'f) linker_ops \<Rightarrow> bytes list option \<Rightarrow>
     ('c, 'l, 'm) libraries \<Rightarrow> nat \<Rightarrow> filename \<Rightarrow> open_flags \<Rightarrow> usize \<Rightarrow> (('c, 'l, 'm) libraries \<times> 'e open_error option) run" where
  "library_dlopen ops lk env s a path flags caller =
     run_bind (as_filename path) (\<lambda>path.
     run_bind (open_file ops lk env (lib_registry s) path flags caller) (\<lambda>(mg, r).
       let s = s\<lparr>lib_registry := mg\<rparr> in
       Done (case r of Inl e \<Rightarrow> (s, Some e) | Inr ol \<Rightarrow> (library_from s a ol, None))))"

definition library_dlopen_from_binary ::
  "('c, 'i, 'l, 'm, 'y) link_ops \<Rightarrow> ('c, 'i, 'l, 'e, 'raw, 'p, 'q, 'b, 'f) linker_ops \<Rightarrow> bytes list option \<Rightarrow>
     ('c, 'l, 'm) libraries \<Rightarrow> nat \<Rightarrow> bytes \<Rightarrow> filename \<Rightarrow> open_flags \<Rightarrow> usize \<Rightarrow> (('c, 'l, 'm) libraries \<times> 'e open_error option) run" where
  "library_dlopen_from_binary ops lk env s a bs path flags caller =
     run_bind (as_filename path) (\<lambda>path.
     run_bind (dlopen_from_binary ops lk env (lib_registry s) bs path flags caller) (\<lambda>(mg, r).
       let s = s\<lparr>lib_registry := mg\<rparr> in
       Done (case r of Inl e \<Rightarrow> (s, Some e) | Inr ol \<Rightarrow> (library_from s a ol, None))))"

definition library_name :: "('c, 'i, 'l, 'm, 'y) link_ops \<Rightarrow> ('l, 'm) opened_library \<Rightarrow> bytes run" where
  "library_name ops ol = run_bind (root_module ops ol) (\<lambda>m. Done (mod_name ops m))"

definition library_flags :: "('c, 'i, 'l, 'm, 'y) link_ops \<Rightarrow> ('c, 'l, 'm) manager \<Rightarrow> ('l, 'm) opened_library \<Rightarrow> open_flags" where
  "library_flags ops mg ol = (case flags_of ops mg (lease_id ops (lease ol)) of Some f \<Rightarrow> f | None \<Rightarrow> 0)"

definition library_get ::
  "('c, 'i, 'l, 'm, 'y) link_ops \<Rightarrow> ('l, 'm) opened_library \<Rightarrow> bytes \<Rightarrow> 'e open_error + 'y" where
  "library_get ops ol name =
     (case find_map (\<lambda>m. get_symbol ops m name) (scope ol) of
        Some y \<Rightarrow> Inr y
      | None \<Rightarrow> Inl (FindSymbolError (symbol_missing name)))"

text \<open>\<open>versioned\<close> is the lookup of a versioned symbol in one module.\<close>

definition library_get_version ::
  "('m \<Rightarrow> bytes \<Rightarrow> bytes \<Rightarrow> 'y option) \<Rightarrow> ('l, 'm) opened_library \<Rightarrow> bytes \<Rightarrow> bytes \<Rightarrow> 'e open_error + 'y" where
  "library_get_version versioned ol name version =
     (case find_map (\<lambda>m. versioned m name version) (scope ol) of
        Some y \<Rightarrow> Inr y
      | None \<Rightarrow> Inl (FindSymbolError (symbol_missing name)))"

section \<open>The lease is released once, with the last reference\<close>

datatype lib_event = Clone | Drop

fun library_run ::
  "('c, 'i, 'l, 'm, 'y) link_ops \<Rightarrow> nat \<Rightarrow> lib_event list \<Rightarrow> ('c, 'l, 'm) libraries \<Rightarrow> ('c, 'l, 'm) libraries run" where
  "library_run ops a [] s = Done s"
| "library_run ops a (Clone # es) s = library_run ops a es (library_clone s a)"
| "library_run ops a (Drop # es) s = run_bind (library_drop ops s a) (library_run ops a es)"

text \<open>The references that are left after the events, \<open>None\<close> if one of them uses a reference that is gone.\<close>

fun refs_left :: "nat \<Rightarrow> lib_event list \<Rightarrow> nat option" where
  "refs_left n [] = Some n"
| "refs_left n (Clone # es) = (if n = 0 then None else refs_left (n + 1) es)"
| "refs_left n (Drop # es) = (if n = 0 then None else refs_left (n - 1) es)"

lemma refs_left_none: "refs_left 0 es = Some k \<Longrightarrow> k = 0"
  by (cases es; cases "hd es") auto

lemma library_run_refs:
  assumes "lib_arcs s a = (if n = 0 then None else Some (n, ol))" "refs_left n es = Some k" "0 < k"
  shows "\<exists>s'. library_run ops a es s = Done s' \<and> lib_registry s' = lib_registry s \<and> lib_arcs s' a = Some (k, ol) \<and>
    (\<forall>b. b \<noteq> a \<longrightarrow> lib_arcs s' b = lib_arcs s b)"
  using assms
proof (induction n es arbitrary: s rule: refs_left.induct)
  case (1 n)
  then show ?case by simp
next
  case (2 n es)
  then show ?case using 2(1) [of "library_clone s a"] by (auto simp: library_clone_def split: if_splits)
next
  case (3 n es)
  have n: "n > 1"
  proof (rule ccontr)
    assume "\<not> n > 1"
    then have "refs_left 0 es = Some k" using 3(3) by (cases "n = 1") (auto split: if_splits)
    then show False using 3(4) refs_left_none by blast
  qed
  let ?s = "s\<lparr>lib_arcs := (lib_arcs s)(a \<mapsto> (n - 1, ol))\<rparr>"
  have "library_drop ops s a = Done ?s" using 3(2) n by (simp add: library_drop_def)
  then show ?case using 3(1) [of ?s] 3(3,4) n by (auto split: if_splits)
qed

text \<open>However a library object is cloned and its clones dropped, the registry is not touched while a reference is
  left, and the drop of the last one releases the lease of the library exactly once.\<close>

lemma library_released_once:
  assumes "lib_arcs s a = None" and "refs_left 1 es = Some 1"
    and "release ops (lib_registry s) (lease ol) = Done (mg, unloaded)"
  shows "\<exists>s1 s2. library_run ops a es (library_from s a ol) = Done s1 \<and> lib_registry s1 = lib_registry s \<and>
    library_drop ops s1 a = Done s2 \<and> lib_registry s2 = mg \<and> lib_arcs s2 = lib_arcs s"
proof -
  have arcs: "lib_arcs (library_from s a ol) a = (if (1 :: nat) = 0 then None else Some (1, ol))"
    by (simp add: library_from_def)
  obtain s1 where s1: "library_run ops a es (library_from s a ol) = Done s1" "lib_registry s1 = lib_registry s"
    "lib_arcs s1 a = Some (1, ol)" "\<forall>b. b \<noteq> a \<longrightarrow> lib_arcs s1 b = lib_arcs s b"
    using library_run_refs [OF arcs assms(2), of ops] by (auto simp: library_from_def)
  have "library_drop ops s1 a = Done (s1\<lparr>lib_registry := mg, lib_arcs := (lib_arcs s1)(a := None)\<rparr>)"
    using s1(2,3) assms(3) by (simp add: library_drop_def drop_lease_def lease_new_def)
  moreover have "(lib_arcs s1)(a := None) = lib_arcs s" using s1(4) assms(1) by (auto simp: fun_eq_iff)
  ultimately show ?thesis using s1(1,2) by auto
qed

lemma library_released_once_witness:
  "\<exists>s1 s2. library_run demo_ops 5 [Clone, Clone, Drop, Drop]
      (library_from \<lparr>lib_registry = demo_manager, lib_arcs = Map.empty\<rparr> 5 \<lparr>scope = [7], lease = 7\<rparr>) = Done s1 \<and>
    link_ctx (lib_registry s1) = [7] \<and> library_drop demo_ops s1 5 = Done s2 \<and> link_ctx (lib_registry s2) = []"
proof -
  have r: "release demo_ops (lib_registry \<lparr>lib_registry = demo_manager, lib_arcs = Map.empty\<rparr>) (lease \<lparr>scope = [7], lease = 7\<rparr>) =
      Done (demo_manager\<lparr>link_ctx := [], subs := 1\<rparr>, [7])"
    by (simp add: release_def demo_ops_def demo_manager_def)
  have "refs_left 1 [Clone, Clone, Drop, Drop] = Some 1" by simp
  from library_released_once [OF _ this r, of 5] show ?thesis by (auto simp: demo_manager_def)
qed

end
