(* ===== verification/Cli.thy ===== *)
theory Cli
  imports Stack Memory
begin

text \<open>
  The command line of the interpreter when it is started directly
  (\<open>src/rtld/impl/src/cli.rs\<close>): the argument parser, the inspection of an ELF file behind \<open>--verify\<close>
  and \<open>--list\<close>, and the formatting helpers.  Argument strings are read from the byte memory, the argument
  vector from the word store of the initial stack.  The file system is an argument: opening a path gives
  its \<open>pread\<close>, from length and offset to the bytes read or an error.  \<open>None\<close> is a scan that does not
  return because a string has no terminator.  Arithmetic on file offsets wraps, as in a release build.
\<close>

section \<open>Strings\<close>

fun cstr_eq_from :: "mem \<Rightarrow> usize \<Rightarrow> bytes \<Rightarrow> bool" where
  "cstr_eq_from m p [] \<longleftrightarrow> m p = 0"
| "cstr_eq_from m p (b # bs) \<longleftrightarrow> (if m p \<noteq> b then False else cstr_eq_from m (p + 1) bs)"

definition cstr_eq :: "mem \<Rightarrow> usize \<Rightarrow> bytes \<Rightarrow> bool" where
  "cstr_eq m p expected \<longleftrightarrow> (if p = 0 then False else cstr_eq_from m p expected)"

definition starts_with_dash :: "mem \<Rightarrow> usize \<Rightarrow> bool" where
  "starts_with_dash m p \<longleftrightarrow> p \<noteq> 0 \<and> m p = 45"

partial_function (option) cstr_len_loop :: "mem \<Rightarrow> usize \<Rightarrow> usize \<Rightarrow> usize option" where
  "cstr_len_loop m p len = (if m (p + len) \<noteq> 0 then cstr_len_loop m p (len + 1) else Some len)"

definition cstr_len :: "mem \<Rightarrow> usize \<Rightarrow> usize option" where
  "cstr_len m p = cstr_len_loop m p 0"

text \<open>The bytes that \<open>write_cstr\<close> prints.\<close>

definition cstr_bytes :: "mem \<Rightarrow> usize \<Rightarrow> bytes option" where
  "cstr_bytes m p =
     (if p = 0 then Some []
      else map_option (\<lambda>len. map (\<lambda>i. m (p + of_nat i)) [0..<unat len]) (cstr_len m p))"

text \<open>Every round of the loop moves the index of the 20-byte buffer down by one; below 0 it would panic.\<close>

fun write_decimal_loop :: "usize \<Rightarrow> nat \<Rightarrow> bytes \<Rightarrow> (nat \<times> bytes) run" where
  "write_decimal_loop v 0 buf = (if v = 0 then Done (0, buf) else Panic)"
| "write_decimal_loop v (Suc index) buf =
     (if v = 0 then Done (Suc index, buf)
      else write_decimal_loop (v div 10) index (buf[index := 48 + ucast (v mod 10)]))"

definition write_decimal :: "usize \<Rightarrow> bytes run" where
  "write_decimal v =
     (if v = 0 then Done [48]
      else run_bind (write_decimal_loop v 20 (replicate 20 0)) (\<lambda>(index, buf). slice_from buf index))"

section \<open>Reading a file\<close>

type_synonym pread = "nat \<Rightarrow> usize \<Rightarrow> bytes option"

function pread_exact :: "pread \<Rightarrow> nat \<Rightarrow> usize \<Rightarrow> bytes option" where
  "pread_exact rd n offset =
     (if n = 0 then Some []
      else case rd n offset of
          None \<Rightarrow> None
        | Some bs \<Rightarrow>
            if length bs = 0 \<or> length bs > n then None
            else map_option (\<lambda>rest. bs @ rest) (pread_exact rd (n - length bs) (offset + of_nat (length bs))))"
  by pat_completeness auto
termination by (relation "measure (\<lambda>(rd, n, offset). n)") auto

declare pread_exact.simps [simp del]

definition read_u16 :: "bytes \<Rightarrow> nat \<Rightarrow> u16" where
  "read_u16 bs off = of_nat (le_nat (take 2 (drop off bs)))"

definition read_u32 :: "bytes \<Rightarrow> nat \<Rightarrow> u32" where
  "read_u32 bs off = of_nat (le_nat (take 4 (drop off bs)))"

definition read_u64 :: "bytes \<Rightarrow> nat \<Rightarrow> u64" where
  "read_u64 bs off = of_nat (le_nat (take 8 (drop off bs)))"

definition read_i64 :: "bytes \<Rightarrow> nat \<Rightarrow> int" where
  "read_i64 bs off = sint (read_u64 bs off)"

section \<open>Inspection\<close>

definition ELFCLASS64 :: u8 where "ELFCLASS64 = 2"
definition ELFDATA2LSB :: u8 where "ELFDATA2LSB = 1"
definition ET_EXEC :: u16 where "ET_EXEC = 2"
definition ET_DYN :: u16 where "ET_DYN = 3"
definition EM_X86_64 :: u16 where "EM_X86_64 = 62"
definition MAX_PHDRS :: usize where "MAX_PHDRS = 256"
definition MAX_LOADS :: nat where "MAX_LOADS = 16"
definition MAX_NEEDED :: nat where "MAX_NEEDED = 64"
definition MAX_DYN :: usize where "MAX_DYN = 4096"

text \<open>Constants of the ELF format: the program types \<open>LOAD\<close> and \<open>DYNAMIC\<close> and the dynamic tags
  \<open>NULL\<close>, \<open>NEEDED\<close>, \<open>STRTAB\<close> and \<open>STRSZ\<close>.\<close>

definition PT_LOAD_NUM :: u32 where "PT_LOAD_NUM = 1"
definition PT_DYNAMIC_NUM :: u32 where "PT_DYNAMIC_NUM = 2"
definition DT_NULL_NUM :: int where "DT_NULL_NUM = 0"
definition DT_NEEDED_NUM :: int where "DT_NEEDED_NUM = 1"
definition DT_STRTAB_NUM :: int where "DT_STRTAB_NUM = 5"
definition DT_STRSZ_NUM :: int where "DT_STRSZ_NUM = 10"

record load_segment =
  seg_vaddr :: usize
  seg_offset :: usize
  seg_filesz :: usize

text \<open>The arrays with their lengths are lists.\<close>

record elf_info =
  needed :: "usize list"
  strtab_offset :: usize
  strtab_size :: usize

datatype inspect_error = Open | Read | NotElf | Unsupported | NotDynamic | BadDynamic

record phdr_scan =
  loads :: "load_segment list"
  dynamic_offset :: usize
  dynamic_size :: usize

definition phdr_step :: "bytes \<Rightarrow> phdr_scan \<Rightarrow> phdr_scan" where
  "phdr_step ph s =
     (let t = read_u32 ph 0 in
      if t = PT_LOAD_NUM \<and> length (loads s) < MAX_LOADS then
        s\<lparr>loads := loads s @ [\<lparr>seg_vaddr = read_u64 ph 16, seg_offset = read_u64 ph 8, seg_filesz = read_u64 ph 32\<rparr>]\<rparr>
      else if t = PT_DYNAMIC_NUM then s\<lparr>dynamic_offset := read_u64 ph 8, dynamic_size := read_u64 ph 32\<rparr>
      else s)"

fun scan_phdrs :: "(nat \<Rightarrow> usize \<Rightarrow> bytes option) \<Rightarrow> usize \<Rightarrow> usize \<Rightarrow> nat list \<Rightarrow> phdr_scan \<Rightarrow> phdr_scan option" where
  "scan_phdrs rd phoff phentsize [] s = Some s"
| "scan_phdrs rd phoff phentsize (i # is) s =
     (case rd 56 (phoff + of_nat i * phentsize) of
        None \<Rightarrow> None
      | Some ph \<Rightarrow> scan_phdrs rd phoff phentsize is (phdr_step ph s))"

record dyn_scan =
  dyn_needed :: "usize list"
  strtab_vaddr :: usize
  dyn_strsz :: usize

definition dyn_step :: "int \<Rightarrow> usize \<Rightarrow> dyn_scan \<Rightarrow> dyn_scan" where
  "dyn_step tag v s =
     (if tag = DT_NEEDED_NUM \<and> length (dyn_needed s) < MAX_NEEDED then s\<lparr>dyn_needed := dyn_needed s @ [v]\<rparr>
      else if tag = DT_STRTAB_NUM then s\<lparr>strtab_vaddr := v\<rparr>
      else if tag = DT_STRSZ_NUM then s\<lparr>dyn_strsz := v\<rparr>
      else s)"

fun scan_dynamic :: "(nat \<Rightarrow> usize \<Rightarrow> bytes option) \<Rightarrow> usize \<Rightarrow> nat list \<Rightarrow> dyn_scan \<Rightarrow> dyn_scan option" where
  "scan_dynamic rd off [] s = Some s"
| "scan_dynamic rd off (i # is) s =
     (case rd 16 (off + of_nat i * 16) of
        None \<Rightarrow> None
      | Some e \<Rightarrow>
          (let tag = read_i64 e 0; v = read_u64 e 8
           in if tag = DT_NULL_NUM then Some s else scan_dynamic rd off is (dyn_step tag v s)))"

fun vaddr_to_offset :: "usize \<Rightarrow> load_segment list \<Rightarrow> usize option" where
  "vaddr_to_offset vaddr [] = None"
| "vaddr_to_offset vaddr (s # ss) =
     (if seg_vaddr s \<le> vaddr \<and> vaddr - seg_vaddr s < seg_filesz s
      then Some (seg_offset s + (vaddr - seg_vaddr s))
      else vaddr_to_offset vaddr ss)"

definition header_ok :: "bytes \<Rightarrow> inspect_error option" where
  "header_ok ehdr =
     (if take 4 ehdr \<noteq> [0x7f, 69, 76, 70] then Some NotElf
      else if ehdr ! 4 \<noteq> ELFCLASS64 \<or> ehdr ! 5 \<noteq> ELFDATA2LSB then Some Unsupported
      else if (read_u16 ehdr 16 \<noteq> ET_EXEC \<and> read_u16 ehdr 16 \<noteq> ET_DYN) \<or> read_u16 ehdr 18 \<noteq> EM_X86_64
        then Some Unsupported
      else if (ucast (read_u16 ehdr 54) :: usize) < 56 \<or> (ucast (read_u16 ehdr 56) :: usize) = 0 \<or>
          (ucast (read_u16 ehdr 56) :: usize) > MAX_PHDRS then Some Unsupported
      else None)"

definition inspect_fd :: "pread \<Rightarrow> inspect_error + elf_info" where
  "inspect_fd pread =
     (let rd = pread_exact pread in
      case rd 64 0 of
        None \<Rightarrow> Inl Read
      | Some ehdr \<Rightarrow>
          (case header_ok ehdr of
             Some e \<Rightarrow> Inl e
           | None \<Rightarrow>
               (case scan_phdrs rd (read_u64 ehdr 32) (ucast (read_u16 ehdr 54))
                       [0..<unat (read_u16 ehdr 56)] \<lparr>loads = [], dynamic_offset = 0, dynamic_size = 0\<rparr> of
                  None \<Rightarrow> Inl Read
                | Some ps \<Rightarrow>
                    if dynamic_offset ps = 0 \<or> dynamic_size ps = 0 then Inl NotDynamic
                    else (case scan_dynamic rd (dynamic_offset ps) [0..<unat (min (dynamic_size ps div 16) MAX_DYN)]
                                \<lparr>dyn_needed = [], strtab_vaddr = 0, dyn_strsz = 0\<rparr> of
                        None \<Rightarrow> Inl Read
                      | Some ds \<Rightarrow>
                          if strtab_vaddr ds = 0 \<or> dyn_strsz ds = 0 then Inl BadDynamic
                          else (case vaddr_to_offset (strtab_vaddr ds) (loads ps) of
                              None \<Rightarrow> Inl BadDynamic
                            | Some off \<Rightarrow>
                                Inr \<lparr>needed = dyn_needed ds, strtab_offset = off, strtab_size = dyn_strsz ds\<rparr>)))))"

section \<open>Output\<close>

text \<open>What is written, as file descriptor and bytes.\<close>

type_synonym writes = "(nat \<times> bytes) list"

definition write_stdout :: "bytes \<Rightarrow> writes" where "write_stdout bs = [(1, bs)]"
definition write_stderr :: "bytes \<Rightarrow> writes" where "write_stderr bs = [(2, bs)]"

definition newline :: bytes where "newline = [10]"
definition tab :: bytes where "tab = [9]"

function print_string_from_file :: "pread \<Rightarrow> usize \<Rightarrow> usize \<Rightarrow> bytes" where
  "print_string_from_file rd cursor end =
     (if cursor < end then
        case pread_exact rd 1 cursor of
          None \<Rightarrow> []
        | Some byte \<Rightarrow> if byte ! 0 = 0 then [] else byte ! 0 # print_string_from_file rd (cursor + 1) end
      else [])"
  by pat_completeness auto
termination
  by (relation "measure (\<lambda>(rd, cursor, end). unat end - unat cursor)")
    (auto simp: rust_arith word_less_nat_alt)

declare print_string_from_file.simps [simp del]

fun inspect_message :: "inspect_error \<Rightarrow> bytes" where
  "inspect_message Open = ascii ''cannot open file'' @ newline"
| "inspect_message Read = ascii ''cannot read ELF metadata'' @ newline"
| "inspect_message NotElf = ascii ''not an ELF object'' @ newline"
| "inspect_message Unsupported = ascii ''unsupported ELF object'' @ newline"
| "inspect_message NotDynamic = ascii ''not a dynamically linked object'' @ newline"
| "inspect_message BadDynamic = ascii ''invalid dynamic section'' @ newline"

definition print_inspect_error :: "mem \<Rightarrow> usize \<Rightarrow> inspect_error \<Rightarrow> writes option" where
  "print_inspect_error m path e =
     map_option (\<lambda>name. write_stderr (ascii ''rtld: '') @ write_stderr name @ write_stderr (ascii '': '') @
       write_stderr (inspect_message e)) (cstr_bytes m path)"

type_synonym files = "usize \<Rightarrow> pread option"

definition inspect :: "files \<Rightarrow> usize \<Rightarrow> inspect_error + elf_info" where
  "inspect fs path = (case fs path of None \<Rightarrow> Inl Open | Some rd \<Rightarrow> inspect_fd rd)"

definition verify :: "files \<Rightarrow> mem \<Rightarrow> usize \<Rightarrow> (writes \<times> bool) option" where
  "verify fs m path =
     (case inspect fs path of
        Inr _ \<Rightarrow> Some ([], True)
      | Inl e \<Rightarrow> map_option (\<lambda>w. (w, False)) (print_inspect_error m path e))"

definition list_line :: "pread \<Rightarrow> elf_info \<Rightarrow> usize \<Rightarrow> writes" where
  "list_line rd info name =
     (let off = strtab_offset info + name
      in write_stdout tab @ write_stdout (print_string_from_file rd off (off + strtab_size info)) @
         write_stdout (ascii '' => not resolved by stage-0 rtld CLI'' @ newline))"

definition list_needed :: "files \<Rightarrow> mem \<Rightarrow> usize \<Rightarrow> (writes \<times> bool) option" where
  "list_needed fs m path =
     (case inspect fs path of
        Inl e \<Rightarrow> map_option (\<lambda>w. (w, False)) (print_inspect_error m path e)
      | Inr info \<Rightarrow>
          (case fs path of
             None \<Rightarrow> map_option (\<lambda>w. (w, False)) (print_inspect_error m path Open)
           | Some rd \<Rightarrow>
               Some (concat (map (list_line rd info) (needed info)) @
                 write_stdout (tab @ ascii ''ld-linux-x86-64.so.2 => self'' @ newline), True)))"

section \<open>Arguments\<close>

datatype outcome = Exit writes int | Run direct_program

definition help_lines :: "string list" where
  "help_lines =
     ['' [OPTION]... EXECUTABLE-FILE [ARGS-FOR-PROGRAM...]'',
      ''Rust replacement program interpreter for dynamically linked ELF programs.'', [],
      ''  --list                list direct DT_NEEDED dependencies'',
      ''  --verify              verify that FILE is a dynamic ELF object this rtld can inspect'',
      ''  --inhibit-cache       accepted for glibc ld.so command-line compatibility'',
      ''  --library-path PATH   accepted for compatibility; full search override is pending'',
      ''  --preload LIST        accepted for compatibility; preload loading is pending'',
      ''  --audit LIST          accepted for compatibility; auditing is pending'',
      ''  --argv0 STRING        accepted for compatibility; direct execution is pending'',
      ''  --glibc-hwcaps-prepend LIST'',
      ''                        accepted for command-line compatibility'',
      ''  --glibc-hwcaps-mask LIST'',
      ''                        accepted for command-line compatibility'',
      ''  --inhibit-rpath LIST  accepted for command-line compatibility'',
      ''  --list-tunables       list supported rtld tunables'',
      ''  --list-diagnostics    list rtld diagnostics'',
      ''  --help                display this help and exit'',
      ''  --version             output version information and exit'', [],
      ''This program interpreter self-identifies as: ld-linux-x86-64.so.2'']"

definition print_help :: "mem \<Rightarrow> usize \<Rightarrow> writes option" where
  "print_help m program =
     map_option (\<lambda>name. write_stdout (ascii ''Usage: '') @ write_stdout name @
       write_stdout (concat (map (\<lambda>l. ascii l @ newline) help_lines))) (cstr_bytes m program)"

definition print_version :: writes where
  "print_version = write_stdout (ascii ''dlopen-rs rtld 0.1.0'' @ newline) @
     write_stdout (ascii ''Command-line compatible subset of glibc ld.so for x86_64 Linux.'' @ newline)"

definition print_diagnostics :: "usize \<Rightarrow> writes run" where
  "print_diagnostics ac =
     run_bind (write_decimal ac) (\<lambda>ds. Done
       (write_stdout (ascii ''dlopen.rtld.name='' @ [34] @ ascii ''ld-linux-x86-64.so.2'' @ [34] @ newline) @
        write_stdout (ascii ''dlopen.rtld.version='' @ [34] @ ascii ''0.1.0'' @ [34] @ newline) @
        write_stdout (ascii ''dlopen.rtld.target='' @ [34] @ ascii ''x86_64-unknown-linux-gnu'' @ [34] @ newline) @
        write_stdout (ascii ''dlopen.rtld.argc='') @ write_stdout ds @ write_stdout newline))"

definition missing_option_value :: "mem \<Rightarrow> usize \<Rightarrow> outcome option" where
  "missing_option_value m arg =
     map_option (\<lambda>name. Exit (write_stderr (ascii ''rtld: option requires an argument: '') @ write_stderr name @
       write_stderr newline) 1) (cstr_bytes m arg)"

definition option_value :: "wmem \<Rightarrow> usize \<Rightarrow> usize \<Rightarrow> usize \<Rightarrow> usize option" where
  "option_value wm ac av index = (if ac \<le> index + 1 then None else Some (wm (av + 8 * (index + 1))))"

definition consumes_value :: "mem \<Rightarrow> usize \<Rightarrow> bool" where
  "consumes_value m arg \<longleftrightarrow>
     cstr_eq m arg (ascii ''--library-path'') \<or> cstr_eq m arg (ascii ''--preload'') \<or>
     cstr_eq m arg (ascii ''--audit'') \<or> cstr_eq m arg (ascii ''--glibc-hwcaps-prepend'') \<or>
     cstr_eq m arg (ascii ''--glibc-hwcaps-mask'') \<or> cstr_eq m arg (ascii ''--inhibit-rpath'')"

definition exit_help :: "mem \<Rightarrow> wmem \<Rightarrow> usize \<Rightarrow> outcome option" where
  "exit_help m wm av = map_option (\<lambda>w. Exit w 0) (print_help m (wm av))"

definition exit_with :: "(writes \<times> bool) option \<Rightarrow> outcome option" where
  "exit_with r = map_option (\<lambda>(w, ok). Exit w (if ok then 0 else 1)) r"

text \<open>One round of the loop: it ends the program or hands over (\<open>Inl\<close>), or goes on with a new index and
  \<open>argv0\<close> (\<open>Inr\<close>).  The value of an option that ends the program is read only by that option.\<close>

definition arg_step ::
  "files \<Rightarrow> mem \<Rightarrow> wmem \<Rightarrow> usize \<Rightarrow> usize \<Rightarrow> usize \<Rightarrow> usize \<Rightarrow> outcome option run + usize \<times> usize" where
  "arg_step fs m wm ac av index a0 =
     (let arg = wm (av + 8 * index); value = option_value wm ac av index;
          is = (\<lambda>s. cstr_eq m arg (ascii s))
      in if is ''--help'' then Inl (Done (exit_help m wm av))
         else if is ''--version'' then Inl (Done (Some (Exit print_version 0)))
         else if is ''--list-diagnostics'' then
           Inl (run_bind (print_diagnostics ac) (\<lambda>w. Done (Some (Exit w 0))))
         else if is ''--list-tunables'' then
           Inl (Done (Some (Exit (write_stdout (ascii ''dlopen.rtld.tunables: none'' @ newline)) 0)))
         else if is ''--verify'' then
           Inl (Done (case value of None \<Rightarrow> missing_option_value m arg | Some t \<Rightarrow> exit_with (verify fs m t)))
         else if is ''--list'' then
           Inl (Done (case value of None \<Rightarrow> missing_option_value m arg | Some t \<Rightarrow> exit_with (list_needed fs m t)))
         else if is ''--argv0'' then
           (case value of None \<Rightarrow> Inl (Done (missing_option_value m arg)) | Some v \<Rightarrow> Inr (index + 2, v))
         else if consumes_value m arg then
           (case value of None \<Rightarrow> Inl (Done (missing_option_value m arg)) | Some _ \<Rightarrow> Inr (index + 2, a0))
         else if is ''--inhibit-cache'' then Inr (index + 1, a0)
         else if starts_with_dash m arg then
           Inl (Done (map_option (\<lambda>name. Exit (write_stderr (ascii ''rtld: unrecognized option: '') @
             write_stderr name @ write_stderr (newline @ ascii ''Try '' @ [39] @ ascii ''--help'' @ [39] @
               ascii '' for more information.'' @ newline)) 1) (cstr_bytes m arg)))
         else Inl (Done (Some (Run \<lparr>argv_index = index, argv0 = a0\<rparr>))))"

lemma option_value_room:
  assumes "index < ac" "option_value wm ac av index = Some v"
  shows "unat (index + 2) = unat index + 2" "unat index + 2 \<le> unat ac"
proof -
  have "index + 1 < ac" using assms(2) by (auto simp: option_value_def split: if_splits)
  then have "unat (index + 1 + 1) = unat (index + 1) + 1" "unat (index + 1) < unat ac"
    by (simp_all only: unat_succ_less word_less_nat_alt Suc_eq_plus1)
  moreover have "unat (index + 1) = unat index + 1" using unat_succ_less [OF assms(1)] by simp
  ultimately show "unat (index + 2) = unat index + 2" "unat index + 2 \<le> unat ac"
    by (simp_all add: add.assoc)
qed

lemma arg_step_progress:
  assumes "index < ac" "arg_step fs m wm ac av index a0 = Inr (index', a0')"
  shows "unat index < unat index'"
  using assms option_value_room [OF assms(1)] unat_succ_less [OF assms(1)]
  by (auto simp: arg_step_def Let_def split: if_splits option.splits)

function parse_args ::
  "files \<Rightarrow> mem \<Rightarrow> wmem \<Rightarrow> usize \<Rightarrow> usize \<Rightarrow> usize \<Rightarrow> usize \<Rightarrow> outcome option run" where
  "parse_args fs m wm ac av index a0 =
     (if index < ac then
        case arg_step fs m wm ac av index a0 of
          Inl r \<Rightarrow> r
        | Inr (index', a0') \<Rightarrow> parse_args fs m wm ac av index' a0'
      else Done (exit_help m wm av))"
  by pat_completeness auto
termination
  by (relation "measure (\<lambda>(fs, m, wm, ac, av, index, a0). unat ac - unat index)")
    (auto simp: word_less_nat_alt intro!: diff_less_mono2 dest: arg_step_progress [unfolded word_less_nat_alt])

declare parse_args.simps [simp del]

definition handle_direct_invocation :: "files \<Rightarrow> mem \<Rightarrow> wmem \<Rightarrow> usize \<Rightarrow> usize \<Rightarrow> outcome option run" where
  "handle_direct_invocation fs m wm ac av =
     (if ac \<le> 1 then Done (exit_help m wm av) else parse_args fs m wm ac av 1 0)"

section \<open>Reading and inspecting\<close>

text \<open>The contract of \<open>pread64\<close> on a regular file: it returns a prefix of what follows the offset, possibly
  shorter than asked for, and empty only at the end of the file.\<close>

definition reads_file :: "bytes \<Rightarrow> pread \<Rightarrow> bool" where
  "reads_file data rd \<longleftrightarrow> (\<forall>n off. 0 < n \<longrightarrow>
     (\<exists>k \<le> n. rd n off = Some (take k (drop (unat off) data)) \<and> (unat off < length data \<longrightarrow> 0 < k)))"

lemma pread_exact_reads:
  assumes "reads_file data rd" "length data < 2 ^ 64" "0 < n"
  shows "pread_exact rd n off =
    (if unat off + n \<le> length data then Some (take n (drop (unat off) data)) else None)"
  using assms
proof (induction rd n off rule: pread_exact.induct)
  case (1 rd n off)
  obtain k where k: "k \<le> n" "rd n off = Some (take k (drop (unat off) data))" "unat off < length data \<longrightarrow> 0 < k"
    using 1(2,4) unfolding reads_file_def by blast
  let ?bs = "take k (drop (unat off) data)"
  show ?case
  proof (cases "unat off < length data")
    case False
    then show ?thesis using k 1(4) by (simp add: pread_exact.simps [of rd n off])
  next
    case True
    have l: "0 < length ?bs" "length ?bs \<le> n" using True k by auto
    have step: "pread_exact rd n off =
        map_option (\<lambda>rest. ?bs @ rest) (pread_exact rd (n - length ?bs) (off + of_nat (length ?bs)))"
      using 1(4) k(2) l by (subst pread_exact.simps) auto
    have off: "unat (off + of_nat (length ?bs)) = unat off + length ?bs"
    proof -
      have "unat off + length ?bs \<le> length data" using True by auto
      then have "unat off + length ?bs < 2 ^ 64" using 1(3) by linarith
      then show ?thesis by (simp add: unat_word_ariths unat_of_nat_usize)
    qed
    have split: "take n (drop (unat off) data) = ?bs @ take (n - length ?bs) (drop (unat off + length ?bs) data)"
      if "unat off + n \<le> length data"
    proof -
      have "length ?bs = k" using that k(1) by simp
      then show ?thesis using take_add [of k "n - k" "drop (unat off) data"] k(1) by (simp add: add.commute)
    qed
    show ?thesis
    proof (cases "n = length ?bs")
      case True
      then show ?thesis using step split l by (auto simp: pread_exact.simps [of rd 0])
    next
      case False
      then have "pread_exact rd (n - length ?bs) (off + of_nat (length ?bs)) =
          (if unat off + n \<le> length data then Some (take (n - length ?bs) (drop (unat off + length ?bs) data)) else None)"
      proof -
        have c: "n \<noteq> 0" "\<not> (length ?bs = 0 \<or> n < length ?bs)" "0 < n - length ?bs"
          using l False 1(4) by linarith+
        have e: "unat off + length ?bs + (n - length ?bs) = unat off + n" using l(2) by linarith
        show ?thesis using 1(1) [OF c(1) k(2) c(2) 1(2,3) c(3)] unfolding off e .
      qed
      then show ?thesis using step split by auto
    qed
  qed
qed

lemma pread_exact_same:
  assumes "reads_file data rd" "reads_file data rd'" "length data < 2 ^ 64"
  shows "pread_exact rd = pread_exact rd'"
proof (intro ext)
  fix n off
  show "pread_exact rd n off = pread_exact rd' n off"
    using pread_exact_reads [OF assms(1,3), of n off] pread_exact_reads [OF assms(2,3), of n off]
    by (cases n) (simp_all add: pread_exact.simps [of _ 0])
qed

definition file_at :: "bytes \<Rightarrow> nat \<Rightarrow> usize \<Rightarrow> bytes" where
  "file_at data n off = take n (drop (unat off) data)"

lemma pread_exact_file_at:
  assumes "reads_file data rd" "length data < 2 ^ 64" "pread_exact rd n off = Some bs"
  shows "bs = file_at data n off"
  using pread_exact_reads [OF assms(1,2), of n off] assms(3)
  by (cases n) (auto simp: file_at_def pread_exact.simps [of _ 0] split: if_splits)

lemma scan_phdrs_Some:
  assumes "\<And>n off bs. rd n off = Some bs \<Longrightarrow> bs = file_at data n off"
  shows "scan_phdrs rd phoff sz is s = Some s' \<Longrightarrow>
    s' = fold phdr_step (map (\<lambda>i. file_at data 56 (phoff + of_nat i * sz)) is) s"
  by (induction "is" arbitrary: s) (auto split: option.splits dest: assms)

definition dyn_entry :: "bytes \<Rightarrow> usize \<Rightarrow> int \<times> usize" where
  "dyn_entry data off = (read_i64 (file_at data 16 off) 0, read_u64 (file_at data 16 off) 8)"

lemma scan_dynamic_Some:
  assumes "\<And>n off bs. rd n off = Some bs \<Longrightarrow> bs = file_at data n off"
  shows "scan_dynamic rd off is s = Some s' \<Longrightarrow>
    s' = fold (\<lambda>(t, v). dyn_step t v)
      (takeWhile (\<lambda>e. fst e \<noteq> DT_NULL_NUM) (map (\<lambda>i. dyn_entry data (off + of_nat i * 16)) is)) s"
  by (induction "is" arbitrary: s) (auto simp: Let_def dyn_entry_def split: option.splits if_splits dest: assms)

definition phdr_segment :: "bytes \<Rightarrow> load_segment" where
  "phdr_segment ph = \<lparr>seg_vaddr = read_u64 ph 16, seg_offset = read_u64 ph 8, seg_filesz = read_u64 ph 32\<rparr>"

lemma fold_phdr_step_loads:
  "length (loads s) \<le> MAX_LOADS \<Longrightarrow>
     loads (fold phdr_step phs s) =
       take MAX_LOADS (loads s @ map phdr_segment (filter (\<lambda>ph. read_u32 ph 0 = PT_LOAD_NUM) phs))"
proof (induction phs arbitrary: s)
  case Nil
  then show ?case by simp
next
  case (Cons ph phs)
  have "length (loads (phdr_step ph s)) \<le> MAX_LOADS" using Cons.prems by (simp add: phdr_step_def Let_def)
  moreover have "take MAX_LOADS (loads (phdr_step ph s) @ map phdr_segment (filter (\<lambda>ph. read_u32 ph 0 = PT_LOAD_NUM) phs)) =
      take MAX_LOADS (loads s @ map phdr_segment (filter (\<lambda>ph. read_u32 ph 0 = PT_LOAD_NUM) (ph # phs)))"
    using Cons.prems by (auto simp: phdr_step_def phdr_segment_def Let_def take_Cons')
  ultimately show ?case using Cons.IH by simp
qed

lemma fold_dyn_step_needed:
  "length (dyn_needed s) \<le> MAX_NEEDED \<Longrightarrow>
     dyn_needed (fold (\<lambda>(t, v). dyn_step t v) es s) =
       take MAX_NEEDED (dyn_needed s @ map snd (filter (\<lambda>e. fst e = DT_NEEDED_NUM) es))"
proof (induction es arbitrary: s)
  case Nil
  then show ?case by simp
next
  case (Cons e es)
  obtain t v where e: "e = (t, v)" by force
  have "length (dyn_needed (dyn_step t v s)) \<le> MAX_NEEDED" using Cons.prems by (simp add: dyn_step_def)
  moreover have "take MAX_NEEDED (dyn_needed (dyn_step t v s) @ map snd (filter (\<lambda>e. fst e = DT_NEEDED_NUM) es)) =
      take MAX_NEEDED (dyn_needed s @ map snd (filter (\<lambda>e. fst e = DT_NEEDED_NUM) (e # es)))"
    using Cons.prems by (auto simp: take_Cons' dyn_step_def e DT_NEEDED_NUM_def DT_STRTAB_NUM_def DT_STRSZ_NUM_def)
  ultimately show ?case using Cons.IH e by simp
qed

lemma vaddr_to_offset_Some:
  "vaddr_to_offset v ss = Some off \<Longrightarrow>
     \<exists>s \<in> set ss. seg_vaddr s \<le> v \<and> v - seg_vaddr s < seg_filesz s \<and> off = seg_offset s + (v - seg_vaddr s)"
  by (induction ss) (auto split: if_splits)

lemma fold_dyn_step_last:
  "strtab_vaddr (fold (\<lambda>(t, v). dyn_step t v) es s) =
     (case map_of (rev es) DT_STRTAB_NUM of None \<Rightarrow> strtab_vaddr s | Some v \<Rightarrow> v)"
  "dyn_strsz (fold (\<lambda>(t, v). dyn_step t v) es s) =
     (case map_of (rev es) DT_STRSZ_NUM of None \<Rightarrow> dyn_strsz s | Some v \<Rightarrow> v)"
  by (induction es rule: rev_induct)
    (auto simp: dyn_step_def DT_NEEDED_NUM_def DT_STRTAB_NUM_def DT_STRSZ_NUM_def)

text \<open>What the file says: its program headers, and the entries of the dynamic section up to \<open>DT_NULL\<close>.\<close>

definition file_phdrs :: "bytes \<Rightarrow> bytes list" where
  "file_phdrs data = (let ehdr = file_at data 64 0 in
     map (\<lambda>i. file_at data 56 (read_u64 ehdr 32 + of_nat i * ucast (read_u16 ehdr 54)))
       [0..<unat (read_u16 ehdr 56)])"

definition file_loads :: "bytes \<Rightarrow> load_segment list" where
  "file_loads data = map phdr_segment (filter (\<lambda>ph. read_u32 ph 0 = PT_LOAD_NUM) (file_phdrs data))"

definition file_scan :: "bytes \<Rightarrow> phdr_scan" where
  "file_scan data = fold phdr_step (file_phdrs data) \<lparr>loads = [], dynamic_offset = 0, dynamic_size = 0\<rparr>"

definition file_dynamic :: "bytes \<Rightarrow> (int \<times> usize) list" where
  "file_dynamic data = takeWhile (\<lambda>e. fst e \<noteq> DT_NULL_NUM)
     (map (\<lambda>i. dyn_entry data (dynamic_offset (file_scan data) + of_nat i * 16))
       [0..<unat (min (dynamic_size (file_scan data) div 16) MAX_DYN)])"

definition dyn_last :: "(int \<times> usize) list \<Rightarrow> int \<Rightarrow> usize" where
  "dyn_last es tag = (case map_of (rev es) tag of None \<Rightarrow> 0 | Some v \<Rightarrow> v)"


section \<open>Decimal output\<close>

fun dec_value :: "bytes \<Rightarrow> nat" where
  "dec_value [] = 0"
| "dec_value (b # bs) = (unat b - 48) * 10 ^ length bs + dec_value bs"

lemma dec_value_append: "dec_value (xs @ ys) = dec_value xs * 10 ^ length ys + dec_value ys"
  by (induction xs) (simp_all add: algebra_simps power_add)

definition digit :: "u8 \<Rightarrow> bool" where "digit b \<longleftrightarrow> 48 \<le> b \<and> b \<le> 57"

lemma decimal_digit:
  fixes v :: usize
  shows "unat (48 + ucast (v mod 10) :: u8) = 48 + unat v mod 10" "digit (48 + ucast (v mod 10))"
proof -
  have lt: "unat v mod 10 < 10" by simp
  have "unat (ucast (v mod 10) :: u8) = unat v mod 10 mod 256"
    by (simp add: unsigned_ucast_eq take_bit_eq_mod unat_mod)
  then have "unat (ucast (v mod 10) :: u8) = unat v mod 10" using lt by simp
  then show "unat (48 + ucast (v mod 10) :: u8) = 48 + unat v mod 10" using lt by (simp add: unat_word_ariths)
  with lt show "digit (48 + ucast (v mod 10))" by (simp add: digit_def word_le_nat_alt)
qed

lemma write_decimal_loop_digits:
  assumes "unat v < 10 ^ index" "index \<le> length buf"
  shows "\<exists>i buf' ds. write_decimal_loop v index buf = Done (i, buf') \<and> i \<le> length buf' \<and>
    drop i buf' = ds @ drop index buf \<and> dec_value ds = unat v \<and> list_all digit ds \<and>
    (if v = 0 then ds = [] else ds \<noteq> [] \<and> hd ds \<noteq> 48)"
  using assms
proof (induction index arbitrary: v buf)
  case 0
  then have "v = 0" by (simp add: unat_eq_0)
  then show ?case by (intro exI [of _ 0] exI [of _ buf] exI [of _ "[]"]) simp
next
  case (Suc n)
  show ?case
  proof (cases "v = 0")
    case True
    then show ?thesis using Suc.prems(2)
      by (intro exI [of _ "Suc n"] exI [of _ buf] exI [of _ "[]"]) simp
  next
    case False
    let ?d = "48 + ucast (v mod 10) :: u8"
    have "unat (v div 10) < 10 ^ n" using Suc.prems(1) by (simp add: unat_div div_less_iff_less_mult mult.commute)
    then obtain i buf' ds where r: "write_decimal_loop (v div 10) n (buf[n := ?d]) = Done (i, buf')" "i \<le> length buf'"
      "drop i buf' = ds @ drop n (buf[n := ?d])" "dec_value ds = unat (v div 10)" "list_all digit ds"
      "if v div 10 = 0 then ds = [] else ds \<noteq> [] \<and> hd ds \<noteq> 48"
      using Suc.IH [of "v div 10" "buf[n := ?d]"] Suc.prems(2) by auto
    have tail: "drop n (buf[n := ?d]) = ?d # drop (Suc n) buf"
      using Suc.prems(2) by (simp add: drop_update_swap Cons_nth_drop_Suc [symmetric])
    have "dec_value (ds @ [?d]) = unat v" by (simp add: dec_value_append r(4) decimal_digit unat_div)
    moreover have "ds @ [?d] \<noteq> [] \<and> hd (ds @ [?d]) \<noteq> 48"
    proof (cases "v div 10 = 0")
      case True
      then have "unat (v div 10) = 0" by simp
      then have "unat v mod 10 \<noteq> 0" using False by (simp add: unat_div unat_eq_0)
      then have "unat ?d \<noteq> unat (48 :: u8)" by (simp add: decimal_digit)
      then have "?d \<noteq> 48" by metis
      with True r(6) show ?thesis by simp
    next
      case False
      then show ?thesis using r(6) by simp
    qed
    ultimately show ?thesis
      using r tail False decimal_digit(2) [of v]
      by (intro exI [of _ i] exI [of _ buf'] exI [of _ "ds @ [?d]"]) simp
  qed
qed

text \<open>The decimal formatting never runs out of its 20-byte buffer, and what it prints are the decimal digits
  of the number, without leading zeros.\<close>

lemma write_decimal_digits:
  "\<exists>ds. write_decimal v = Done ds \<and> ds \<noteq> [] \<and> list_all digit ds \<and> dec_value ds = unat v \<and>
     (hd ds = 48 \<longleftrightarrow> v = 0)"
proof (cases "v = 0")
  case True
  then show ?thesis by (simp add: write_decimal_def digit_def)
next
  case False
  have "unat v < 10 ^ 20" using unat_usize_bound [of v] by simp
  then obtain i buf' ds where "write_decimal_loop v 20 (replicate 20 0) = Done (i, buf')" "i \<le> length buf'"
    "drop i buf' = ds" "dec_value ds = unat v" "list_all digit ds" "ds \<noteq> [] \<and> hd ds \<noteq> 48"
    using write_decimal_loop_digits [of v 20 "replicate 20 0"] False by auto
  with False show ?thesis by (auto simp: write_decimal_def slice_from_def)
qed

section \<open>Options\<close>

text \<open>A terminated string at an address.\<close>

fun cstr_from :: "mem \<Rightarrow> usize \<Rightarrow> bytes \<Rightarrow> bool" where
  "cstr_from m p [] \<longleftrightarrow> m p = 0"
| "cstr_from m p (b # bs) \<longleftrightarrow> m p = b \<and> b \<noteq> 0 \<and> cstr_from m (p + 1) bs"

definition cstr_at :: "mem \<Rightarrow> usize \<Rightarrow> bytes \<Rightarrow> bool" where
  "cstr_at m p s \<longleftrightarrow> p \<noteq> 0 \<and> cstr_from m p s"

lemma cstr_eq_from_iff: "cstr_from m p s \<Longrightarrow> 0 \<notin> set e \<Longrightarrow> cstr_eq_from m p e \<longleftrightarrow> s = e"
proof (induction e arbitrary: s p)
  case Nil
  then show ?case by (cases s) auto
next
  case (Cons b e)
  then show ?case by (cases s) auto
qed

lemma cstr_eq_iff: "cstr_at m p s \<Longrightarrow> 0 \<notin> set e \<Longrightarrow> cstr_eq m p e \<longleftrightarrow> s = e"
  by (simp add: cstr_at_def cstr_eq_def cstr_eq_from_iff)

lemma starts_with_dash_iff: "cstr_at m p s \<Longrightarrow> starts_with_dash m p \<longleftrightarrow> s \<noteq> [] \<and> hd s = 45"
  by (cases s) (auto simp: cstr_at_def starts_with_dash_def)

datatype cli_option = Argv0 bytes | Valued string bytes | Inhibit_Cache

definition value_options :: "string list" where
  "value_options = [''--library-path'', ''--preload'', ''--audit'', ''--glibc-hwcaps-prepend'',
     ''--glibc-hwcaps-mask'', ''--inhibit-rpath'']"

fun option_ok :: "cli_option \<Rightarrow> bool" where
  "option_ok (Valued n v) \<longleftrightarrow> n \<in> set value_options"
| "option_ok _ \<longleftrightarrow> True"

fun option_words :: "cli_option \<Rightarrow> bytes list" where
  "option_words (Argv0 v) = [ascii ''--argv0'', v]"
| "option_words (Valued n v) = [ascii n, v]"
| "option_words Inhibit_Cache = [ascii ''--inhibit-cache'']"

text \<open>The pointer that the last \<open>--argv0\<close> leaves, for options starting at position \<open>i\<close> of the vector.\<close>

fun options_argv0 :: "usize list \<Rightarrow> nat \<Rightarrow> cli_option list \<Rightarrow> usize \<Rightarrow> usize" where
  "options_argv0 ps i [] a = a"
| "options_argv0 ps i (Argv0 v # os) a = options_argv0 ps (i + 2) os (ps ! (i + 1))"
| "options_argv0 ps i (Valued n v # os) a = options_argv0 ps (i + 2) os a"
| "options_argv0 ps i (Inhibit_Cache # os) a = options_argv0 ps (i + 1) os a"

text \<open>An argument vector at an address: pointers to the given strings.\<close>

definition args_at :: "mem \<Rightarrow> wmem \<Rightarrow> usize \<Rightarrow> usize list \<Rightarrow> bytes list \<Rightarrow> bool" where
  "args_at m wm av ps ss \<longleftrightarrow>
     words_at wm av ps \<and> list_all2 (cstr_at m) ps ss \<and> length ss < 2 ^ 61"

lemma args_at_nth:
  assumes "args_at m wm av ps ss" "i < length ss"
  shows "wm (av + 8 * of_nat i) = ps ! i" "cstr_at m (ps ! i) (ss ! i)" "unat (of_nat i :: usize) = i"
    "unat (of_nat (length ss) :: usize) = length ss"
  using assms by (auto simp: args_at_def words_at_nth list_all2_conv_all_nth unat_of_nat)

lemma args_at_value:
  assumes "args_at m wm av ps ss" "Suc i < length ss"
  shows "option_value wm (of_nat (length ss)) av (of_nat i) = Some (ps ! Suc i)"
proof -
  have "unat (of_nat (Suc i) :: usize) = Suc i" "wm (av + 8 * of_nat (Suc i)) = ps ! Suc i"
    using args_at_nth [OF assms] by simp_all
  moreover have "\<not> length ss \<le> Suc i" using assms(2) by simp
  ultimately show ?thesis
    using args_at_nth(4) [OF assms] by (simp add: option_value_def word_le_nat_alt algebra_simps)
qed

lemma arg_is:
  assumes "args_at m wm av ps ss" "i < length ss" "CHR 0x00 \<notin> set x"
  shows "cstr_eq m (wm (av + 8 * of_nat i)) (ascii x) \<longleftrightarrow> ss ! i = ascii x"
  using cstr_eq_iff [OF args_at_nth(2) [OF assms(1,2)], of "ascii x"] args_at_nth(1) [OF assms(1,2)] assms(3)
  by (simp add: zero_in_ascii)

lemma arg_step_option:
  assumes "args_at m wm av ps ss" "i + length (option_words opt) \<le> length ss" "option_ok opt"
    "take (length (option_words opt)) (drop i ss) = option_words opt"
  shows "arg_step fs m wm (of_nat (length ss)) av (of_nat i) a =
    Inr (of_nat (i + length (option_words opt)), options_argv0 ps i [opt] a)"
proof -
  have i: "i < length ss" using assms(2) by (cases opt) simp_all
  have s: "ss ! i = hd (option_words opt)"
    using assms(2,4) i by (cases opt) (auto simp: take_Suc_conv_app_nth hd_drop_conv_nth [symmetric] hd_take)
  show ?thesis
  proof (cases opt)
    case (Argv0 v)
    then show ?thesis using s assms(2)
      by (simp add: arg_step_def Let_def arg_is [OF assms(1) i] ascii_eq_iff args_at_value [OF assms(1)])
  next
    case (Valued n v)
    then show ?thesis using s assms(2,3)
      by (auto simp: arg_step_def Let_def arg_is [OF assms(1) i] ascii_eq_iff args_at_value [OF assms(1)]
          consumes_value_def value_options_def)
  next
    case Inhibit_Cache
    then show ?thesis using s
      by (simp add: arg_step_def Let_def arg_is [OF assms(1) i] ascii_eq_iff consumes_value_def)
  qed
qed

lemma arg_step_program:
  assumes "args_at m wm av ps ss" "i < length ss" "ss ! i = [] \<or> hd (ss ! i) \<noteq> 45"
  shows "arg_step fs m wm (of_nat (length ss)) av (of_nat i) a =
    Inl (Done (Some (Run \<lparr>argv_index = of_nat i, argv0 = a\<rparr>)))"
proof -
  have ne: "ss ! i \<noteq> ascii (CHR ''-'' # x)" for x using assms(3) by (auto simp: ascii_def)
  have "\<not> starts_with_dash m (wm (av + 8 * of_nat i))"
    using starts_with_dash_iff [OF args_at_nth(2) [OF assms(1,2)]] assms(3) args_at_nth(1) [OF assms(1,2)] by auto
  then show ?thesis
    by (simp add: arg_step_def Let_def arg_is [OF assms(1,2)] consumes_value_def ne)
qed

lemma options_argv0_Cons:
  "options_argv0 ps i (opt # os) a =
     options_argv0 ps (i + length (option_words opt)) os (options_argv0 ps i [opt] a)"
  by (cases opt) simp_all

lemma parse_args_options:
  assumes "args_at m wm av ps ss" "drop i ss = concat (map option_words opts) @ target # rest"
    "list_all option_ok opts" "target = [] \<or> hd target \<noteq> 45"
  shows "parse_args fs m wm (of_nat (length ss)) av (of_nat i) a =
    Done (Some (Run \<lparr>argv_index = of_nat (i + length (concat (map option_words opts))),
      argv0 = options_argv0 ps i opts a\<rparr>))"
  using assms(2,3)
proof (induction opts arbitrary: i a)
  case Nil
  have i: "i < length ss" using Nil.prems(1) by (metis drop_all list.distinct(1) append_Nil concat.simps(1) list.simps(8) not_le)
  then have "ss ! i = target" using Nil.prems(1) by (simp add: hd_drop_conv_nth [symmetric])
  then have "arg_step fs m wm (of_nat (length ss)) av (of_nat i) a =
      Inl (Done (Some (Run \<lparr>argv_index = of_nat i, argv0 = a\<rparr>)))"
    using arg_step_program [OF assms(1) i] assms(4) by simp
  moreover have "(of_nat i :: usize) < of_nat (length ss)"
    using args_at_nth(3,4) [OF assms(1) i] i by (simp add: word_less_nat_alt)
  ultimately show ?case by (simp add: parse_args.simps [of fs m wm _ av "of_nat i"])
next
  case (Cons opt opts)
  let ?n = "length (option_words opt)"
  have len: "i + ?n \<le> length ss" "i < length ss"
    using arg_cong [OF Cons.prems(1), of length] by (auto simp: not_less dest: sym) 
  have "take ?n (drop i ss) = option_words opt" using Cons.prems(1) by simp
  then have "arg_step fs m wm (of_nat (length ss)) av (of_nat i) a = Inr (of_nat (i + ?n), options_argv0 ps i [opt] a)"
    using arg_step_option [OF assms(1) len(1)] Cons.prems(2) by simp
  moreover have "(of_nat i :: usize) < of_nat (length ss)"
    using args_at_nth(3,4) [OF assms(1) len(2)] len by (simp add: word_less_nat_alt)
  moreover have "drop (i + ?n) ss = concat (map option_words opts) @ target # rest"
    using arg_cong [OF Cons.prems(1), of "drop ?n"] by (simp add: add.commute)
  then have "parse_args fs m wm (of_nat (length ss)) av (of_nat (i + ?n)) (options_argv0 ps i [opt] a) =
      Done (Some (Run \<lparr>argv_index = of_nat (i + ?n + length (concat (map option_words opts))),
        argv0 = options_argv0 ps (i + ?n) opts (options_argv0 ps i [opt] a)\<rparr>))"
    using Cons.IH [of "i + ?n"] Cons.prems(2) by simp
  ultimately show ?case
    by (subst parse_args.simps) (simp add: options_argv0_Cons [of ps i opt opts] add.assoc del: options_argv0.simps)
qed

lemma handle_direct_invocation_options:
  assumes "args_at m wm av ps (prog # concat (map option_words opts) @ target # rest)"
    and "list_all option_ok opts" and "target = [] \<or> hd target \<noteq> 45"
  shows "handle_direct_invocation fs m wm (of_nat (length ps)) av =
    Done (Some (Run \<lparr>argv_index = of_nat (1 + length (concat (map option_words opts))),
      argv0 = options_argv0 ps 1 opts 0\<rparr>))"
proof -
  let ?ss = "prog # concat (map option_words opts) @ target # rest"
  have len: "length ps = length ?ss" using assms(1) by (auto simp: args_at_def dest: list_all2_lengthD)
  have "\<not> (of_nat (length ?ss) :: usize) \<le> 1"
    using args_at_nth(4) [OF assms(1), of 0] by (simp add: word_le_nat_alt)
  moreover have "drop 1 ?ss = concat (map option_words opts) @ target # rest" by simp
  from parse_args_options [OF assms(1) this assms(2,3), of fs 0]
  have "parse_args fs m wm (of_nat (length ?ss)) av 1 0 =
      Done (Some (Run \<lparr>argv_index = of_nat (1 + length (concat (map option_words opts))),
        argv0 = options_argv0 ps 1 opts 0\<rparr>))" by simp
  ultimately show ?thesis unfolding handle_direct_invocation_def len by simp
qed

text \<open>A direct invocation with any sequence of accepted options, followed by a program name and its
  arguments, ends the option loop at the program: the index is the program's position and \<open>argv0\<close> the value
  of the last \<open>--argv0\<close>, or null without one.\<close>

theorem direct_invocation_finds_program:
  assumes "args_at m wm av ps (prog # concat (map option_words opts) @ target # rest)"
    and "list_all option_ok opts" and "target = [] \<or> hd target \<noteq> 45"
  shows "handle_direct_invocation fs m wm (of_nat (length ps)) av =
    Done (Some (Run \<lparr>argv_index = of_nat (1 + length (concat (map option_words opts))),
      argv0 = options_argv0 ps 1 opts 0\<rparr>))"
  by (rule handle_direct_invocation_options [OF assms])

end
