(* ===== verification/Cli_Demo.thy ===== *)
theory Cli_Demo
  imports Cli
begin

text \<open>
  The properties of the command line at concrete inputs: an ELF file read in small pieces, and an argument
  vector with an option.
\<close>

section \<open>Examples\<close>

text \<open>An ELF file with one needed library, whose kernel hands out at most 7 bytes per read.\<close>

definition demo_elf :: bytes where
  "demo_elf = [0x7f, 69, 76, 70, 2, 1] @ replicate 10 0 @ le_enc 2 3 @ le_enc 2 62 @ replicate 12 0 @ le_enc 8 64 @
     replicate 14 0 @ le_enc 2 56 @ le_enc 2 2 @ replicate 6 0 @
     le_enc 4 1 @ replicate 28 0 @ le_enc 8 0x200 @ replicate 16 0 @
     le_enc 4 2 @ replicate 4 0 @ le_enc 8 176 @ replicate 16 0 @ le_enc 8 64 @ replicate 16 0 @
     le_enc 8 1 @ le_enc 8 1 @ le_enc 8 5 @ le_enc 8 240 @ le_enc 8 10 @ le_enc 8 6 @ replicate 16 0 @
     [0, 108, 105, 98, 99, 0]"

definition demo_pread :: pread where
  "demo_pread n off = Some (take (min n 7) (drop (unat off) demo_elf))"

lemma demo_pread_reads: "reads_file demo_elf demo_pread"
proof -
  have "\<exists>k \<le> n. demo_pread n off = Some (take k (drop (unat off) demo_elf)) \<and> (unat off < length demo_elf \<longrightarrow> 0 < k)"
    if "0 < n" for n off
    by (rule exI [of _ "min n 7"]) (use that in \<open>simp add: demo_pread_def\<close>)
  then show ?thesis unfolding reads_file_def by blast
qed

lemma demo_elf_length: "length demo_elf = 246" by (simp add: demo_elf_def)

lemma demo_inspect: "inspect_fd demo_pread = Inr \<lparr>needed = [1], strtab_offset = 240, strtab_size = 6\<rparr>"
  by code_simp


text \<open>\<open>ld.so --argv0 x prog\<close>, with the strings stored one after the other from address \<open>0x100\<close>.\<close>

definition demo_text :: bytes where
  "demo_text = ascii ''ld.so'' @ [0] @ ascii ''--argv0'' @ [0] @ ascii ''x'' @ [0] @ ascii ''prog'' @ [0]"

definition demo_strings :: mem where
  "demo_strings a = (if unat (a - 0x100) < length demo_text then demo_text ! unat (a - 0x100) else 0)"

definition demo_argv :: wmem where
  "demo_argv a = (if a = 0x8000 then 0x100 else if a = 0x8008 then 0x106 else if a = 0x8010 then 0x10e
     else if a = 0x8018 then 0x110 else 0)"

lemma demo_args:
  "args_at demo_strings demo_argv 0x8000 [0x100, 0x106, 0x10e, 0x110]
     (ascii ''ld.so'' # concat (map option_words [Argv0 (ascii ''x'')]) @ ascii ''prog'' # [])"
  by (simp add: args_at_def demo_argv_def cstr_at_def demo_strings_def demo_text_def ascii_def)

theorem direct_invocation_finds_program_witness:
  "handle_direct_invocation (\<lambda>_. None) demo_strings demo_argv 4 0x8000 =
     Done (Some (Run \<lparr>argv_index = 3, argv0 = 0x10e\<rparr>))"
  using direct_invocation_finds_program [OF demo_args, of "\<lambda>_. None"] by (simp add: ascii_def)

end
