(* ===== verification/C_Layout.thy ===== *)
theory C_Layout
  imports Dtv
begin

text \<open>
  The layout of \<open>#[repr(C)]\<close> structures, as the Rust reference defines it: fields in order, each at the next
  multiple of its alignment, the size rounded up to the alignment of the structure.  A place inside a value is
  a path of field names and indices.  The main facts are that a place lies inside the value, aligned, and that
  places on diverging paths have no byte in common; so the scalar places of a structure in memory behave like
  independent variables, which is the contract of the locale \<open>field_store\<close>.
\<close>

section \<open>Types, sizes and places\<close>

datatype ctype = Word nat | Arr nat ctype | Struct "(string \<times> ctype) list"

fun align_of :: "ctype \<Rightarrow> nat" and aligns_of :: "(string \<times> ctype) list \<Rightarrow> nat" where
  "align_of (Word n) = n"
| "align_of (Arr k t) = align_of t"
| "align_of (Struct fs) = aligns_of fs"
| "aligns_of [] = 1"
| "aligns_of ((x, t) # fs) = max (align_of t) (aligns_of fs)"

fun size_of :: "ctype \<Rightarrow> nat" and end_of :: "nat \<Rightarrow> (string \<times> ctype) list \<Rightarrow> nat" where
  "size_of (Word n) = n"
| "size_of (Arr k t) = k * size_of t"
| "size_of (Struct fs) = round_up (aligns_of fs) (end_of 0 fs)"
| "end_of cur [] = cur"
| "end_of cur ((x, t) # fs) = end_of (round_up (align_of t) cur + size_of t) fs"

fun field_at :: "nat \<Rightarrow> (string \<times> ctype) list \<Rightarrow> string \<Rightarrow> (nat \<times> ctype) option" where
  "field_at cur [] n = None"
| "field_at cur ((x, t) # fs) n =
     (let off = round_up (align_of t) cur
      in if x = n then Some (off, t) else field_at (off + size_of t) fs n)"

text \<open>The same as a table of the fields with their offsets.\<close>

fun field_table :: "nat \<Rightarrow> (string \<times> ctype) list \<Rightarrow> (string \<times> nat \<times> ctype) list" where
  "field_table cur [] = []"
| "field_table cur ((x, t) # fs) =
     (x, round_up (align_of t) cur, t) # field_table (round_up (align_of t) cur + size_of t) fs"

lemma field_at_table: "field_at cur fs n = map_of (field_table cur fs) n"
  by (induction cur fs n rule: field_at.induct) (simp_all add: Let_def)

datatype step = Fld string | Idx nat

fun locate :: "ctype \<Rightarrow> step list \<Rightarrow> (nat \<times> ctype) option" where
  "locate t [] = Some (0, t)"
| "locate (Struct fs) (Fld n # p) =
     (case field_at 0 fs n of
        None \<Rightarrow> None
      | Some (off, t) \<Rightarrow> map_option (\<lambda>(o', u). (off + o', u)) (locate t p))"
| "locate (Arr k t) (Idx i # p) =
     (if i < k then map_option (\<lambda>(o', u). (i * size_of t + o', u)) (locate t p) else None)"
| "locate t (s # p) = None"

text \<open>The types in use: scalars of 1, 2, 4 and 8 bytes.\<close>

fun wf_type :: "ctype \<Rightarrow> bool" and wf_fields :: "(string \<times> ctype) list \<Rightarrow> bool" where
  "wf_type (Word n) \<longleftrightarrow> n \<in> {1, 2, 4, 8}"
| "wf_type (Arr k t) \<longleftrightarrow> wf_type t"
| "wf_type (Struct fs) \<longleftrightarrow> wf_fields fs"
| "wf_fields [] \<longleftrightarrow> True"
| "wf_fields ((x, t) # fs) \<longleftrightarrow> wf_type t \<and> wf_fields fs"

section \<open>Alignment\<close>

lemma align_pow2:
  "wf_type t \<Longrightarrow> align_of t \<in> {1, 2, 4, 8}"
  "wf_fields fs \<Longrightarrow> aligns_of fs \<in> {1, 2, 4, 8}"
  by (induction t and fs rule: wf_type_wf_fields.induct) (auto simp: max_def)

lemma pow2_dvd: "a \<in> {1, 2, 4, 8} \<Longrightarrow> b \<in> {1, 2, 4, 8} \<Longrightarrow> a \<le> b \<Longrightarrow> a dvd (b :: nat)"
  by auto

lemma align_pos: "wf_type t \<Longrightarrow> 0 < align_of t" "wf_fields fs \<Longrightarrow> 0 < aligns_of fs"
  using align_pow2 by force+

lemma align_dvd_size: "wf_type t \<Longrightarrow> align_of t dvd size_of t"
proof (induction t)
  case (Struct fs)
  then show ?case by (simp add: dvd_eq_mod_eq_0)
qed simp_all

lemma end_of_ge: "wf_fields fs \<Longrightarrow> cur \<le> end_of cur fs"
proof (induction fs arbitrary: cur)
  case Nil
  then show ?case by simp
next
  case (Cons f fs)
  obtain x t where f: "f = (x, t)" by fastforce
  have "cur \<le> round_up (align_of t) cur" using Cons.prems f align_pos(1) by (intro round_up_ge) simp
  also have "\<dots> \<le> end_of (round_up (align_of t) cur + size_of t) fs"
    using Cons.IH [of "round_up (align_of t) cur + size_of t"] Cons.prems f by simp
  finally show ?case by (simp add: f)
qed

lemma field_at_bounds:
  assumes "wf_fields fs" "field_at cur fs n = Some (off, t)"
  shows "wf_type t \<and> cur \<le> off \<and> off + size_of t \<le> end_of cur fs \<and> align_of t dvd off \<and> align_of t \<le> aligns_of fs"
  using assms
proof (induction fs arbitrary: cur)
  case Nil
  then show ?case by simp
next
  case (Cons f fs)
  obtain x u where f: "f = (x, u)" by fastforce
  let ?o = "round_up (align_of u) cur"
  have ge: "cur \<le> ?o" using Cons.prems(1) f align_pos(1) by (intro round_up_ge) simp
  have wf: "wf_type u" "wf_fields fs" using Cons.prems(1) f by simp_all
  show ?case
  proof (cases "x = n")
    case True
    then have "off = ?o" "t = u" using Cons.prems(2) f by (auto simp: Let_def)
    then show ?thesis using ge wf end_of_ge [OF wf(2), of "?o + size_of u"] f by (simp add: dvd_eq_mod_eq_0)
  next
    case False
    then have "field_at (?o + size_of u) fs n = Some (off, t)" using Cons.prems(2) f by (simp add: Let_def)
    from Cons.IH [OF wf(2) this] show ?thesis using ge f by (simp add: le_max_iff_disj)
  qed
qed

lemma field_at_disjoint:
  assumes "wf_fields fs" "field_at cur fs a = Some (oa, ta)" "field_at cur fs b = Some (ob, tb)" "a \<noteq> b"
  shows "oa + size_of ta \<le> ob \<or> ob + size_of tb \<le> oa"
  using assms
proof (induction fs arbitrary: cur)
  case Nil
  then show ?case by simp
next
  case (Cons f fs)
  obtain x u where f: "f = (x, u)" by fastforce
  let ?o = "round_up (align_of u) cur"
  have wf: "wf_fields fs" using Cons.prems(1) f by simp
  note later = field_at_bounds [OF wf, of "?o + size_of u"]
  consider "x = a" | "x = b" | "x \<noteq> a" "x \<noteq> b" by blast
  then show ?case
  proof cases
    case 1
    then have "oa = ?o" "ta = u" "field_at (?o + size_of u) fs b = Some (ob, tb)"
      using Cons.prems f by (auto simp: Let_def)
    then show ?thesis using later by fastforce
  next
    case 2
    then have "ob = ?o" "tb = u" "field_at (?o + size_of u) fs a = Some (oa, ta)"
      using Cons.prems f by (auto simp: Let_def)
    then show ?thesis using later by fastforce
  next
    case 3
    then show ?thesis using Cons.IH [of "?o + size_of u"] Cons.prems f wf by (simp add: Let_def)
  qed
qed

section \<open>Places\<close>

lemma locate_inside:
  assumes "wf_type t" "locate t p = Some (off, u)"
  shows "wf_type u \<and> off + size_of u \<le> size_of t \<and> align_of u dvd off \<and> align_of u dvd align_of t"
  using assms
proof (induction t p arbitrary: off u rule: locate.induct)
  case (2 fs n p)
  obtain o1 t o2 where f: "field_at 0 fs n = Some (o1, t)" and l: "locate t p = Some (o2, u)" and off: "off = o1 + o2"
    using 2(3) by (auto split: option.splits)
  have wf: "wf_fields fs" using 2(2) by simp
  note b = field_at_bounds [OF wf f]
  have i: "wf_type u" "o2 + size_of u \<le> size_of t" "align_of u dvd o2" "align_of u dvd align_of t"
    using 2(1) [OF f _ _ l] b by auto
  have "end_of 0 fs \<le> size_of (Struct fs)" using align_pos(2) [OF wf] round_up_ge by simp
  moreover have "align_of t dvd aligns_of fs"
    using b align_pow2(1) [of t] align_pow2(2) [OF wf] by (intro pow2_dvd) auto
  ultimately show ?case using b i off by (auto intro: dvd_trans)
next
  case (3 k t i p)
  then obtain o2 where i: "i < k" and l: "locate t p = Some (o2, u)" and off: "off = i * size_of t + o2"
    by (auto split: if_splits)
  have ih: "wf_type u" "o2 + size_of u \<le> size_of t" "align_of u dvd o2" "align_of u dvd align_of t"
    using 3(1) [OF i _ l] 3(2) by auto
  have "Suc i * size_of t \<le> k * size_of t" using i by (intro mult_le_mono1) simp
  moreover have "align_of u dvd size_of t" using ih(4) align_dvd_size [of t] 3(2) dvd_trans by simp blast
  ultimately show ?case using ih off by simp
qed simp_all

text \<open>Two paths that part at some step.\<close>

fun diverge :: "step list \<Rightarrow> step list \<Rightarrow> bool" where
  "diverge (a # p) (b # q) \<longleftrightarrow> a \<noteq> b \<or> diverge p q"
| "diverge p q \<longleftrightarrow> False"

lemma divergeE:
  assumes "diverge p q"
  obtains a p' b q' where "p = a # p'" "q = b # q'"
  using assms by (cases p; cases q) auto

lemma locate_step:
  "locate (Struct fs) (s # p) = Some r \<Longrightarrow> \<exists>n. s = Fld n"
  "locate (Arr k t) (s # p) = Some r \<Longrightarrow> \<exists>i. s = Idx i"
  by (cases s; simp)+

lemma locate_disjoint:
  assumes "wf_type t" "locate t p = Some (a, u)" "locate t q = Some (b, v)" "diverge p q"
  shows "a + size_of u \<le> b \<or> b + size_of v \<le> a"
  using assms
proof (induction t p arbitrary: q a b rule: locate.induct)
  case (1 t)
  then show ?case by simp
next
  case (2 fs n p)
  obtain m q' where q: "q = Fld m # q'" using 2(4,5) by (elim divergeE) (auto dest: locate_step)
  obtain o1 t1 a' where f1: "field_at 0 fs n = Some (o1, t1)" and l1: "locate t1 p = Some (a', u)" and a: "a = o1 + a'"
    using 2(3) by (auto split: option.splits)
  obtain o2 t2 b' where f2: "field_at 0 fs m = Some (o2, t2)" and l2: "locate t2 q' = Some (b', v)" and b: "b = o2 + b'"
    using 2(4) q by (auto split: option.splits)
  have wf: "wf_fields fs" "wf_type t1" "wf_type t2"
    using 2(2) field_at_bounds [OF _ f1] field_at_bounds [OF _ f2] by simp_all
  show ?case
  proof (cases "n = m")
    case True
    then have "t2 = t1" "o2 = o1" "diverge p q'" using f1 f2 2(5) q by auto
    then show ?thesis using 2(1) [OF f1 refl wf(2) l1] l2 a b by fastforce
  next
    case False
    from field_at_disjoint [OF wf(1) f1 f2 False] show ?thesis
      using locate_inside [OF wf(2) l1] locate_inside [OF wf(3) l2] a b by auto
  qed
next
  case (3 k t i p)
  obtain j q' where q: "q = Idx j # q'" using 3(4,5) by (elim divergeE) (auto dest: locate_step)
  obtain a' where i: "i < k" and l1: "locate t p = Some (a', u)" and a: "a = i * size_of t + a'"
    using 3(3) by (auto split: if_splits)
  obtain b' where j: "j < k" and l2: "locate t q' = Some (b', v)" and b: "b = j * size_of t + b'"
    using 3(4) q by (auto split: if_splits)
  have wf: "wf_type t" using 3(2) by simp
  note in1 = locate_inside [OF wf l1] and in2 = locate_inside [OF wf l2]
  consider "i = j" | "i < j" | "j < i" by linarith
  then show ?case
  proof cases
    case 1
    then show ?thesis using 3(1) [OF i wf l1 l2] 3(5) q a b by auto
  next
    case 2
    then have "Suc i * size_of t \<le> j * size_of t" by (intro mult_le_mono1) simp
    then show ?thesis using in1 a b by simp
  next
    case 3
    then have "Suc j * size_of t \<le> i * size_of t" by (intro mult_le_mono1) simp
    then show ?thesis using in2 a b by simp
  qed
qed simp_all

text \<open>Different scalar places are on diverging paths.\<close>

lemma scalar_diverge:
  assumes "locate t p = Some (a, Word m)" "locate t q = Some (b, Word n)" "p \<noteq> q"
  shows "diverge p q"
  using assms
proof (induction t p arbitrary: q a b rule: locate.induct)
  case (1 t)
  then show ?case by (cases q) auto
next
  case (2 fs f p)
  then show ?case by (cases q) (auto split: option.splits)
next
  case (3 k t i p)
  then show ?case by (cases q) (auto split: if_splits)
qed simp_all

section \<open>Scalars in memory\<close>

definition scalar_at :: "ctype \<Rightarrow> step list \<Rightarrow> (nat \<times> nat) option" where
  "scalar_at t p = (case locate t p of Some (off, Word n) \<Rightarrow> Some (off, n) | _ \<Rightarrow> None)"

definition scalar_width :: "ctype \<Rightarrow> step list \<Rightarrow> nat option" where
  "scalar_width t p = map_option snd (scalar_at t p)"

text \<open>Reading and writing a scalar of a structure at address \<open>g\<close>: \<open>addr_of!(s.f).read()\<close> and
  \<open>addr_of_mut!(s.f).write(v)\<close>.\<close>

definition read_at :: "ctype \<Rightarrow> usize \<Rightarrow> mem \<Rightarrow> step list \<Rightarrow> nat option" where
  "read_at t g m p = map_option (\<lambda>(off, n). le_nat (read_list m (g + of_nat off) n)) (scalar_at t p)"

definition write_at :: "ctype \<Rightarrow> usize \<Rightarrow> mem \<Rightarrow> step list \<times> nat \<Rightarrow> mem" where
  "write_at t g m pv =
     (case scalar_at t (fst pv) of None \<Rightarrow> m | Some (off, n) \<Rightarrow> write_list m (g + of_nat off) (le_enc n (snd pv)))"

definition place_of :: "ctype \<Rightarrow> usize \<Rightarrow> step list \<Rightarrow> usize" where
  "place_of t g p = g + (case locate t p of None \<Rightarrow> 0 | Some (off, u) \<Rightarrow> of_nat off)"

lemma scalar_at_Some: "scalar_at t p = Some (off, n) \<longleftrightarrow> locate t p = Some (off, Word n)"
  by (auto simp: scalar_at_def split: option.splits ctype.splits)

lemma scalar_at_inside:
  assumes "wf_type t" "scalar_at t p = Some (off, n)"
  shows "off + n \<le> size_of t \<and> n \<in> {1, 2, 4, 8}"
  using locate_inside [OF assms(1), of p off "Word n"] assms(2) by (simp add: scalar_at_Some)

lemma scalar_at_apart:
  assumes "wf_type t" "size_of t < 2 ^ 64" "scalar_at t p = Some (a, m)" "scalar_at t q = Some (b, n)" "p \<noteq> q"
  shows "apart (g + of_nat a) m (g + of_nat b) n"
proof (rule apart_offsets)
  have "diverge p q" using scalar_diverge [of t p a m q b n] assms by (simp add: scalar_at_Some)
  then show "a + m \<le> b \<or> b + n \<le> a"
    using locate_disjoint [of t p a "Word m" q b "Word n"] assms by (simp add: scalar_at_Some)
qed (use scalar_at_inside [OF assms(1,3)] scalar_at_inside [OF assms(1,4)] assms(2) in auto)

lemma read_write_at_same:
  assumes "wf_type t" "scalar_at t p = Some (off, n)"
  shows "read_at t g (write_at t g m (p, v)) p = Some (v mod 256 ^ n)"
proof -
  have "length (le_enc n v) < 2 ^ 64" using scalar_at_inside [OF assms] by auto
  from read_write_list_same [OF this] show ?thesis
    using assms(2) by (simp add: read_at_def write_at_def le_nat_enc)
qed

lemma read_write_at_other:
  assumes "wf_type t" "size_of t < 2 ^ 64" "p \<noteq> q"
  shows "read_at t g (write_at t g m (p, v)) q = read_at t g m q"
proof (cases "scalar_at t p = None \<or> scalar_at t q = None")
  case True
  then show ?thesis by (auto simp: read_at_def write_at_def)
next
  case False
  then obtain a k b n where "scalar_at t p = Some (a, k)" "scalar_at t q = Some (b, n)" by auto
  with scalar_at_apart [OF assms(1,2) this(2,1) assms(3) [symmetric], of g] show ?thesis
    by (simp add: read_at_def write_at_def read_write_list_apart)
qed

lemma write_at_frame:
  assumes "wf_type t" "apart q k g (size_of t)"
  shows "read_list (write_at t g m pv) q k = read_list m q k"
proof (cases "scalar_at t (fst pv)")
  case None
  then show ?thesis by (simp add: write_at_def)
next
  case (Some x)
  obtain off n where x: "x = (off, n)" by fastforce
  have "apart q k (g + of_nat off) n"
    by (rule apart_subset [OF assms(2)]) (use scalar_at_inside [OF assms(1)] Some x in auto)
  then show ?thesis by (simp add: write_at_def Some x read_write_list_apart)
qed

section \<open>Structures as independent variables\<close>

lemma map_of_rev_distinct: "distinct (map fst ws) \<Longrightarrow> map_of (rev ws) = map_of ws"
  by (rule map_of_inject_set [THEN iffD2]) (simp_all add: rev_map [symmetric])

text \<open>\<open>width\<close> gives the bytes of a variable; a value that is too large is truncated.\<close>

locale field_store =
  fixes width :: "'p \<Rightarrow> nat option" and load :: "'m \<Rightarrow> 'p \<Rightarrow> nat option" and store :: "'m \<Rightarrow> 'p \<times> nat \<Rightarrow> 'm"
  assumes load_same: "width p = Some n \<Longrightarrow> load (store m (p, v)) p = Some (v mod 256 ^ n)"
    and load_other: "p \<noteq> q \<Longrightarrow> load (store m (p, v)) q = load m q"
    and load_none: "width p = None \<Longrightarrow> load m p = None"
begin

lemma load_store: "load (store m (p, v)) q = (if p = q then map_option (\<lambda>n. v mod 256 ^ n) (width q) else load m q)"
  by (cases "width p") (auto simp: load_same load_other load_none)

text \<open>A sequence of stores: the last one to a variable counts.\<close>

lemma load_stores:
  "load (foldl store m ws) q =
     (case map_of (rev ws) q of None \<Rightarrow> load m q | Some v \<Rightarrow> map_option (\<lambda>n. v mod 256 ^ n) (width q))"
proof (induction ws rule: rev_induct)
  case Nil
  then show ?case by simp
next
  case (snoc w ws)
  then show ?case by (cases w) (simp add: load_store)
qed

lemma load_stores_other: "q \<notin> fst ` set ws \<Longrightarrow> load (foldl store m ws) q = load m q"
proof -
  assume "q \<notin> fst ` set ws"
  then have "map_of (rev ws) q = None" by (simp add: map_of_eq_None_iff)
  then show ?thesis by (simp add: load_stores)
qed

text \<open>Stores to different variables of values that fit.\<close>

lemma load_table:
  assumes "distinct (map fst ws)" "list_all (\<lambda>(p, v). case width p of None \<Rightarrow> False | Some n \<Rightarrow> v < 256 ^ n) ws"
  shows "load (foldl store m ws) q = (case map_of ws q of None \<Rightarrow> load m q | Some v \<Rightarrow> Some v)"
proof -
  note map_of_rev_distinct [OF assms(1)]
  moreover have "\<exists>n. width q = Some n \<and> v < 256 ^ n" if "map_of ws q = Some v" for v
    using assms(2) map_of_SomeD [OF that] by (auto simp: list_all_iff split: option.splits)
  ultimately show ?thesis by (fastforce simp: load_stores split: option.split)
qed

end

lemma field_store_struct:
  assumes "wf_type t" "size_of t < 2 ^ 64"
  shows "field_store (scalar_width t) (read_at t g) (write_at t g)"
proof
  show "read_at t g (write_at t g m (p, v)) p = Some (v mod 256 ^ n)" if "scalar_width t p = Some n" for p n m v
    using that assms(1) by (auto simp: scalar_width_def read_write_at_same)
  show "read_at t g (write_at t g m (p, v)) q = read_at t g m q" if "p \<noteq> q" for p q m v
    using assms that by (rule read_write_at_other)
  show "read_at t g m p = None" if "scalar_width t p = None" for p m
    using that by (simp add: scalar_width_def read_at_def)
qed

section \<open>Constant values\<close>

text \<open>A constant expression of a structure or array type, field by field.\<close>

datatype cval = Num nat | Elems "cval list" | Fields "(string \<times> cval) list"

fun has_type :: "cval \<Rightarrow> ctype \<Rightarrow> bool" and fields_have :: "(string \<times> cval) list \<Rightarrow> (string \<times> ctype) list \<Rightarrow> bool" where
  "has_type (Num v) (Word n) \<longleftrightarrow> v < 256 ^ n"
| "has_type (Elems vs) (Arr k t) \<longleftrightarrow> length vs = k \<and> (\<forall>v \<in> set vs. has_type v t)"
| "has_type (Fields vs) (Struct fs) \<longleftrightarrow> distinct (map fst vs) \<and> fields_have vs fs"
| "has_type v t \<longleftrightarrow> False"
| "fields_have [] [] \<longleftrightarrow> True"
| "fields_have ((x, v) # vs) ((y, t) # fs) \<longleftrightarrow> x = y \<and> has_type v t \<and> fields_have vs fs"
| "fields_have vs fs \<longleftrightarrow> False"

text \<open>The scalar of a constant at a place.\<close>

fun value_at :: "cval \<Rightarrow> step list \<Rightarrow> nat option" where
  "value_at (Num v) [] = Some v"
| "value_at (Elems vs) (Idx i # p) = (if i < length vs then value_at (vs ! i) p else None)"
| "value_at (Fields vs) (Fld n # p) = (case map_of vs n of None \<Rightarrow> None | Some v \<Rightarrow> value_at v p)"
| "value_at v p = None"

text \<open>Initialising or assigning a structure stores its scalars.\<close>

definition under :: "step \<Rightarrow> (step list \<times> nat) list \<Rightarrow> (step list \<times> nat) list" where
  "under s = map (\<lambda>(p, v). (s # p, v))"

fun scalars :: "cval \<Rightarrow> (step list \<times> nat) list" and elem_scalars :: "nat \<Rightarrow> cval list \<Rightarrow> (step list \<times> nat) list"
  and field_scalars :: "(string \<times> cval) list \<Rightarrow> (step list \<times> nat) list" where
  "scalars (Num v) = [([], v)]"
| "scalars (Elems vs) = elem_scalars 0 vs"
| "scalars (Fields vs) = field_scalars vs"
| "elem_scalars i [] = []"
| "elem_scalars i (v # vs) = under (Idx i) (scalars v) @ elem_scalars (Suc i) vs"
| "field_scalars [] = []"
| "field_scalars ((n, v) # vs) = under (Fld n) (scalars v) @ field_scalars vs"

definition write_value :: "ctype \<Rightarrow> usize \<Rightarrow> step list \<Rightarrow> mem \<Rightarrow> cval \<Rightarrow> mem" where
  "write_value t g pre m v = foldl (write_at t g) m (map (\<lambda>(p, x). (pre @ p, x)) (scalars v))"

lemma map_of_under: "map_of (under s ws) p = (case p of [] \<Rightarrow> None | s' # q \<Rightarrow> if s' = s then map_of ws q else None)"
  by (induction ws) (auto simp: under_def split: list.split)

lemma map_of_elem_scalars:
  "map_of (elem_scalars i vs) p =
     (case p of Idx j # q \<Rightarrow> if i \<le> j \<and> j < i + length vs then map_of (scalars (vs ! (j - i))) q else None | _ \<Rightarrow> None)"
proof (induction vs arbitrary: i)
  case Nil
  then show ?case by (auto split: list.split step.split)
next
  case (Cons v vs)
  have "vs ! (j - Suc i) = (v # vs) ! (j - i)" if "Suc i \<le> j" for j
    using that by (simp add: Suc_diff_le nth_Cons')
  with Cons show ?case
    by (auto simp: map_add_def map_of_under split: list.split step.split option.split)
qed

lemma map_of_field_scalars:
  "distinct (map fst vs) \<Longrightarrow> map_of (field_scalars vs) p =
     (case p of Fld n # q \<Rightarrow> Option.bind (map_of vs n) (\<lambda>v. map_of (scalars v) q) | _ \<Rightarrow> None)"
proof (induction vs)
  case Nil
  then show ?case by (simp split: list.split step.split)
next
  case (Cons f vs)
  obtain n v where f: "f = (n, v)" by fastforce
  have "map_of vs n = None" using Cons.prems f by (simp add: map_of_eq_None_iff)
  with Cons f show ?case by (auto simp: map_add_def map_of_under split: list.split step.split option.split)
qed

lemma fields_have_lookup:
  "fields_have vs fs \<Longrightarrow> map_of vs n = Some v \<Longrightarrow> \<exists>t. (n, t) \<in> set fs \<and> has_type v t"
  by (induction vs arbitrary: fs; rename_tac fs; case_tac fs) (auto split: if_splits)

lemma map_of_scalars: "has_type v t \<Longrightarrow> map_of (scalars v) p = value_at v p"
proof (induction v p arbitrary: t rule: value_at.induct)
  case (2 vs i p)
  then show ?case by (cases t) (auto simp: map_of_elem_scalars intro: nth_mem)
next
  case (3 vs n p)
  then show ?case
    by (cases t) (auto simp: map_of_field_scalars split: option.split dest!: fields_have_lookup [where n = n])
qed (auto simp: map_of_elem_scalars map_of_field_scalars elim: has_type.elims split: step.split list.split)

lemma fst_under: "map fst (under s ws) = map ((#) s) (map fst ws)"
  by (induction ws) (auto simp: under_def)

lemma distinct_under: "distinct (map fst (under s ws)) \<longleftrightarrow> distinct (map fst ws)"
  unfolding fst_under by (rule distinct_map [THEN trans]) (simp add: inj_on_def)

lemma under_head: "q \<in> set (map fst (under s ws)) \<Longrightarrow> hd q = s"
  unfolding fst_under by auto

lemma elem_scalars_head: "q \<in> set (map fst (elem_scalars i vs)) \<Longrightarrow> \<exists>j \<ge> i. hd q = Idx j"
proof (induction vs arbitrary: i)
  case (Cons v vs)
  then consider "q \<in> set (map fst (under (Idx i) (scalars v)))" | "q \<in> set (map fst (elem_scalars (Suc i) vs))"
    by auto
  then show ?case
  proof cases
    case 1
    then show ?thesis using under_head by blast
  next
    case 2
    from Cons.IH [OF this] show ?thesis using Suc_leD by blast
  qed
qed simp

lemma field_scalars_head: "q \<in> set (map fst (field_scalars vs)) \<Longrightarrow> \<exists>n \<in> set (map fst vs). hd q = Fld n"
proof (induction vs)
  case (Cons f vs)
  obtain n v where f: "f = (n, v)" by fastforce
  with Cons.prems consider "q \<in> set (map fst (under (Fld n) (scalars v)))" | "q \<in> set (map fst (field_scalars vs))"
    by auto
  then show ?case
  proof cases
    case 1
    then show ?thesis using under_head f by simp
  next
    case 2
    from Cons.IH [OF this] show ?thesis by simp
  qed
qed simp

lemma distinct_elem_scalars:
  "(\<And>v. v \<in> set vs \<Longrightarrow> distinct (map fst (scalars v))) \<Longrightarrow> distinct (map fst (elem_scalars i vs))"
proof (induction vs arbitrary: i)
  case (Cons v vs)
  have "q \<notin> set (map fst (elem_scalars (Suc i) vs))" if "q \<in> set (map fst (under (Idx i) (scalars v)))" for q
    using under_head [OF that] elem_scalars_head [of q "Suc i" vs] by auto
  then have "set (map fst (under (Idx i) (scalars v))) \<inter> set (map fst (elem_scalars (Suc i) vs)) = {}" by blast
  with Cons show ?case by (simp only: elem_scalars.simps map_append distinct_append distinct_under) simp
qed simp

lemma distinct_field_scalars:
  "distinct (map fst vs) \<Longrightarrow> (\<And>f. f \<in> set vs \<Longrightarrow> distinct (map fst (scalars (snd f)))) \<Longrightarrow>
     distinct (map fst (field_scalars vs))"
proof (induction vs)
  case (Cons f vs)
  obtain n v where f: "f = (n, v)" by fastforce
  have "q \<notin> set (map fst (field_scalars vs))" if "q \<in> set (map fst (under (Fld n) (scalars v)))" for q
    using under_head [OF that] field_scalars_head [of q vs] Cons.prems(1) f by auto
  then have "set (map fst (under (Fld n) (scalars v))) \<inter> set (map fst (field_scalars vs)) = {}" by blast
  moreover have "distinct (map fst (scalars v))" using Cons.prems(2) [of f] f by simp
  moreover have "distinct (map fst (field_scalars vs))" using Cons by simp
  ultimately show ?case by (simp only: f field_scalars.simps map_append distinct_append distinct_under)
qed simp

lemma distinct_scalars:
  "has_type v t \<Longrightarrow> distinct (map fst (scalars v))"
  "fields_have vs fs \<Longrightarrow> n \<in> set vs \<Longrightarrow> distinct (map fst (scalars (snd n)))"
  by (induction v t and vs fs arbitrary: and n rule: has_type_fields_have.induct)
    (auto intro!: distinct_elem_scalars distinct_field_scalars)

lemma map_of_prefix:
  "map_of (map (\<lambda>(p, x). (pre @ p, x)) ws) q =
     (if \<exists>p. q = pre @ p then map_of ws (drop (length pre) q) else None)"
  by (induction ws) auto

lemma map_of_scalars_rev:
  "has_type v t \<Longrightarrow> map_of (rev (map (\<lambda>(p, x). (pre @ p, x)) (scalars v))) q =
     (if \<exists>p. q = pre @ p then value_at v (drop (length pre) q) else None)"
  unfolding rev_map map_of_prefix
  by (simp add: map_of_rev_distinct [OF distinct_scalars(1)] map_of_scalars)

lemma fields_have_field:
  "fields_have vs fs \<Longrightarrow> field_at cur fs n = Some (off, t) \<Longrightarrow> \<exists>v. map_of vs n = Some v \<and> has_type v t"
proof (induction vs arbitrary: cur fs)
  case Nil
  then show ?case by (cases fs) auto
next
  case (Cons w vs)
  obtain x v y u fs' where "w = (x, v)" "fs = (y, u) # fs'" using Cons.prems(1) by (cases w; cases fs) auto
  with Cons show ?case by (fastforce simp: Let_def split: if_splits)
qed

lemma value_at_scalar: "has_type v t \<Longrightarrow> locate t p = Some (off, Word n) \<Longrightarrow> \<exists>x < 256 ^ n. value_at v p = Some x"
proof (induction t p arbitrary: v off rule: locate.induct)
  case (1 t)
  then show ?case by (cases v) auto
next
  case (2 fs f p)
  then obtain vs where v: "v = Fields vs" "fields_have vs fs" by (cases v) auto
  obtain o1 t o2 where f: "field_at 0 fs f = Some (o1, t)" "locate t p = Some (o2, Word n)"
    using 2(3) by (auto split: option.splits)
  obtain w where "map_of vs f = Some w" "has_type w t" using fields_have_field [OF v(2) f(1)] by blast
  then show ?case using 2(1) [OF f(1) _ _ f(2)] v by auto
next
  case (3 k t i p)
  then show ?case by (cases v) (auto split: if_splits intro: nth_mem)
qed simp_all

text \<open>After a constant of the right type was stored, every scalar place has the constant's value.\<close>

lemma read_write_value:
  assumes "wf_type t" "size_of t < 2 ^ 64" "has_type v t" "scalar_width t p \<noteq> None"
  shows "read_at t g (write_value t g [] m v) p = value_at v p"
proof -
  obtain off n where l: "locate t p = Some (off, Word n)"
    using assms(4) by (auto simp: scalar_width_def scalar_at_Some)
  obtain x where x: "x < 256 ^ n" "value_at v p = Some x" using value_at_scalar [OF assms(3) l] by blast
  have "scalar_width t p = Some n" using l by (simp add: scalar_width_def scalar_at_def)
  then show ?thesis
    using x map_of_scalars_rev [OF assms(3), of "[]" p]
    by (simp add: write_value_def field_store.load_stores [OF field_store_struct [OF assms(1,2)]])
qed

section \<open>Structures that do not overlap\<close>

lemma foldl_write_at_frame:
  "wf_type t \<Longrightarrow> apart q k g (size_of t) \<Longrightarrow> read_list (foldl (write_at t g) m ws) q k = read_list m q k"
  by (induction ws arbitrary: m) (simp_all add: write_at_frame)

lemma write_value_frame:
  "wf_type t \<Longrightarrow> apart q k g (size_of t) \<Longrightarrow> read_list (write_value t g pre m v) q k = read_list m q k"
  by (simp add: write_value_def foldl_write_at_frame)

text \<open>A memory change that keeps the bytes of a structure keeps its scalars.\<close>

lemma read_at_cong:
  assumes "wf_type t" "read_list m' g (size_of t) = read_list m g (size_of t)"
  shows "read_at t g m' p = read_at t g m p"
proof (cases "scalar_at t p")
  case None
  then show ?thesis by (simp add: read_at_def)
next
  case (Some x)
  obtain off n where x: "x = (off, n)" by fastforce
  have le: "off + n \<le> size_of t" using scalar_at_inside [OF assms(1)] Some x by simp
  have eq: "m' (g + of_nat i) = m (g + of_nat i)" if "i < size_of t" for i
    using arg_cong [OF assms(2), of "\<lambda>l. l ! i"] that by (simp add: read_list_def)
  have "read_list m' (g + of_nat off) n = read_list m (g + of_nat off) n"
  proof (rule nth_equalityI)
    fix i assume "i < length (read_list m' (g + of_nat off) n)"
    then show "read_list m' (g + of_nat off) n ! i = read_list m (g + of_nat off) n ! i"
      using eq [of "off + i"] le by (simp add: read_list_def algebra_simps)
  qed simp
  then show ?thesis by (simp add: read_at_def Some x)
qed

lemma read_at_apart:
  assumes "wf_type t" "wf_type u" "apart g (size_of t) h (size_of u)"
  shows "read_at t g (foldl (write_at u h) m ws) p = read_at t g m p"
    and "read_at t g (write_value u h pre m v) p = read_at t g m p"
  by (rule read_at_cong; use assms in \<open>simp add: foldl_write_at_frame write_value_frame\<close>)+

end
