(* ===== verification/Self_Reloc.thy ===== *)
theory Self_Reloc
  imports Dtv
begin

text \<open>
  The interpreter's relocation of itself (\<open>src/rtld/impl/src/bootstrap/self_reloc.rs\<close>): the scan of the
  dynamic section, the validation of the relocation tables it names, and their application.  The entry
  formats and the routines \<open>relocate_relative\<close> and \<open>relocate_relr\<close> belong to the ELF crate; they are the
  fields of \<open>reloc_ops\<close>, over an arbitrary memory \<open>'m\<close> and relocation type \<open>'r\<close>.  A relocation routine
  returns the memory it leaves and whether it succeeded.
\<close>

section \<open>Tables\<close>

datatype dyn_tag = DT_NULL | DT_NEEDED | DT_RELA | DT_RELASZ | DT_RELAENT | DT_RELR | DT_RELRSZ | DT_RELRENT
  | DT_JMPREL | DT_PLTRELSZ | DT_INIT | DT_FINI | DT_INIT_ARRAY | DT_INIT_ARRAYSZ | DT_FINI_ARRAY
  | DT_FINI_ARRAYSZ | DT_PREINIT_ARRAY | DT_PREINIT_ARRAYSZ | DT_OTHER int

definition NATIVE_RELOCATION_TAG :: dyn_tag where "NATIVE_RELOCATION_TAG = DT_RELA"
definition NATIVE_RELOCATION_SIZE_TAG :: dyn_tag where "NATIVE_RELOCATION_SIZE_TAG = DT_RELASZ"
definition NATIVE_RELOCATION_ENTRY_SIZE_TAG :: dyn_tag where "NATIVE_RELOCATION_ENTRY_SIZE_TAG = DT_RELAENT"

lemmas native_tags = NATIVE_RELOCATION_TAG_def NATIVE_RELOCATION_SIZE_TAG_def NATIVE_RELOCATION_ENTRY_SIZE_TAG_def

record ('m, 'r) reloc_ops =
  dyn_size :: usize
  rel_size :: usize
  relr_size :: usize
  read_dyn :: "'m \<Rightarrow> usize \<Rightarrow> dyn_tag \<times> usize"
  read_rels :: "'m \<Rightarrow> usize \<Rightarrow> usize \<Rightarrow> 'r list"
  read_relrs :: "'m \<Rightarrow> usize \<Rightarrow> usize \<Rightarrow> usize list"
  r_type :: "'r \<Rightarrow> u32"
  NONE :: u32
  RELATIVE :: u32
  relocate_relative :: "'r list \<Rightarrow> usize \<Rightarrow> 'm \<Rightarrow> 'm \<times> bool"
  relocate_relr :: "usize list \<Rightarrow> usize \<Rightarrow> 'm \<Rightarrow> 'm \<times> bool"

record reloc_table =
  offset :: usize
  tsize :: usize
  ent_size :: usize

record reloc_tables =
  rela :: reloc_table
  relr :: reloc_table
  has_lifecycle :: bool

definition table_empty :: "usize \<Rightarrow> reloc_table" where
  "table_empty es = \<lparr>offset = 0, tsize = 0, ent_size = es\<rparr>"

definition is_empty_table :: "reloc_table \<Rightarrow> bool" where
  "is_empty_table t \<longleftrightarrow> tsize t = 0"

text \<open>\<open>is_multiple_of\<close> with a zero divisor tells whether the value is zero.\<close>

definition is_multiple_of :: "usize \<Rightarrow> usize \<Rightarrow> bool" where
  "is_multiple_of a b = (if b = 0 then a = 0 else a mod b = 0)"

definition validate :: "usize \<Rightarrow> reloc_table \<Rightarrow> reloc_table option" where
  "validate es t =
     (if is_empty_table t then Some (t\<lparr>ent_size := es\<rparr>)
      else if offset t = 0 \<or> ent_size t \<noteq> es \<or> \<not> is_multiple_of (tsize t) (ent_size t) then None
      else Some t)"

definition table_len :: "reloc_table \<Rightarrow> usize" where
  "table_len t = tsize t div ent_size t"

definition lifecycle_tag :: "dyn_tag \<Rightarrow> bool" where
  "lifecycle_tag tag \<longleftrightarrow> tag \<in> {DT_INIT, DT_FINI, DT_INIT_ARRAY, DT_INIT_ARRAYSZ, DT_FINI_ARRAY,
     DT_FINI_ARRAYSZ, DT_PREINIT_ARRAY, DT_PREINIT_ARRAYSZ}"

text \<open>One entry before the terminator: the tables after it, or \<open>None\<close> where the scan gives up.\<close>

definition table_step :: "reloc_tables \<Rightarrow> dyn_tag \<Rightarrow> usize \<Rightarrow> reloc_tables option" where
  "table_step t tag v =
     (if tag = DT_NEEDED then None
      else if tag = NATIVE_RELOCATION_TAG then Some (t\<lparr>rela := (rela t)\<lparr>offset := v\<rparr>\<rparr>)
      else if tag = NATIVE_RELOCATION_SIZE_TAG then Some (t\<lparr>rela := (rela t)\<lparr>tsize := v\<rparr>\<rparr>)
      else if tag = NATIVE_RELOCATION_ENTRY_SIZE_TAG \<and> v \<noteq> 0 then
        Some (t\<lparr>rela := (rela t)\<lparr>ent_size := v\<rparr>\<rparr>)
      else if tag = DT_RELR then Some (t\<lparr>relr := (relr t)\<lparr>offset := v\<rparr>\<rparr>)
      else if tag = DT_RELRSZ then Some (t\<lparr>relr := (relr t)\<lparr>tsize := v\<rparr>\<rparr>)
      else if tag = DT_RELRENT \<and> v \<noteq> 0 then Some (t\<lparr>relr := (relr t)\<lparr>ent_size := v\<rparr>\<rparr>)
      else if (tag = DT_JMPREL \<or> tag = DT_PLTRELSZ) \<and> v \<noteq> 0 then None
      else if lifecycle_tag tag \<and> v \<noteq> 0 then Some (t\<lparr>has_lifecycle := True\<rparr>)
      else Some t)"

definition finish_tables :: "('m, 'r) reloc_ops \<Rightarrow> reloc_tables \<Rightarrow> reloc_tables option" where
  "finish_tables ops t =
     (case validate (rel_size ops) (rela t) of
        None \<Rightarrow> None
      | Some a \<Rightarrow>
          (case validate (relr_size ops) (relr t) of
             None \<Rightarrow> None
           | Some r \<Rightarrow> Some \<lparr>rela = a, relr = r, has_lifecycle = has_lifecycle t\<rparr>))"

function parse_tables_loop ::
  "('m, 'r) reloc_ops \<Rightarrow> 'm \<Rightarrow> usize \<Rightarrow> reloc_tables \<Rightarrow> usize \<Rightarrow> reloc_tables option" where
  "parse_tables_loop ops m dyn t index =
     (if index < 4096 then
        case read_dyn ops m (dyn + index * dyn_size ops) of (tag, v) \<Rightarrow>
          if tag = DT_NULL then finish_tables ops t
          else (case table_step t tag v of
              None \<Rightarrow> None
            | Some t' \<Rightarrow> parse_tables_loop ops m dyn t' (index + 1))
      else None)"
  by pat_completeness auto
termination
proof (relation "measure (\<lambda>(ops, m, dyn, t, index). 4096 - unat index)")
  fix ops :: "('a, 'b) reloc_ops" and m dyn t and index :: usize and x tag v t'
  assume "index < 4096"
  then have "unat (index + 1) = Suc (unat index)" "unat index < 4096"
    using unat_succ_less [of index 4096] by (auto simp: word_less_nat_alt)
  then show "((ops, m, dyn, t', index + 1), (ops, m, dyn, t, index))
      \<in> measure (\<lambda>(ops, m, dyn, t, index). 4096 - unat index)"
    by simp
qed simp

declare parse_tables_loop.simps [simp del]

definition parse_tables :: "('m, 'r) reloc_ops \<Rightarrow> 'm \<Rightarrow> usize \<Rightarrow> reloc_tables option" where
  "parse_tables ops m dyn =
     (if dyn = 0 then None
      else parse_tables_loop ops m dyn
        \<lparr>rela = table_empty (rel_size ops), relr = table_empty (relr_size ops), has_lifecycle = False\<rparr> 0)"

definition tables_can_pass_through :: "reloc_tables \<Rightarrow> bool" where
  "tables_can_pass_through t \<longleftrightarrow> is_empty_table (rela t) \<and> is_empty_table (relr t) \<and> \<not> has_lifecycle t"

section \<open>Application\<close>

text \<open>\<open>slice::split\<close>.\<close>

fun split_slice :: "('a \<Rightarrow> bool) \<Rightarrow> 'a list \<Rightarrow> 'a list list" where
  "split_slice P [] = [[]]"
| "split_slice P (x # xs) =
     (if P x then [] # split_slice P xs
      else case split_slice P xs of [] \<Rightarrow> [[x]] | g # gs \<Rightarrow> (x # g) # gs)"

fun apply_groups :: "('m, 'r) reloc_ops \<Rightarrow> usize \<Rightarrow> 'r list list \<Rightarrow> 'm \<Rightarrow> 'm \<times> bool" where
  "apply_groups ops bias [] m = (m, True)"
| "apply_groups ops bias (g # gs) m =
     (if g = [] then apply_groups ops bias gs m
      else if \<not> list_all (\<lambda>r. r_type ops r = RELATIVE ops) g then (m, False)
      else case relocate_relative ops g bias m of (m', ok) \<Rightarrow>
        if ok then apply_groups ops bias gs m' else (m', False))"

definition apply_tables :: "('m, 'r) reloc_ops \<Rightarrow> reloc_tables \<Rightarrow> usize \<Rightarrow> 'm \<Rightarrow> 'm \<times> bool" where
  "apply_tables ops t bias m =
     (case (if is_empty_table (rela t) then (m, True)
            else apply_groups ops bias
              (split_slice (\<lambda>r. r_type ops r = NONE ops)
                (read_rels ops m (bias + offset (rela t)) (table_len (rela t)))) m) of
        (m1, ok) \<Rightarrow>
          if \<not> ok then (m1, False)
          else if is_empty_table (relr t) then (m1, True)
          else relocate_relr ops (read_relrs ops m1 (bias + offset (relr t)) (table_len (relr t))) bias m1)"

definition relocate :: "('m, 'r) reloc_ops \<Rightarrow> 'm \<Rightarrow> usize \<Rightarrow> usize \<Rightarrow> 'm \<times> bool" where
  "relocate ops m dyn bias =
     (case parse_tables ops m dyn of None \<Rightarrow> (m, False) | Some t \<Rightarrow> apply_tables ops t bias m)"

definition can_pass_through :: "('m, 'r) reloc_ops \<Rightarrow> 'm \<Rightarrow> usize \<Rightarrow> bool" where
  "can_pass_through ops m dyn \<longleftrightarrow>
     dyn = 0 \<or> (case parse_tables ops m dyn of None \<Rightarrow> False | Some t \<Rightarrow> tables_can_pass_through t)"

section \<open>Bootstrap memory\<close>

text \<open>The image memory handed to the relocation routines: addresses are host addresses and need no mapping.\<close>

definition bm_base :: "usize \<Rightarrow> usize" where "bm_base bias = bias"

definition bm_range_at :: "usize \<Rightarrow> usize \<Rightarrow> (usize \<times> usize) option" where "bm_range_at bias a = None"

definition bm_host_ptr :: "usize \<Rightarrow> usize option" where
  "bm_host_ptr a = (if a = 0 then None else Some a)"

definition bm_host_ptr_range :: "usize \<Rightarrow> usize \<Rightarrow> usize option" where
  "bm_host_ptr_range a len =
     (if len \<noteq> 0 then (case checked_add a (len - 1) of None \<Rightarrow> None | Some _ \<Rightarrow> bm_host_ptr a)
      else bm_host_ptr a)"

definition bm_read_bytes :: "mem \<Rightarrow> usize \<Rightarrow> nat \<Rightarrow> bytes" where
  "bm_read_bytes m a n = (if n \<noteq> 0 then read_list m a n else [])"

definition bm_write_bytes :: "mem \<Rightarrow> usize \<Rightarrow> bytes \<Rightarrow> mem" where
  "bm_write_bytes m a src = (if src \<noteq> [] then write_list m a src else m)"

section \<open>Scanning the dynamic section\<close>

text \<open>The entries of a dynamic section before its terminator.\<close>

definition dyn_entries :: "('m, 'r) reloc_ops \<Rightarrow> 'm \<Rightarrow> usize \<Rightarrow> (dyn_tag \<times> usize) list \<Rightarrow> bool" where
  "dyn_entries ops m dyn es \<longleftrightarrow>
     (\<forall>i < length es. read_dyn ops m (dyn + of_nat i * dyn_size ops) = es ! i) \<and> DT_NULL \<notin> fst ` set es"

definition rejected :: "(dyn_tag \<times> usize) list \<Rightarrow> bool" where
  "rejected es \<longleftrightarrow> (\<exists>(t, v) \<in> set es. t = DT_NEEDED \<or> (t = DT_JMPREL \<or> t = DT_PLTRELSZ) \<and> v \<noteq> 0)"

definition last_of :: "dyn_tag \<Rightarrow> (dyn_tag \<times> usize) list \<Rightarrow> usize \<Rightarrow> usize" where
  "last_of tag es d = (case map_of (rev es) tag of None \<Rightarrow> d | Some v \<Rightarrow> v)"

text \<open>What the scan means: for each tag the last value counts, zero entry sizes are ignored.\<close>

definition tables_of :: "('m, 'r) reloc_ops \<Rightarrow> (dyn_tag \<times> usize) list \<Rightarrow> reloc_tables" where
  "tables_of ops es = (let nz = filter (\<lambda>e. snd e \<noteq> 0) es in
     \<lparr>rela = \<lparr>offset = last_of DT_RELA es 0, tsize = last_of DT_RELASZ es 0,
        ent_size = last_of DT_RELAENT nz (rel_size ops)\<rparr>,
      relr = \<lparr>offset = last_of DT_RELR es 0, tsize = last_of DT_RELRSZ es 0,
        ent_size = last_of DT_RELRENT nz (relr_size ops)\<rparr>,
      has_lifecycle = (\<exists>(t, v) \<in> set es. lifecycle_tag t \<and> v \<noteq> 0)\<rparr>)"

lemma last_of_snoc: "last_of tag (es @ [(t, v)]) d = (if t = tag then v else last_of tag es d)"
  by (simp add: last_of_def)

lemma tables_of_snoc:
  "table_step (tables_of ops es) t v =
     (if rejected [(t, v)] then None else Some (tables_of ops (es @ [(t, v)])))"
  by (cases t)
    (auto simp: table_step_def tables_of_def rejected_def native_tags lifecycle_tag_def last_of_snoc Let_def)

lemma rejected_append: "rejected (es @ fs) \<longleftrightarrow> rejected es \<or> rejected fs"
  by (auto simp: rejected_def)

lemma parse_tables_loop_entries:
  assumes "dyn_entries ops m dyn (pre @ post)" "length (pre @ post) \<le> 4096"
  shows "parse_tables_loop ops m dyn (tables_of ops pre) (of_nat (length pre)) =
    (if rejected post then None
     else parse_tables_loop ops m dyn (tables_of ops (pre @ post)) (of_nat (length (pre @ post))))"
  using assms
proof (induction post arbitrary: pre)
  case Nil
  then show ?case by (simp add: rejected_def)
next
  case (Cons e post)
  obtain t v where e: "e = (t, v)" by force
  have n: "length pre < 4096" using Cons.prems(2) by simp
  then have lt: "(of_nat (length pre) :: usize) < 4096"
    using unat_of_nat_usize [of "length pre"] by (simp add: word_less_nat_alt)
  have rd: "read_dyn ops m (dyn + of_nat (length pre) * dyn_size ops) = (t, v)" "t \<noteq> DT_NULL"
    using Cons.prems(1) e unfolding dyn_entries_def by (force simp: nth_append)+
  have step: "parse_tables_loop ops m dyn (tables_of ops pre) (of_nat (length pre)) =
      (if rejected [(t, v)] then None
       else parse_tables_loop ops m dyn (tables_of ops (pre @ [e])) (of_nat (length (pre @ [e]))))"
    using lt rd by (subst parse_tables_loop.simps) (simp add: tables_of_snoc e algebra_simps)
  have "rejected (e # post) \<longleftrightarrow> rejected [(t, v)] \<or> rejected post"
    using rejected_append [of "[(t, v)]" post] e by simp
  with step Cons.IH [of "pre @ [e]"] Cons.prems show ?case by simp
qed

lemma tables_of_Nil:
  "tables_of ops [] = \<lparr>rela = table_empty (rel_size ops), relr = table_empty (relr_size ops), has_lifecycle = False\<rparr>"
  by (simp add: tables_of_def table_empty_def last_of_def)

lemma parse_tables_entries:
  assumes "dyn_entries ops m dyn es" "length es \<le> 4096" "dyn \<noteq> 0"
  shows "parse_tables ops m dyn =
    (if rejected es then None else parse_tables_loop ops m dyn (tables_of ops es) (of_nat (length es)))"
  using parse_tables_loop_entries [of ops m dyn "[]" es] assms by (simp add: parse_tables_def tables_of_Nil)

section \<open>Properties\<close>

text \<open>C15. The scan of the dynamic section returns: it refuses a section with a \<open>DT_NEEDED\<close> entry or PLT
  relocations, or without terminator among its first 4096 entries, and otherwise yields the tables that
  the last values of the tags describe, checked against the entry sizes of the target.\<close>

theorem parse_tables_correct:
  assumes "dyn \<noteq> 0" and "dyn_entries ops m dyn es" and "length es \<le> 4096"
    and "length es < 4096 \<Longrightarrow> fst (read_dyn ops m (dyn + of_nat (length es) * dyn_size ops)) = DT_NULL"
  shows "parse_tables ops m dyn =
    (if rejected es \<or> length es = 4096 then None else finish_tables ops (tables_of ops es))"
proof (cases "length es = 4096")
  case True
  then show ?thesis
    using parse_tables_entries [OF assms(2,3,1)] by (simp add: parse_tables_loop.simps)
next
  case False
  then have n: "length es < 4096" using assms(3) by simp
  then have "(of_nat (length es) :: usize) < 4096"
    using unat_of_nat_usize [of "length es"] by (simp add: word_less_nat_alt)
  moreover obtain v where "read_dyn ops m (dyn + of_nat (length es) * dyn_size ops) = (DT_NULL, v)"
    using assms(4) n by (metis prod.collapse)
  ultimately have "parse_tables_loop ops m dyn (tables_of ops es) (of_nat (length es)) =
      finish_tables ops (tables_of ops es)"
    by (subst parse_tables_loop.simps) simp
  then show ?thesis using parse_tables_entries [OF assms(2,3,1)] False by simp
qed

lemma concat_split_slice: "concat (split_slice P xs) = filter (\<lambda>x. \<not> P x) xs"
  by (induction xs) (auto split: list.split)

lemma apply_groups_fold:
  assumes "\<And>g m. relocate_relative ops g bias m = (fold f g m, True)"
  shows "\<forall>g \<in> set gs. \<forall>r \<in> set g. r_type ops r = RELATIVE ops \<Longrightarrow>
    apply_groups ops bias gs m = (fold f (concat gs) m, True)"
  by (induction gs arbitrary: m) (auto simp: assms list_all_iff)

lemma apply_groups_refuses:
  assumes "g \<in> set gs" "r \<in> set g" "r_type ops r \<noteq> RELATIVE ops"
  shows "\<not> snd (apply_groups ops bias gs m)"
  using assms(1)
proof (induction gs arbitrary: m)
  case Nil
  then show ?case by simp
next
  case (Cons h gs)
  show ?case
  proof (cases "g = h")
    case True
    then have "h \<noteq> []" "\<not> list_all (\<lambda>r. r_type ops r = RELATIVE ops) h"
      using assms(2,3) by (auto simp: list_all_iff)
    then show ?thesis by simp
  next
    case False
    with Cons show ?thesis by (auto split: prod.split)
  qed
qed

text \<open>The relative relocations a table names, and the routine that applies them in order: each one writes
  its word and cannot fail.\<close>

definition rela_entries :: "('m, 'r) reloc_ops \<Rightarrow> reloc_tables \<Rightarrow> usize \<Rightarrow> 'm \<Rightarrow> 'r list" where
  "rela_entries ops t bias m =
     (if is_empty_table (rela t) then [] else read_rels ops m (bias + offset (rela t)) (table_len (rela t)))"

definition relative_in_order :: "('m, 'r) reloc_ops \<Rightarrow> (usize \<Rightarrow> 'r \<Rightarrow> 'm \<Rightarrow> 'm) \<Rightarrow> bool" where
  "relative_in_order ops step \<longleftrightarrow>
     (\<forall>g bias m. relocate_relative ops g bias m = (fold (step bias) g m, True))"

text \<open>C14. Applying the tables relocates exactly the entries that are not \<open>NONE\<close>, in order, before the packed
  relative relocations; when an entry is neither \<open>NONE\<close> nor \<open>RELATIVE\<close>, it fails.\<close>

theorem apply_tables_correct:
  assumes "relative_in_order ops step"
  shows "if \<forall>r \<in> set (rela_entries ops t bias m). r_type ops r = NONE ops \<or> r_type ops r = RELATIVE ops
    then apply_tables ops t bias m =
      (let m1 = fold (step bias) (filter (\<lambda>r. r_type ops r \<noteq> NONE ops) (rela_entries ops t bias m)) m
       in if is_empty_table (relr t) then (m1, True)
          else relocate_relr ops (read_relrs ops m1 (bias + offset (relr t)) (table_len (relr t))) bias m1)
    else \<not> snd (apply_tables ops t bias m)"
proof -
  let ?P = "\<lambda>r. r_type ops r = NONE ops"
  let ?rs = "read_rels ops m (bias + offset (rela t)) (table_len (rela t))"
  have law: "\<And>g m. relocate_relative ops g bias m = (fold (step bias) g m, True)"
    using assms by (simp add: relative_in_order_def)
  have all: "(\<exists>g \<in> set (split_slice ?P ?rs). r \<in> set g) \<longleftrightarrow> r \<in> set ?rs \<and> \<not> ?P r" for r
    using arg_cong [OF concat_split_slice [of ?P ?rs], of set] by auto
  show ?thesis
  proof (cases "\<forall>r \<in> set (rela_entries ops t bias m). ?P r \<or> r_type ops r = RELATIVE ops")
    case True
    have "apply_groups ops bias (split_slice ?P ?rs) m = (fold (step bias) (filter (\<lambda>r. \<not> ?P r) ?rs) m, True)"
      if "\<not> is_empty_table (rela t)"
    proof -
      have "\<forall>g \<in> set (split_slice ?P ?rs). \<forall>r \<in> set g. r_type ops r = RELATIVE ops"
        using True that all by (auto simp: rela_entries_def)
      from apply_groups_fold [where f = "step bias", OF law this] show ?thesis
        by (simp add: concat_split_slice)
    qed
    with True show ?thesis
      by (cases "is_empty_table (rela t)") (simp_all add: apply_tables_def rela_entries_def Let_def)
  next
    case False
    then obtain r where r: "r \<in> set (rela_entries ops t bias m)" "\<not> ?P r" "r_type ops r \<noteq> RELATIVE ops" by blast
    then have ne: "\<not> is_empty_table (rela t)" "r \<in> set ?rs"
      by (auto simp: rela_entries_def split: if_splits)
    then obtain g where "g \<in> set (split_slice ?P ?rs)" "r \<in> set g" using all r(2) by blast
    then have "\<not> snd (apply_groups ops bias (split_slice ?P ?rs) m)" using apply_groups_refuses r(3) by metis
    with False ne show ?thesis by (auto simp: apply_tables_def split: prod.split)
  qed
qed

section \<open>Bootstrap memory and an instance\<close>

text \<open>A range is accepted exactly when it starts at a non-null address and does not wrap around.\<close>

lemma bm_host_ptr_range_iff:
  "bm_host_ptr_range a len = Some p \<longleftrightarrow> a \<noteq> 0 \<and> p = a \<and> unat a + unat len \<le> 2 ^ 64"
proof (cases "len = 0")
  case True
  then show ?thesis using unat_usize_bound [of a] by (auto simp: bm_host_ptr_range_def bm_host_ptr_def)
next
  case False
  then have len: "unat (len - 1) = unat len - 1" "0 < unat len"
    by (simp_all add: unat_minus_one unat_gt_0)
  show ?thesis
  proof (cases "checked_add a (len - 1)")
    case None
    then have "2 ^ 64 \<le> unat a + (unat len - 1)" using len by (simp add: checked_add_None)
    then have "2 ^ 64 < unat a + unat len" using len(2) by linarith
    with None False show ?thesis by (simp add: bm_host_ptr_range_def)
  next
    case (Some c)
    then have "unat a + unat (len - 1) < 2 ^ 64" by (auto simp: checked_add_def split: if_splits)
    with len have "unat a + unat len \<le> 2 ^ 64" by simp
    with Some False show ?thesis by (auto simp: bm_host_ptr_range_def bm_host_ptr_def)
  qed
qed

lemma bm_read_write: "length src < 2 ^ 64 \<Longrightarrow> bm_read_bytes (bm_write_bytes m a src) a (length src) = src"
  by (auto simp: bm_read_bytes_def bm_write_bytes_def read_write_list_same)

lemma bm_write_usize: "bm_write_bytes m a (le_enc 8 (unat v)) = write_usize m a v"
proof -
  have "le_enc 8 (unat v) \<noteq> []" using length_le_enc [of 8 "unat v"] by (metis list.size(3) zero_neq_numeral)
  then show ?thesis by (simp add: bm_write_bytes_def write_usize_def)
qed

text \<open>Relative relocations of the ELF64 format, as offset, type and addend.\<close>

definition demo_step :: "usize \<Rightarrow> usize \<times> u32 \<times> usize \<Rightarrow> mem \<Rightarrow> mem" where
  "demo_step bias r m = (case r of (off, _, addend) \<Rightarrow>
     bm_write_bytes m (bm_base bias + off) (le_enc 8 (unat (bm_base bias + addend))))"

definition demo_reloc_ops :: "(mem, usize \<times> u32 \<times> usize) reloc_ops" where
  "demo_reloc_ops = \<lparr>dyn_size = 16, rel_size = 24, relr_size = 8,
     read_dyn = (\<lambda>m p. if p = 0x1000 then (DT_RELA, 0x500) else if p = 0x1010 then (DT_RELASZ, 48)
       else if p = 0x1020 then (DT_RELAENT, 24) else (DT_NULL, 0)),
     read_rels = (\<lambda>m p n. take (unat n) [(0x2000, 8, 0x30), (0, 0, 0)]),
     read_relrs = (\<lambda>m p n. []), r_type = (\<lambda>r. fst (snd r)), NONE = 0, RELATIVE = 8,
     relocate_relative = (\<lambda>g bias m. (fold (demo_step bias) g m, True)),
     relocate_relr = (\<lambda>es bias m. (m, True))\<rparr>"

definition demo_tables :: reloc_tables where
  "demo_tables = \<lparr>rela = \<lparr>offset = 0x500, tsize = 48, ent_size = 24\<rparr>,
     relr = \<lparr>offset = 0, tsize = 0, ent_size = 8\<rparr>, has_lifecycle = False\<rparr>"

theorem parse_tables_correct_witness: "parse_tables demo_reloc_ops (\<lambda>_. 0) 0x1000 = Some demo_tables"
  using parse_tables_correct [of "0x1000" demo_reloc_ops "\<lambda>_. 0" "[(DT_RELA, 0x500), (DT_RELASZ, 48), (DT_RELAENT, 24)]"]
  by (simp add: dyn_entries_def demo_reloc_ops_def All_less_Suc2 rejected_def finish_tables_def tables_of_def
      last_of_def validate_def is_empty_table_def is_multiple_of_def lifecycle_tag_def demo_tables_def)

theorem apply_tables_correct_witness:
  "apply_tables demo_reloc_ops demo_tables 0x400000 (\<lambda>_. 0) = (write_usize (\<lambda>_. 0) 0x402000 0x400030, True)"
proof -
  have law: "relative_in_order demo_reloc_ops demo_step" by (simp add: relative_in_order_def demo_reloc_ops_def)
  have rs: "rela_entries demo_reloc_ops demo_tables 0x400000 (\<lambda>_. 0) = [(0x2000, 8, 0x30), (0, 0, 0)]"
    by (simp add: rela_entries_def demo_reloc_ops_def demo_tables_def is_empty_table_def table_len_def)
  have ty: "r_type demo_reloc_ops r = fst (snd r)" "NONE demo_reloc_ops = 0" "RELATIVE demo_reloc_ops = 8" for r
    by (simp_all add: demo_reloc_ops_def)
  have "is_empty_table (relr demo_tables)" by (simp add: is_empty_table_def demo_tables_def)
  then show ?thesis
    using apply_tables_correct [OF law, of demo_tables "0x400000" "\<lambda>_. 0"]
    by (simp add: rs ty demo_step_def bm_base_def bm_write_usize)
qed

end
