(* ===== verification/Startup.thy ===== *)
theory Startup
  imports Cli Self_Reloc Debug_List Open
begin

text \<open>
  The start of a program under the interpreter (\<open>src/rtld/impl/src/bootstrap/startup.rs\<close>, \<open>publish.rs\<close> and
  the start-up part of \<open>src/src/runtime/rtld.rs\<close>): self relocation and the parse of the stack, the choice
  between a direct invocation, a kernel-mapped program and a program that needs no linking at all, the
  state published for libc, and the search list of the start-up group.  The kernel's descriptor calls and
  the ELF header in memory are arguments.
\<close>

section \<open>Input\<close>

text \<open>A step of the bootstrap goes on, ends the process with what it wrote, or does not return.\<close>

datatype 'a boot = Boot 'a | Stopped writes int | Stuck

definition RTLD_FATAL_EXIT_STATUS :: int where "RTLD_FATAL_EXIT_STATUS = 127"

record startup_input =
  initial :: initial_stack
  main_load_bias :: usize
  main_dynamic :: usize
  rtld_load_bias :: usize
  direct :: bool

definition startup_new ::
  "('m, 'r) reloc_ops \<Rightarrow> usize \<Rightarrow> (usize \<Rightarrow> elf_phdr) \<Rightarrow> 'm \<Rightarrow> wmem \<Rightarrow> usize \<Rightarrow> usize \<Rightarrow> usize \<Rightarrow>
     ('m \<times> startup_input) boot" where
  "startup_new ops phdr_size read_phdr m wm stack rtld_ehdr rtld_dynamic =
     (case Self_Reloc.relocate ops m rtld_dynamic rtld_ehdr of
        (m1, False) \<Rightarrow> Stopped [] RTLD_FATAL_EXIT_STATUS
      | (m1, True) \<Rightarrow>
          (case parse wm stack of
             None \<Rightarrow> Stuck
           | Some s \<Rightarrow>
               (let bias = load_bias phdr_size read_phdr (aux s);
                    dyn = dynamic phdr_size read_phdr (aux s) bias
                in Boot (m1, \<lparr>initial = s, main_load_bias = bias, main_dynamic = dyn, rtld_load_bias = rtld_ehdr,
                     direct = (base (aux s) = 0 \<or> dyn = rtld_dynamic)\<rparr>))))"

definition pass_through_entry ::
  "('m, 'r) reloc_ops \<Rightarrow> usize \<Rightarrow> (usize \<Rightarrow> elf_phdr) \<Rightarrow> 'm \<Rightarrow> startup_input \<Rightarrow> usize option" where
  "pass_through_entry ops phdr_size read_phdr m inp =
     (if \<not> direct inp \<and> entry (aux (initial inp)) \<noteq> 0 \<and> \<not> has_tls phdr_size read_phdr (aux (initial inp)) \<and>
         can_pass_through ops m (main_dynamic inp)
      then Some (entry (aux (initial inp))) else None)"

section \<open>Published state\<close>

record elf_header =
  e_phentsize :: usize
  e_phoff :: usize
  e_phnum :: usize
  e_entry :: usize

record bootstrap_object =
  obj_load_bias :: usize
  obj_phdr :: usize
  obj_phnum :: usize
  obj_entry :: usize

record bootstrap_state =
  bs_process :: process_stack
  bs_main :: bootstrap_object
  bs_rtld :: bootstrap_object

record ro_aux =
  ro_auxv :: usize
  ro_platform :: usize
  ro_pagesize :: usize
  ro_minsigstacksize :: usize
  ro_clktck :: usize
  ro_fpucw :: usize
  ro_hwcap :: usize
  ro_hwcap2 :: usize
  ro_hwcap3 :: usize
  ro_hwcap4 :: usize
  ro_sysinfo_ehdr :: usize

definition rtld_object :: "usize \<Rightarrow> (usize \<Rightarrow> elf_header) \<Rightarrow> usize \<Rightarrow> bootstrap_object" where
  "rtld_object phdr_size read_ehdr bias =
     (if bias = 0 then \<lparr>obj_load_bias = bias, obj_phdr = 0, obj_phnum = 0, obj_entry = 0\<rparr>
      else let e = read_ehdr bias in
        if e_phentsize e < phdr_size then \<lparr>obj_load_bias = bias, obj_phdr = 0, obj_phnum = 0, obj_entry = 0\<rparr>
        else \<lparr>obj_load_bias = bias, obj_phdr = bias + e_phoff e, obj_phnum = e_phnum e,
               obj_entry = bias + e_entry e\<rparr>)"

definition publish_bootstrap_state ::
  "usize \<Rightarrow> (usize \<Rightarrow> elf_header) \<Rightarrow> process_stack \<Rightarrow> aux_values \<Rightarrow> usize \<Rightarrow> usize \<Rightarrow>
     ro_aux \<times> int \<times> bootstrap_state" where
  "publish_bootstrap_state phdr_size read_ehdr p a main_bias rtld_bias =
     (\<lparr>ro_auxv = auxv p, ro_platform = platform a, ro_pagesize = pagesize a, ro_minsigstacksize = minsigstacksize a,
        ro_clktck = clktck a, ro_fpucw = fpucw a, ro_hwcap = hwcap a, ro_hwcap2 = hwcap2 a, ro_hwcap3 = hwcap3 a,
        ro_hwcap4 = hwcap4 a, ro_sysinfo_ehdr = sysinfo_ehdr a\<rparr>,
      (if secure a = 0 then 0 else 1),
      \<lparr>bs_process = p,
       bs_main = \<lparr>obj_load_bias = main_bias, obj_phdr = phdr a, obj_phnum = phnum a, obj_entry = entry a\<rparr>,
       bs_rtld = rtld_object phdr_size read_ehdr rtld_bias\<rparr>)"

text \<open>The first part of \<open>run\<close>: the process stack of the program, rewritten for a direct invocation, and the
  state published from it.\<close>

definition run_process ::
  "usize \<Rightarrow> (usize \<Rightarrow> elf_header) \<Rightarrow> files \<Rightarrow> mem \<Rightarrow> wmem \<Rightarrow> startup_input \<Rightarrow>
     (wmem \<times> ro_aux \<times> int \<times> bootstrap_state) boot run" where
  "run_process phdr_size read_ehdr fs strings wm inp =
     (if direct inp then
        run_bind (handle_direct_invocation fs strings wm (argc (process (initial inp))) (argv (process (initial inp))))
          (\<lambda>r. Done (case r of
             None \<Rightarrow> Stuck
           | Some (Exit w code) \<Rightarrow> Stopped w code
           | Some (Run d) \<Rightarrow>
               (case rewrite_for_program wm (initial inp) d of
                  None \<Rightarrow> Stuck
                | Some (wm', p) \<Rightarrow>
                    Boot (wm', publish_bootstrap_state phdr_size read_ehdr p (aux (initial inp)) 0 (rtld_load_bias inp)))))
      else Done (Boot (wm, publish_bootstrap_state phdr_size read_ehdr (process (initial inp)) (aux (initial inp))
        (main_load_bias inp) (rtld_load_bias inp))))"

section \<open>Standard descriptors\<close>

definition O_RDONLY :: usize where "O_RDONLY = 0"
definition O_WRONLY :: usize where "O_WRONLY = 1"
definition O_NOFOLLOW :: usize where "O_NOFOLLOW = 0x20000"

record 'k kernel_ops =
  fd_valid :: "'k \<Rightarrow> usize \<Rightarrow> bool"
  openat :: "'k \<Rightarrow> bytes \<Rightarrow> usize \<Rightarrow> 'k \<times> usize option"

text \<open>\<open>None\<close> is the fatal exit.\<close>

definition check_standard_fd :: "'k kernel_ops \<Rightarrow> 'k \<Rightarrow> usize \<Rightarrow> bytes \<Rightarrow> usize \<Rightarrow> 'k option" where
  "check_standard_fd k s fd path flags =
     (if fd_valid k s fd then Some s
      else case openat k s path flags of
          (s', None) \<Rightarrow> None
        | (s', Some got) \<Rightarrow> if got \<noteq> fd then None else Some s')"

definition check_standard_fds_if_secure :: "'k kernel_ops \<Rightarrow> 'k \<Rightarrow> usize \<Rightarrow> 'k option" where
  "check_standard_fds_if_secure k s sec =
     (if sec = 0 then Some s
      else Option.bind (check_standard_fd k s 0 (ascii ''/dev/full'') (O_WRONLY OR O_NOFOLLOW)) (\<lambda>s1.
           Option.bind (check_standard_fd k s1 1 (ascii ''/dev/null'') (O_RDONLY OR O_NOFOLLOW)) (\<lambda>s2.
           check_standard_fd k s2 2 (ascii ''/dev/null'') (O_RDONLY OR O_NOFOLLOW))))"

section \<open>The start-up group\<close>

record startup_state =
  st_main :: usize
  st_maps :: "usize list"
  st_libc_map :: usize

fun collect_maps ::
  "('c, 'i, 'l, 'm, 'y) link_ops \<Rightarrow> (usize \<Rightarrow> usize) \<Rightarrow> usize \<Rightarrow> 'm list \<Rightarrow> usize list \<Rightarrow> usize \<Rightarrow>
     (usize list \<times> usize) run" where
  "collect_maps ops l_addr rtld [] ps libc = Done (ps, libc)"
| "collect_maps ops l_addr rtld (d # ds) ps libc =
     (if \<not> is_elf ops d then collect_maps ops l_addr rtld ds ps libc
      else run_bind (expect (link_map_of ops d)) (\<lambda>p.
        let libc' = (if mod_name ops d = ascii ''libc.so.6'' then p else libc);
            is_rtld = (p = rtld \<or> (rtld \<noteq> 0 \<and> l_addr p = l_addr rtld))
        in collect_maps ops l_addr rtld ds (if is_rtld then ps else ps @ [p]) libc'))"

definition insert_rtld :: "usize \<Rightarrow> usize list \<Rightarrow> usize list" where
  "insert_rtld rtld ps =
     (if rtld \<noteq> 0 then (let at = (if ps = [] then 0 else 1) in take at ps @ rtld # drop at ps) else ps)"

text \<open>\<open>None\<close> stands for the error that the context or the missing link map causes.\<close>

definition startup_state_of ::
  "('c, 'i, 'l, 'm, 'y) link_ops \<Rightarrow> (usize \<Rightarrow> usize) \<Rightarrow> ('c, 'l, 'm) manager \<Rightarrow> 'i \<Rightarrow> usize \<Rightarrow>
     (('c, 'l, 'm) manager \<times> startup_state option) run" where
  "startup_state_of ops l_addr mg root rtld =
     (case promote_global ops (link_ctx mg) root of
        None \<Rightarrow> Done (mg, None)
      | Some c1 \<Rightarrow>
          run_bind (register_initial_aliases ops (mg\<lparr>link_ctx := c1\<rparr>)) (\<lambda>mg1.
          case load_group ops (link_ctx mg1) root of
            (c2, None) \<Rightarrow> Done (mg1\<lparr>link_ctx := c2\<rparr>, None)
          | (c2, Some sc) \<Rightarrow>
              (case Option.bind (first_elf ops sc) (link_map_of ops) of
                 None \<Rightarrow> Done (mg1\<lparr>link_ctx := c2\<rparr>, None)
               | Some main \<Rightarrow>
                   run_bind (collect_maps ops l_addr rtld sc [] 0) (\<lambda>(ps, libc).
                   Done (mg1\<lparr>link_ctx := c2\<rparr>,
                     Some \<lparr>st_main = main, st_maps = insert_rtld rtld ps, st_libc_map = libc\<rparr>)))))"

text \<open>The hook of \<open>link_mapped_root\<close>: the start-up state goes to the bootstrap code, which publishes it;
  \<open>context_error\<close> is the error of a failed \<open>startup_state\<close>.  The hook's own state also keeps the root it was
  called with.\<close>

definition startup_hook ::
  "('c, 'i, 'l, 'm, 'y) link_ops \<Rightarrow> (usize \<Rightarrow> usize) \<Rightarrow> 'e open_error \<Rightarrow>
     (('c, 'l, 'm) manager \<Rightarrow> 'w \<Rightarrow> startup_state \<Rightarrow> 'w \<times> 'e open_error option) \<Rightarrow> usize \<Rightarrow>
     ('c, 'i, 'l, 'm, 'e, 'i option \<times> 'w) hook" where
  "startup_hook ops l_addr context_error before_init rtld mg x root =
     run_bind (startup_state_of ops l_addr mg root rtld) (\<lambda>(mg1, r).
     case r of
       None \<Rightarrow> Done (mg1, (Some root, snd x), Some context_error)
     | Some st \<Rightarrow> (let (w, answer) = before_init mg1 (snd x) st in Done (mg1, (Some root, w), answer)))"

text \<open>\<open>rsplit(['/', '\\']).next()\<close> is the part after the last separator.\<close>

definition root_key :: "bytes \<Rightarrow> bytes" where
  "root_key name = (if name = [] then ascii ''main''
     else rev (takeWhile (\<lambda>b. b \<noteq> 47 \<and> b \<noteq> 92) (rev name)))"

text \<open>The modules that \<open>finalize_startup\<close> finalises, in order; the recorded root is taken.\<close>

definition finalize_startup ::
  "('c, 'i, 'l, 'm, 'y) link_ops \<Rightarrow> ('c, 'l, 'm) manager \<Rightarrow> 'i option \<Rightarrow> ('c, 'l, 'm) manager \<times> 'i option \<times> 'm list" where
  "finalize_startup ops mg startup_root =
     (case startup_root of
        None \<Rightarrow> (mg, None, [])
      | Some root \<Rightarrow>
          (case load_group ops (link_ctx mg) root of
             (c, None) \<Rightarrow> (mg\<lparr>link_ctx := c\<rparr>, None, [])
           | (c, Some sc) \<Rightarrow> (mg\<lparr>link_ctx := c\<rparr>, None, sc)))"

section \<open>Properties\<close>

text \<open>C9. Starting the interpreter directly with options, a program and its arguments prepares the process as if
  the program had been started itself: the words on the stack are those of the program's own start with its
  name (or the string given with \<open>--argv0\<close>) as first argument, the pointers handed on describe that stack,
  and the path to execute is the program's.\<close>

theorem direct_start_as_program:
  assumes "process_layout wm p ps env kvs fin"
    and "args_at strings wm (p + 8) ps (prog # concat (map option_words opts) @ target # rest)"
    and "list_all option_ok opts" and "target = [] \<or> hd target \<noteq> 45"
    and "direct inp" and "parse wm p = Some (initial inp)"
  shows "\<exists>wm'. let i = 1 + length (concat (map option_words opts));
      args' = program_args ps i (options_argv0 ps 1 opts 0);
      q = \<lparr>argc = of_nat (length args'), argv = p + 8, envp = envp_of p args', auxv = auxv_of p args' env,
        exec_path = ps ! i\<rparr> in
    run_process phdr_size read_ehdr fs strings wm inp =
      Done (Boot (wm', publish_bootstrap_state phdr_size read_ehdr q (aux (initial inp)) 0 (rtld_load_bias inp))) \<and>
    process_layout wm' p args' env kvs fin"
proof -
  let ?i = "1 + length (concat (map option_words opts))" and ?a0 = "options_argv0 ps 1 opts 0"
  have proc: "process (initial inp) = \<lparr>argc = of_nat (length ps), argv = p + 8, envp = envp_of p ps,
      auxv = auxv_of p ps env, exec_path = 0\<rparr>"
    using layout_parse [OF assms(1)] assms(6) by simp
  have "length ps = length (prog # concat (map option_words opts) @ target # rest)"
    using assms(2) by (auto simp: args_at_def dest: list_all2_lengthD)
  then have i: "?i < length ps" by simp
  have h: "handle_direct_invocation fs strings wm (of_nat (length ps)) (p + 8) =
      Done (Some (Run \<lparr>argv_index = of_nat ?i, argv0 = ?a0\<rparr>))"
    by (rule handle_direct_invocation_options [OF assms(2-4)])
  obtain wm' where "rewrite_for_program wm (initial inp) \<lparr>argv_index = of_nat ?i, argv0 = ?a0\<rparr> =
      Some (wm', \<lparr>argc = of_nat (length (program_args ps ?i ?a0)), argv = p + 8,
        envp = envp_of p (program_args ps ?i ?a0), auxv = auxv_of p (program_args ps ?i ?a0) env,
        exec_path = ps ! ?i\<rparr>)"
    "process_layout wm' p (program_args ps ?i ?a0) env kvs fin"
    using rewrite_layout [OF assms(1,6) i, of ?a0] by (auto simp: Let_def)
  then show ?thesis using assms(5) h by (auto simp: run_process_def proc Let_def)
qed

text \<open>The contract of \<open>openat\<close>: a new descriptor is the lowest one that is not open, and the others stay open.\<close>

definition lowest_fd :: "'k kernel_ops \<Rightarrow> bool" where
  "lowest_fd k \<longleftrightarrow> (\<forall>s path flags s' fd. openat k s path flags = (s', Some fd) \<longrightarrow>
     \<not> fd_valid k s fd \<and> (\<forall>x < fd. fd_valid k s x) \<and> fd_valid k s' fd \<and> (\<forall>x. fd_valid k s x \<longrightarrow> fd_valid k s' x))"

text \<open>Opening the two device files succeeds while one of the descriptors 0, 1 and 2 is closed.\<close>

definition opens_standard :: "'k kernel_ops \<Rightarrow> bool" where
  "opens_standard k \<longleftrightarrow>
     (\<forall>s path flags x. x < 3 \<longrightarrow> \<not> fd_valid k s x \<longrightarrow> snd (openat k s path flags) \<noteq> None)"

lemma check_standard_fd_opens:
  assumes "lowest_fd k" "opens_standard k" "fd < 3" "\<And>x. x < fd \<Longrightarrow> fd_valid k s x"
  shows "\<exists>s'. check_standard_fd k s fd path flags = Some s' \<and> fd_valid k s' fd \<and>
    (\<forall>x. fd_valid k s x \<longrightarrow> fd_valid k s' x)"
proof (cases "fd_valid k s fd")
  case True
  then show ?thesis by (simp add: check_standard_fd_def)
next
  case False
  obtain s' got where o: "openat k s path flags = (s', Some got)"
    using assms(2,3) False unfolding opens_standard_def by (metis option.exhaust prod.collapse)
  then have g: "\<not> fd_valid k s got" "\<forall>x < got. fd_valid k s x" "fd_valid k s' got" "\<forall>x. fd_valid k s x \<longrightarrow> fd_valid k s' x"
    using assms(1) unfolding lowest_fd_def by blast+
  have "got = fd" using g(1,2) assms(4) False by (meson linorder_neqE)
  with o g False show ?thesis by (simp add: check_standard_fd_def)
qed

text \<open>In a set-user-id program the descriptors 0, 1 and 2 are open after the check, whichever of them were
  closed before, and no other descriptor is closed by it.\<close>

theorem secure_fds_open:
  assumes "lowest_fd k" and "opens_standard k" and "sec \<noteq> 0"
  shows "\<exists>s'. check_standard_fds_if_secure k s sec = Some s' \<and>
    fd_valid k s' 0 \<and> fd_valid k s' 1 \<and> fd_valid k s' 2 \<and> (\<forall>x. fd_valid k s x \<longrightarrow> fd_valid k s' x)"
proof -
  obtain s1 where s1: "check_standard_fd k s 0 (ascii ''/dev/full'') (O_WRONLY OR O_NOFOLLOW) = Some s1"
    "fd_valid k s1 0" "\<forall>x. fd_valid k s x \<longrightarrow> fd_valid k s1 x"
    using check_standard_fd_opens [OF assms(1,2), of 0 s] by fastforce
  have "fd_valid k s1 x" if "x < 1" for x using that s1(2) by (simp add: word_less_nat_alt unat_eq_0)
  then obtain s2 where s2: "check_standard_fd k s1 1 (ascii ''/dev/null'') (O_RDONLY OR O_NOFOLLOW) = Some s2"
    "fd_valid k s2 1" "\<forall>x. fd_valid k s1 x \<longrightarrow> fd_valid k s2 x"
    using check_standard_fd_opens [OF assms(1,2), of 1 s1] by fastforce
  have "fd_valid k s2 x" if "x < 2" for x
  proof -
    have "unat x = 0 \<or> unat x = 1" using that by (auto simp: word_less_nat_alt)
    then have "x = 0 \<or> x = 1" by (auto simp: word_unat_eq_iff)
    then show ?thesis using s1(2) s2(2,3) by blast
  qed
  then obtain s3 where s3: "check_standard_fd k s2 2 (ascii ''/dev/null'') (O_RDONLY OR O_NOFOLLOW) = Some s3"
    "fd_valid k s3 2" "\<forall>x. fd_valid k s2 x \<longrightarrow> fd_valid k s3 x"
    using check_standard_fd_opens [OF assms(1,2), of 2 s2] by fastforce
  then show ?thesis using assms(3) s1 s2 by (auto simp: check_standard_fds_if_secure_def)
qed

text \<open>The start-up hook leaves handles and counters alone, as the roll-back of an open requires.\<close>

lemma add_alias_counters:
  "add_alias ops mg i a = Done mg' \<Longrightarrow> adds mg' = adds mg \<and> subs mg' = subs mg \<and> handles mg' = handles mg"
  by (auto simp: add_alias_def run_bind_Done split: split_asms)

lemma add_aliases_counters:
  "add_aliases ops mg i as = Done mg' \<Longrightarrow> adds mg' = adds mg \<and> subs mg' = subs mg \<and> handles mg' = handles mg"
proof (induction as arbitrary: mg)
  case Nil
  then show ?case by simp
next
  case (Cons a as)
  then obtain mg1 where "add_alias ops mg i a = Done mg1" "add_aliases ops mg1 i as = Done mg'" by (auto simp: run_bind_Done)
  with Cons.IH show ?case using add_alias_counters by metis
qed

lemma register_aliases_counters:
  "register_aliases_loop ops mg ns = Done mg' \<Longrightarrow> adds mg' = adds mg \<and> subs mg' = subs mg \<and> handles mg' = handles mg"
proof (induction ns arbitrary: mg)
  case Nil
  then show ?case by simp
next
  case (Cons n ns)
  show ?case
  proof (cases "module_id ops (link_ctx mg) n")
    case None
    then show ?thesis using Cons by simp
  next
    case (Some i)
    then obtain mg1 where "add_aliases ops mg i (libc_compat_aliases n) = Done mg1" "register_aliases_loop ops mg1 ns = Done mg'"
      using Cons.prems by (auto simp: run_bind_Done)
    with Cons.IH show ?thesis using add_aliases_counters by metis
  qed
qed

lemma startup_state_counters:
  assumes "startup_state_of ops l_addr mg root rtld = Done (mg', r)"
  shows "adds mg' = adds mg \<and> subs mg' = subs mg \<and> handles mg' = handles mg"
proof (cases "promote_global ops (link_ctx mg) root")
  case None
  then show ?thesis using assms by (simp add: startup_state_of_def)
next
  case (Some c1)
  then obtain mg1 where a: "register_initial_aliases ops (mg\<lparr>link_ctx := c1\<rparr>) = Done mg1"
    using assms by (auto simp: startup_state_of_def run_bind_Done)
  have "\<exists>c. mg' = mg1\<lparr>link_ctx := c\<rparr>"
    using assms Some a by (fastforce simp: startup_state_of_def run_bind_Done split: prod.split_asm option.split_asm)
  then show ?thesis using register_aliases_counters [OF a [unfolded register_initial_aliases_def]] by auto
qed

lemma hook_keeps_startup: "hook_keeps (startup_hook ops l_addr err before_init rtld)"
  unfolding hook_keeps_def startup_hook_def run_bind_Done
  using startup_state_counters by (fastforce simp: Let_def split: option.split_asm prod.split_asm)

text \<open>The link maps of the ELF modules of a group, and the ones that are the interpreter's own.\<close>

definition scope_maps :: "('c, 'i, 'l, 'm, 'y) link_ops \<Rightarrow> 'm list \<Rightarrow> usize list" where
  "scope_maps ops sc = map (\<lambda>d. the (link_map_of ops d)) (filter (is_elf ops) sc)"

definition rtld_map :: "(usize \<Rightarrow> usize) \<Rightarrow> usize \<Rightarrow> usize \<Rightarrow> bool" where
  "rtld_map l_addr rtld p \<longleftrightarrow> p = rtld \<or> (rtld \<noteq> 0 \<and> l_addr p = l_addr rtld)"

lemma collect_maps_Done:
  "collect_maps ops l_addr rtld sc ps libc = Done (qs, libc') \<Longrightarrow>
     qs = ps @ filter (\<lambda>p. \<not> rtld_map l_addr rtld p) (scope_maps ops sc)"
proof (induction sc arbitrary: ps libc)
  case Nil
  then show ?case by (simp add: scope_maps_def)
next
  case (Cons d ds)
  show ?case
  proof (cases "is_elf ops d")
    case False
    with Cons show ?thesis by (simp add: scope_maps_def)
  next
    case True
    with Cons.prems obtain p where p: "link_map_of ops d = Some p"
      by (auto simp: run_bind_Done expect_Done)
    have "qs = (if rtld_map l_addr rtld p then ps else ps @ [p]) @
        filter (\<lambda>p. \<not> rtld_map l_addr rtld p) (scope_maps ops ds)"
      by (rule Cons.IH) (use Cons.prems True p in \<open>simp add: Let_def rtld_map_def\<close>)
    with True p show ?thesis by (simp add: scope_maps_def)
  qed
qed


section \<open>Examples\<close>

definition demo_input :: startup_input where
  "demo_input = \<lparr>initial = the (parse demo_stack 0x7000), main_load_bias = 0, main_dynamic = 0,
     rtld_load_bias = 0x400000, direct = True\<rparr>"

text \<open>The strings behind the stack of \<open>Stack\<close>'s example, 16 bytes apart: \<open>ld.so --argv0 x prog arg\<close>.\<close>

definition demo_names :: "string list" where
  "demo_names = [''ld.so'', ''--argv0'', ''x'', ''prog'', ''arg'']"

definition demo_bytes :: mem where
  "demo_bytes a = (let t = concat (map (\<lambda>s. ascii s @ replicate (16 - length s) 0) demo_names); i = unat (a - 0x10)
     in if i < length t then t ! i else 0)"

lemma demo_start_args:
  "args_at demo_bytes demo_stack (0x7000 + 8) [0x10, 0x20, 0x30, 0x40, 0x50]
     (ascii ''ld.so'' # concat (map option_words [Argv0 (ascii ''x'')]) @ ascii ''prog'' # [ascii ''arg''])"
proof -
  have "list_all2 (cstr_at demo_bytes) [0x10, 0x20, 0x30, 0x40, 0x50]
     [ascii ''ld.so'', ascii ''--argv0'', ascii ''x'', ascii ''prog'', ascii ''arg'']"
    by (simp add: cstr_at_def demo_bytes_def demo_names_def ascii_def Let_def nth_append)
  moreover have "words_at demo_stack (0x7000 + 8) [0x10, 0x20, 0x30, 0x40, 0x50]"
    using process_layout_parts(2) [OF demo_stack_layout] by simp
  ultimately show ?thesis by (simp add: args_at_def)
qed

theorem direct_start_as_program_witness:
  "\<exists>wm' ro sec st. run_process 56 (\<lambda>_. \<lparr>e_phentsize = 56, e_phoff = 64, e_phnum = 3, e_entry = 0x100\<rparr>)
       (\<lambda>_. None) demo_bytes demo_stack demo_input = Done (Boot (wm', ro, sec, st)) \<and>
     process_layout wm' 0x7000 [0x30, 0x50] [0x60] demo_kvs 0 \<and> exec_path (bs_process st) = 0x40"
proof -
  have i: "parse demo_stack 0x7000 = Some (initial demo_input)" "direct demo_input"
    using layout_parse [OF demo_stack_layout] by (simp_all add: demo_input_def)
  show ?thesis
    using direct_start_as_program [OF demo_stack_layout demo_start_args _ _ i(2,1), of 56
        "\<lambda>_. \<lparr>e_phentsize = 56, e_phoff = 64, e_phnum = 3, e_entry = 0x100\<rparr>" "\<lambda>_. None"]
    by (auto simp: program_args_def Let_def publish_bootstrap_state_def ascii_def)
qed

text \<open>A kernel that keeps which of the descriptors 0, 1 and 2 are open.\<close>

definition demo_kernel :: "(bool \<times> bool \<times> bool) kernel_ops" where
  "demo_kernel = \<lparr>fd_valid = (\<lambda>(a, b, c) fd. if fd = 0 then a else if fd = 1 then b else if fd = 2 then c else True),
     openat = (\<lambda>(a, b, c) path flags.
       if \<not> a then ((True, b, c), Some 0) else if \<not> b then ((a, True, c), Some 1)
       else if \<not> c then ((a, b, True), Some 2) else ((a, b, c), None))\<rparr>"

lemma word_below:
  "(x :: usize) < 1 \<longleftrightarrow> x = 0" "(x :: usize) < 2 \<longleftrightarrow> x = 0 \<or> x = 1" "(x :: usize) < 3 \<longleftrightarrow> x = 0 \<or> x = 1 \<or> x = 2"
  by (auto simp: word_less_nat_alt word_unat_eq_iff)

lemma demo_kernel_laws: "lowest_fd demo_kernel" "opens_standard demo_kernel"
  by (auto simp: lowest_fd_def opens_standard_def demo_kernel_def word_below split: if_splits)

theorem secure_fds_open_witness: "check_standard_fds_if_secure demo_kernel (True, False, False) 1 = Some (True, True, True)"
proof -
  obtain s' where "check_standard_fds_if_secure demo_kernel (True, False, False) 1 = Some s'"
    "fd_valid demo_kernel s' 0" "fd_valid demo_kernel s' 1" "fd_valid demo_kernel s' 2"
    using secure_fds_open [OF demo_kernel_laws, of 1 "(True, False, False)"] by auto
  then show ?thesis by (cases s') (auto simp: demo_kernel_def)
qed

lemma demo_startup_state:
  "startup_state_of demo_ops (\<lambda>p. p) demo_manager 7 0x1000 =
     Done (demo_manager, Some \<lparr>st_main = 0x7000, st_maps = [0x7000, 0x1000], st_libc_map = 0\<rparr>)"
  by (simp add: startup_state_of_def demo_ops_def demo_manager_def register_initial_aliases_def first_elf_def
      insert_rtld_def ascii_def)


end
