(* ===== verification/Rtld_Global.thy ===== *)
theory Rtld_Global
  imports C_Layout Startup Tls
begin

text \<open>
  The private structures through which glibc 2.39 talks to its interpreter (\<open>src/rtld/impl/src/glibc/v2_39/mod.rs\<close>),
  their initial contents, and the functions that publish the state of the start-up in them
  (\<open>src/rtld/impl/src/globals.rs\<close>, \<open>publish_loaded_globals\<close> of \<open>bootstrap/publish.rs\<close>).  The statics live in the byte
  memory at given addresses; their fields are places of the layouts of \<open>C_Layout\<close>.  The addresses of exported
  functions are arguments.
\<close>

section \<open>Structures\<close>

definition DL_NNS :: nat where "DL_NNS = 16"
definition EXEC_PAGESIZE :: usize where "EXEC_PAGESIZE = 4096"
definition FPU_DEFAULT :: nat where "FPU_DEFAULT = 0x037f"
definition PTHREAD_MUTEX_RECURSIVE_NP :: nat where "PTHREAD_MUTEX_RECURSIVE_NP = 1"
definition STDERR_FILENO :: nat where "STDERR_FILENO = 2"
definition X86_CPU_FEATURES_SIZE :: nat where "X86_CPU_FEATURES_SIZE = 528"
definition DEFAULT_STACK_PROT_FLAGS :: nat where "DEFAULT_STACK_PROT_FLAGS = 3"

lemmas rtld_consts = DL_NNS_def EXEC_PAGESIZE_def FPU_DEFAULT_def PTHREAD_MUTEX_RECURSIVE_NP_def STDERR_FILENO_def
  X86_CPU_FEATURES_SIZE_def DEFAULT_STACK_PROT_FLAGS_def

text \<open>Pointers, \<open>usize\<close> and \<open>u64\<close> take 8 bytes, \<open>c_int\<close> and \<open>u32\<close> 4, \<open>u16\<close> and \<open>i16\<close> 2, \<open>bool\<close> and \<open>u8\<close> 1.\<close>

definition RtldScopeElem :: ctype where
  "RtldScopeElem = Struct [(''list'', Word 8), (''nlist'', Word 4), (''_padding'', Word 4)]"

definition RtldList :: ctype where
  "RtldList = Struct [(''next'', Word 8), (''prev'', Word 8)]"

definition RtldPthreadMutex :: ctype where
  "RtldPthreadMutex = Struct [(''lock'', Word 4), (''count'', Word 4), (''owner'', Word 4), (''nusers'', Word 4),
     (''kind'', Word 4), (''spins'', Word 2), (''elision'', Word 2), (''list'', RtldList)]"

definition RtldRecursiveLock :: ctype where
  "RtldRecursiveLock = Struct [(''mutex'', RtldPthreadMutex)]"

definition RtldUniqueSymTable :: ctype where
  "RtldUniqueSymTable = Struct [(''lock'', RtldRecursiveLock), (''entries'', Word 8), (''size'', Word 8),
     (''n_elements'', Word 8), (''free'', Word 8)]"

definition RtldLinkNamespace :: ctype where
  "RtldLinkNamespace = Struct [(''loaded'', Word 8), (''nloaded'', Word 4), (''_padding_after_nloaded'', Word 4),
     (''main_searchlist'', Word 8), (''global_scope_alloc'', Word 4), (''global_scope_pending_adds'', Word 4),
     (''libc_map'', Word 8), (''unique_sym_table'', RtldUniqueSymTable)]"

definition RtldX86FeatureControl :: ctype where
  "RtldX86FeatureControl = Struct [(''bits'', Word 4)]"

definition RtldGlobal :: ctype where
  "RtldGlobal = Struct [(''dl_ns'', Arr DL_NNS RtldLinkNamespace), (''dl_nns'', Word 8),
     (''dl_load_lock'', RtldRecursiveLock), (''dl_load_write_lock'', RtldRecursiveLock),
     (''dl_load_tls_lock'', RtldRecursiveLock), (''dl_load_adds'', Word 8), (''dl_initfirst'', Word 8),
     (''dl_profile_map'', Word 8), (''dl_num_relocations'', Word 8), (''dl_num_cache_relocations'', Word 8),
     (''dl_all_dirs'', Word 8), (''dl_x86_feature_1'', Word 4), (''dl_x86_feature_control'', RtldX86FeatureControl),
     (''dl_stack_prot_flags'', Word 4), (''dl_tls_dtv_gaps'', Word 1), (''_padding_after_tls_dtv_gaps'', Arr 3 (Word 1)),
     (''dl_tls_max_dtv_idx'', Word 8), (''dl_tls_dtv_slotinfo_list'', Word 8), (''dl_tls_static_nelem'', Word 8),
     (''dl_tls_static_used'', Word 8), (''dl_tls_static_optional'', Word 8), (''dl_initial_dtv'', Word 8),
     (''dl_tls_generation'', Word 8), (''dl_scope_free_list'', Word 8), (''dl_stack_used'', RtldList),
     (''dl_stack_user'', RtldList), (''dl_stack_cache'', RtldList), (''dl_stack_cache_actsize'', Word 8),
     (''dl_in_flight_stack'', Word 8), (''dl_stack_cache_lock'', Word 4), (''_tail_padding'', Word 4)]"

definition RtldGlobalRo :: ctype where
  "RtldGlobalRo = Struct [(''dl_debug_mask'', Word 4), (''_padding_after_debug_mask'', Word 4), (''dl_platform'', Word 8),
     (''dl_platformlen'', Word 8), (''dl_pagesize'', Word 8), (''dl_minsigstacksize'', Word 8),
     (''dl_inhibit_cache'', Word 4), (''_padding_after_inhibit_cache'', Word 4), (''dl_initial_searchlist'', RtldScopeElem),
     (''dl_clktck'', Word 4), (''dl_verbose'', Word 4), (''dl_debug_fd'', Word 4), (''dl_lazy'', Word 4),
     (''dl_bind_not'', Word 4), (''dl_dynamic_weak'', Word 4), (''dl_fpu_control'', Word 2),
     (''_padding_after_fpu_control'', Arr 6 (Word 1)), (''dl_hwcap'', Word 8), (''dl_auxv'', Word 8),
     (''dl_x86_cpu_features'', Arr X86_CPU_FEATURES_SIZE (Word 1)), (''dl_x86_tlsdesc_dynamic'', Word 8),
     (''dl_x86_64_runtime_resolve'', Word 8), (''dl_inhibit_rpath'', Word 8), (''dl_origin_path'', Word 8),
     (''dl_tls_static_size'', Word 8), (''dl_tls_static_align'', Word 8), (''dl_tls_static_surplus'', Word 8),
     (''dl_profile'', Word 8), (''dl_profile_output'', Word 8), (''dl_init_all_dirs'', Word 8), (''dl_sysinfo_dso'', Word 8),
     (''dl_sysinfo_map'', Word 8), (''dl_vdso_clock_gettime64'', Word 8), (''dl_vdso_gettimeofday'', Word 8),
     (''dl_vdso_time'', Word 8), (''dl_vdso_getcpu'', Word 8), (''dl_vdso_clock_getres_time64'', Word 8),
     (''dl_vdso_getrandom'', Word 8), (''dl_hwcap2'', Word 8), (''dl_hwcap3'', Word 8), (''dl_hwcap4'', Word 8),
     (''dl_dso_sort_algo'', Word 4), (''_padding_after_dso_sort_algo'', Word 4), (''dl_debug_printf'', Word 8),
     (''dl_mcount'', Word 8), (''dl_lookup_symbol_x'', Word 8), (''dl_open'', Word 8), (''dl_close'', Word 8),
     (''dl_catch_error'', Word 8), (''dl_error_free'', Word 8), (''dl_tls_get_addr_soft'', Word 8),
     (''dl_libc_freeres'', Word 8), (''dl_find_object'', Word 8), (''dl_readonly_area'', Word 8), (''dl_dlfcn_hook'', Word 8),
     (''dl_audit'', Word 8), (''dl_naudit'', Word 4), (''_tail_padding'', Word 4)]"

lemmas rtld_types = RtldScopeElem_def RtldList_def RtldPthreadMutex_def RtldRecursiveLock_def RtldUniqueSymTable_def
  RtldLinkNamespace_def RtldX86FeatureControl_def RtldGlobal_def RtldGlobalRo_def

lemma rtld_wf: "wf_type RtldGlobal" "wf_type RtldGlobalRo"
  by (simp_all add: rtld_types)

text \<open>Sizes and alignments of the parts, for the layouts of the two statics.\<close>

lemma rtld_parts [simp]:
  "size_of RtldScopeElem = 16" "align_of RtldScopeElem = 8"
  "size_of RtldList = 16" "align_of RtldList = 8"
  "size_of RtldPthreadMutex = 40" "align_of RtldPthreadMutex = 8"
  "size_of RtldRecursiveLock = 40" "align_of RtldRecursiveLock = 8"
  "size_of RtldUniqueSymTable = 72" "align_of RtldUniqueSymTable = 8"
  "size_of RtldLinkNamespace = 112" "align_of RtldLinkNamespace = 8"
  "size_of RtldX86FeatureControl = 4" "align_of RtldX86FeatureControl = 4"
  by (simp_all add: rtld_types round_up_def)

lemma rtld_sizes: "size_of RtldGlobal = 2120" "size_of RtldGlobalRo = 928"
  by (simp_all add: RtldGlobal_def RtldGlobalRo_def rtld_consts round_up_def)

interpretation global_vars: field_store "scalar_width RtldGlobal" "read_at RtldGlobal g" "write_at RtldGlobal g" for g
  by (rule field_store_struct) (simp_all add: rtld_wf rtld_sizes)

interpretation global_ro_vars: field_store "scalar_width RtldGlobalRo" "read_at RtldGlobalRo g" "write_at RtldGlobalRo g" for g
  by (rule field_store_struct) (simp_all add: rtld_wf rtld_sizes)

section \<open>Initial contents\<close>

definition RtldScopeElem_ZERO :: cval where
  "RtldScopeElem_ZERO = Fields [(''list'', Num 0), (''nlist'', Num 0), (''_padding'', Num 0)]"

definition RtldList_ZERO :: cval where
  "RtldList_ZERO = Fields [(''next'', Num 0), (''prev'', Num 0)]"

definition RtldPthreadMutex_RECURSIVE :: cval where
  "RtldPthreadMutex_RECURSIVE = Fields [(''lock'', Num 0), (''count'', Num 0), (''owner'', Num 0), (''nusers'', Num 0),
     (''kind'', Num PTHREAD_MUTEX_RECURSIVE_NP), (''spins'', Num 0), (''elision'', Num 0), (''list'', RtldList_ZERO)]"

definition RtldRecursiveLock_RECURSIVE :: cval where
  "RtldRecursiveLock_RECURSIVE = Fields [(''mutex'', RtldPthreadMutex_RECURSIVE)]"

definition RtldUniqueSymTable_ZERO :: cval where
  "RtldUniqueSymTable_ZERO = Fields [(''lock'', RtldRecursiveLock_RECURSIVE), (''entries'', Num 0), (''size'', Num 0),
     (''n_elements'', Num 0), (''free'', Num 0)]"

definition RtldLinkNamespace_ZERO :: cval where
  "RtldLinkNamespace_ZERO = Fields [(''loaded'', Num 0), (''nloaded'', Num 0), (''_padding_after_nloaded'', Num 0),
     (''main_searchlist'', Num 0), (''global_scope_alloc'', Num 0), (''global_scope_pending_adds'', Num 0),
     (''libc_map'', Num 0), (''unique_sym_table'', RtldUniqueSymTable_ZERO)]"

definition RtldX86FeatureControl_DEFAULT :: cval where
  "RtldX86FeatureControl_DEFAULT = Fields [(''bits'', Num 0)]"

definition RtldGlobal_new :: cval where
  "RtldGlobal_new = Fields [(''dl_ns'', Elems (replicate DL_NNS RtldLinkNamespace_ZERO)), (''dl_nns'', Num 1),
     (''dl_load_lock'', RtldRecursiveLock_RECURSIVE), (''dl_load_write_lock'', RtldRecursiveLock_RECURSIVE),
     (''dl_load_tls_lock'', RtldRecursiveLock_RECURSIVE), (''dl_load_adds'', Num 0), (''dl_initfirst'', Num 0),
     (''dl_profile_map'', Num 0), (''dl_num_relocations'', Num 0), (''dl_num_cache_relocations'', Num 0),
     (''dl_all_dirs'', Num 0), (''dl_x86_feature_1'', Num 0),
     (''dl_x86_feature_control'', RtldX86FeatureControl_DEFAULT),
     (''dl_stack_prot_flags'', Num DEFAULT_STACK_PROT_FLAGS), (''dl_tls_dtv_gaps'', Num 0),
     (''_padding_after_tls_dtv_gaps'', Elems (replicate 3 (Num 0))),
     (''dl_tls_max_dtv_idx'', Num 0), (''dl_tls_dtv_slotinfo_list'', Num 0), (''dl_tls_static_nelem'', Num 0),
     (''dl_tls_static_used'', Num 0), (''dl_tls_static_optional'', Num 0), (''dl_initial_dtv'', Num 0),
     (''dl_tls_generation'', Num 1), (''dl_scope_free_list'', Num 0), (''dl_stack_used'', RtldList_ZERO),
     (''dl_stack_user'', RtldList_ZERO), (''dl_stack_cache'', RtldList_ZERO), (''dl_stack_cache_actsize'', Num 0),
     (''dl_in_flight_stack'', Num 0), (''dl_stack_cache_lock'', Num 0), (''_tail_padding'', Num 0)]"

definition RtldGlobalRo_new :: cval where
  "RtldGlobalRo_new = Fields [(''dl_debug_mask'', Num 0), (''_padding_after_debug_mask'', Num 0), (''dl_platform'', Num 0),
     (''dl_platformlen'', Num 0), (''dl_pagesize'', Num (unat EXEC_PAGESIZE)), (''dl_minsigstacksize'', Num 0),
     (''dl_inhibit_cache'', Num 0), (''_padding_after_inhibit_cache'', Num 0),
     (''dl_initial_searchlist'', RtldScopeElem_ZERO), (''dl_clktck'', Num 0), (''dl_verbose'', Num 0),
     (''dl_debug_fd'', Num STDERR_FILENO), (''dl_lazy'', Num 1), (''dl_bind_not'', Num 0), (''dl_dynamic_weak'', Num 0),
     (''dl_fpu_control'', Num FPU_DEFAULT), (''_padding_after_fpu_control'', Elems (replicate 6 (Num 0))),
     (''dl_hwcap'', Num 0), (''dl_auxv'', Num 0),
     (''dl_x86_cpu_features'', Elems (replicate X86_CPU_FEATURES_SIZE (Num 0))), (''dl_x86_tlsdesc_dynamic'', Num 0),
     (''dl_x86_64_runtime_resolve'', Num 0), (''dl_inhibit_rpath'', Num 0), (''dl_origin_path'', Num 0),
     (''dl_tls_static_size'', Num 0), (''dl_tls_static_align'', Num 1), (''dl_tls_static_surplus'', Num 0),
     (''dl_profile'', Num 0), (''dl_profile_output'', Num 0), (''dl_init_all_dirs'', Num 0), (''dl_sysinfo_dso'', Num 0),
     (''dl_sysinfo_map'', Num 0), (''dl_vdso_clock_gettime64'', Num 0), (''dl_vdso_gettimeofday'', Num 0),
     (''dl_vdso_time'', Num 0), (''dl_vdso_getcpu'', Num 0), (''dl_vdso_clock_getres_time64'', Num 0),
     (''dl_vdso_getrandom'', Num 0), (''dl_hwcap2'', Num 0), (''dl_hwcap3'', Num 0), (''dl_hwcap4'', Num 0),
     (''dl_dso_sort_algo'', Num 0), (''_padding_after_dso_sort_algo'', Num 0), (''dl_debug_printf'', Num 0),
     (''dl_mcount'', Num 0), (''dl_lookup_symbol_x'', Num 0), (''dl_open'', Num 0), (''dl_close'', Num 0),
     (''dl_catch_error'', Num 0), (''dl_error_free'', Num 0), (''dl_tls_get_addr_soft'', Num 0),
     (''dl_libc_freeres'', Num 0), (''dl_find_object'', Num 0), (''dl_readonly_area'', Num 0), (''dl_dlfcn_hook'', Num 0),
     (''dl_audit'', Num 0), (''dl_naudit'', Num 0), (''_tail_padding'', Num 0)]"

definition RDebug :: ctype where
  "RDebug = Struct [(''version'', Word 4), (''map'', Word 8), (''brk'', Word 8), (''state'', Word 4), (''ldbase'', Word 8)]"

fun r_state_code :: "r_state \<Rightarrow> nat" where
  "r_state_code RT_CONSISTENT = 0"
| "r_state_code RT_ADD = 1"
| "r_state_code RT_DELETE = 2"

definition RDebug_zero :: cval where
  "RDebug_zero = Fields [(''version'', Num 0), (''map'', Num 0), (''brk'', Num 0), (''state'', Num (r_state_code RT_CONSISTENT)),
     (''ldbase'', Num 0)]"

text \<open>\<open>LinkMap\<close> of \<open>abi.rs\<close>, with the part glibc keeps private between the public fields and the TLS data left blank.\<close>

definition LinkMap :: ctype where
  "LinkMap = Struct [(''l_addr'', Word 8), (''l_name'', Word 8), (''l_ld'', Word 8), (''l_next'', Word 8), (''l_prev'', Word 8),
     (''l_real'', Word 8), (''l_ns'', Word 8), (''l_libname'', Word 8), (''l_info'', Arr 84 (Word 8)), (''l_phdr'', Word 8),
     (''l_entry'', Word 8), (''l_phnum'', Word 2), (''l_ldnum'', Word 2), (''_pad_after_ldnum'', Word 4),
     (''_reserved_before_tls'', Arr 45 (Word 8)), (''l_tls_initimage'', Word 8), (''l_tls_initimage_size'', Word 8),
     (''l_tls_blocksize'', Word 8), (''l_tls_align'', Word 8), (''l_tls_firstbyte_offset'', Word 8), (''l_tls_offset'', Word 8),
     (''l_tls_modid'', Word 8), (''l_tls_dtor_count'', Word 8), (''l_relro_addr'', Word 8), (''l_relro_size'', Word 8),
     (''l_serial'', Word 8)]"

definition LinkMap_zero :: cval where
  "LinkMap_zero = Fields [(''l_addr'', Num 0), (''l_name'', Num 0), (''l_ld'', Num 0), (''l_next'', Num 0), (''l_prev'', Num 0),
     (''l_real'', Num 0), (''l_ns'', Num 0), (''l_libname'', Num 0), (''l_info'', Elems (replicate 84 (Num 0))), (''l_phdr'', Num 0),
     (''l_entry'', Num 0), (''l_phnum'', Num 0), (''l_ldnum'', Num 0), (''_pad_after_ldnum'', Num 0),
     (''_reserved_before_tls'', Elems (replicate 45 (Num 0))), (''l_tls_initimage'', Num 0), (''l_tls_initimage_size'', Num 0),
     (''l_tls_blocksize'', Num 0), (''l_tls_align'', Num 0), (''l_tls_firstbyte_offset'', Num 0), (''l_tls_offset'', Num 0),
     (''l_tls_modid'', Num 0), (''l_tls_dtor_count'', Num 0), (''l_relro_addr'', Num 0), (''l_relro_size'', Num 0),
     (''l_serial'', Num 0)]"

lemmas rtld_values = RtldScopeElem_ZERO_def RtldList_ZERO_def RtldPthreadMutex_RECURSIVE_def
  RtldRecursiveLock_RECURSIVE_def RtldUniqueSymTable_ZERO_def RtldLinkNamespace_ZERO_def RtldX86FeatureControl_DEFAULT_def

lemma rtld_values_typed [simp]:
  "has_type RtldScopeElem_ZERO RtldScopeElem" "has_type RtldList_ZERO RtldList"
  "has_type RtldPthreadMutex_RECURSIVE RtldPthreadMutex" "has_type RtldRecursiveLock_RECURSIVE RtldRecursiveLock"
  "has_type RtldUniqueSymTable_ZERO RtldUniqueSymTable" "has_type RtldLinkNamespace_ZERO RtldLinkNamespace"
  "has_type RtldX86FeatureControl_DEFAULT RtldX86FeatureControl"
  by (simp_all add: rtld_types rtld_values rtld_consts)

lemma rtld_new_typed: "has_type RtldGlobal_new RtldGlobal" "has_type RtldGlobalRo_new RtldGlobalRo" "has_type RDebug_zero RDebug"
  by (simp_all add: RtldGlobal_new_def RtldGlobal_def RtldGlobalRo_new_def RtldGlobalRo_def RDebug_zero_def RDebug_def
      rtld_consts)

lemma rdebug_layout: "wf_type RDebug" "size_of RDebug = 40"
  by (simp_all add: RDebug_def round_up_def)

lemma link_map_layout: "wf_type LinkMap" "size_of LinkMap = 1208" "has_type LinkMap_zero LinkMap"
  by (simp_all add: LinkMap_def LinkMap_zero_def round_up_def)

interpretation link_map_vars: field_store "scalar_width LinkMap" "read_at LinkMap g" "write_at LinkMap g" for g
  by (rule field_store_struct) (simp_all add: link_map_layout)

section \<open>Publication\<close>

text \<open>The addresses of the exported statics and of the functions whose addresses are published.\<close>

record rtld_statics =
  rtld_global :: usize
  rtld_global_ro :: usize
  r_debug_static :: usize
  libc_enable_secure :: usize
  rseq_offset_static :: usize
  fn_catch_error :: usize
  fn_error_free :: usize
  fn_tls_get_addr_soft :: usize
  fn_debug_state :: usize
  dlfcn_hook :: usize

text \<open>The list head at a place of a structure at \<open>g\<close>.\<close>

definition init_list :: "ctype \<Rightarrow> usize \<Rightarrow> mem \<Rightarrow> step list \<Rightarrow> mem" where
  "init_list t g m p =
     (let l = unat (place_of t g p)
      in write_at t g (write_at t g m (p @ [Fld ''next''], l)) (p @ [Fld ''prev''], l))"

partial_function (option) c_strlen_loop :: "mem \<Rightarrow> usize \<Rightarrow> usize \<Rightarrow> usize option" where
  "c_strlen_loop m p len = (if m (p + len) \<noteq> 0 then c_strlen_loop m p (len + 1) else Some len)"

definition c_strlen :: "mem \<Rightarrow> usize \<Rightarrow> usize option" where
  "c_strlen m p = (if p = 0 then Some 0 else c_strlen_loop m p 0)"

definition ns0 :: "string \<Rightarrow> step list" where "ns0 f = [Fld ''dl_ns'', Idx 0, Fld f]"

definition RtldGlobal_publish :: "usize \<Rightarrow> mem \<Rightarrow> usize \<Rightarrow> usize \<Rightarrow> usize \<Rightarrow> usize \<Rightarrow> mem" where
  "RtldGlobal_publish g m main main_searchlist nloaded libc_map =
     (let nloaded = unat nloaded mod 2 ^ 32;
          m = write_at RtldGlobal g m ([Fld ''dl_nns''], 1);
          m = write_at RtldGlobal g m ([Fld ''dl_load_adds''], nloaded);
          m = write_at RtldGlobal g m (ns0 ''loaded'', unat main);
          m = write_at RtldGlobal g m (ns0 ''nloaded'', nloaded);
          m = write_at RtldGlobal g m (ns0 ''main_searchlist'', unat main_searchlist);
          m = write_at RtldGlobal g m (ns0 ''libc_map'', unat libc_map);
          m = init_list RtldGlobal g m [Fld ''dl_stack_used''];
          m = init_list RtldGlobal g m [Fld ''dl_stack_user'']
      in init_list RtldGlobal g m [Fld ''dl_stack_cache''])"

definition ro_publish_tls_static_info :: "usize \<Rightarrow> mem \<Rightarrow> usize \<Rightarrow> usize \<Rightarrow> mem" where
  "ro_publish_tls_static_info g m sz al =
     (let m = write_at RtldGlobalRo g m ([Fld ''dl_tls_static_size''], unat sz)
      in write_at RtldGlobalRo g m ([Fld ''dl_tls_static_align''], unat (max al 1)))"

definition publish_function_pointers :: "rtld_statics \<Rightarrow> mem \<Rightarrow> mem" where
  "publish_function_pointers st m =
     (let g = rtld_global_ro st;
          m = write_at RtldGlobalRo g m ([Fld ''dl_catch_error''], unat (fn_catch_error st));
          m = write_at RtldGlobalRo g m ([Fld ''dl_error_free''], unat (fn_error_free st));
          m = write_at RtldGlobalRo g m ([Fld ''dl_tls_get_addr_soft''], unat (fn_tls_get_addr_soft st))
      in write_at RtldGlobalRo g m ([Fld ''dl_dlfcn_hook''], unat (dlfcn_hook st)))"

definition initial_searchlist :: "usize \<Rightarrow> usize" where
  "initial_searchlist g = place_of RtldGlobalRo g [Fld ''dl_initial_searchlist'']"

definition x86_cpu_features :: "usize \<Rightarrow> usize" where
  "x86_cpu_features g = place_of RtldGlobalRo g [Fld ''dl_x86_cpu_features'']"

definition publish_initial_searchlist :: "usize \<Rightarrow> mem \<Rightarrow> usize \<Rightarrow> usize \<Rightarrow> mem" where
  "publish_initial_searchlist g m maps_at nlist =
     write_value RtldGlobalRo g [Fld ''dl_initial_searchlist''] m
       (Fields [(''list'', Num (unat maps_at)), (''nlist'', Num (unat nlist mod 2 ^ 32)), (''_padding'', Num 0)])"

definition write_x86_cpu_usize :: "usize \<Rightarrow> mem \<Rightarrow> nat \<Rightarrow> usize \<Rightarrow> mem" where
  "write_x86_cpu_usize g m at v =
     (if at + 8 > X86_CPU_FEATURES_SIZE then m else write_usize m (x86_cpu_features g + of_nat at) v)"

text \<open>\<open>offset_of!(RtldGlobalRo, dl_x86_cpu_features)\<close>.\<close>

definition RTLD_GLOBAL_RO_X86_FEATURES_OFFSET :: nat where
  "RTLD_GLOBAL_RO_X86_FEATURES_OFFSET = fst (the (locate RtldGlobalRo [Fld ''dl_x86_cpu_features'']))"

text \<open>The offsets and values of \<open>publish_x86_cpu_defaults\<close>, in the order of the writes.\<close>

definition x86_cpu_defaults :: "(nat \<times> usize) list" where
  "x86_cpu_defaults =
     [(0x1e0 - RTLD_GLOBAL_RO_X86_FEATURES_OFFSET, 32 * 1024), (0x1e8 - RTLD_GLOBAL_RO_X86_FEATURES_OFFSET, 1024 * 1024),
      (0x1f0 - RTLD_GLOBAL_RO_X86_FEATURES_OFFSET, 1024 * 1024), (0x1f8 - RTLD_GLOBAL_RO_X86_FEATURES_OFFSET, 1024 * 1024),
      (0x200 - RTLD_GLOBAL_RO_X86_FEATURES_OFFSET, 1024 * 1024), (0x208 - RTLD_GLOBAL_RO_X86_FEATURES_OFFSET, 1024 * 1024)]"

definition publish_x86_cpu_defaults :: "usize \<Rightarrow> mem \<Rightarrow> mem" where
  "publish_x86_cpu_defaults g m = foldl (\<lambda>m (off, v). write_x86_cpu_usize g m off v) m x86_cpu_defaults"

text \<open>\<open>None\<close>: the platform string has no end.\<close>

definition publish_aux :: "rtld_statics \<Rightarrow> mem \<Rightarrow> ro_aux \<Rightarrow> mem option" where
  "publish_aux st m a =
     (let g = rtld_global_ro st;
          m = publish_function_pointers st m;
          pagesize = (if ro_pagesize a = 0 then EXEC_PAGESIZE else ro_pagesize a);
          fpucw = (if ro_fpucw a = 0 then FPU_DEFAULT else unat (ro_fpucw a) mod 2 ^ 16);
          m = write_at RtldGlobalRo g m ([Fld ''dl_platform''], unat (ro_platform a))
      in Option.bind (c_strlen m (ro_platform a)) (\<lambda>len.
      let m = write_at RtldGlobalRo g m ([Fld ''dl_platformlen''], unat len);
          m = write_at RtldGlobalRo g m ([Fld ''dl_pagesize''], unat pagesize);
          m = write_at RtldGlobalRo g m ([Fld ''dl_minsigstacksize''], unat (ro_minsigstacksize a));
          m = write_at RtldGlobalRo g m ([Fld ''dl_clktck''], unat (ro_clktck a) mod 2 ^ 32);
          m = write_at RtldGlobalRo g m ([Fld ''dl_fpu_control''], fpucw);
          m = write_at RtldGlobalRo g m ([Fld ''dl_hwcap''], unat (ro_hwcap a));
          m = write_at RtldGlobalRo g m ([Fld ''dl_auxv''], unat (ro_auxv a));
          m = write_at RtldGlobalRo g m ([Fld ''dl_sysinfo_dso''], unat (ro_sysinfo_ehdr a));
          m = write_at RtldGlobalRo g m ([Fld ''dl_sysinfo_map''], 0);
          m = write_at RtldGlobalRo g m ([Fld ''dl_hwcap2''], unat (ro_hwcap2 a));
          m = write_at RtldGlobalRo g m ([Fld ''dl_hwcap3''], unat (ro_hwcap3 a));
          m = write_at RtldGlobalRo g m ([Fld ''dl_hwcap4''], unat (ro_hwcap4 a))
      in Some (publish_x86_cpu_defaults g m)))"

text \<open>\<open>globals.rs\<close>: the statics themselves.\<close>

definition publish_rtld_ro_aux :: "rtld_statics \<Rightarrow> mem \<Rightarrow> ro_aux \<Rightarrow> mem option" where
  "publish_rtld_ro_aux st m a = publish_aux st m a"

definition publish_rtld_link_maps :: "rtld_statics \<Rightarrow> mem \<Rightarrow> usize \<Rightarrow> usize \<Rightarrow> usize \<Rightarrow> usize \<Rightarrow> mem" where
  "publish_rtld_link_maps st m main maps_at maps_len libc_map =
     (let m = RtldGlobal_publish (rtld_global st) m main (initial_searchlist (rtld_global_ro st)) maps_len libc_map
      in publish_initial_searchlist (rtld_global_ro st) m maps_at maps_len)"

definition publish_tls_static_info :: "rtld_statics \<Rightarrow> mem \<Rightarrow> usize \<Rightarrow> usize \<Rightarrow> mem" where
  "publish_tls_static_info st m sz al = ro_publish_tls_static_info (rtld_global_ro st) m sz al"

definition publish_rseq_offset :: "rtld_statics \<Rightarrow> mem \<Rightarrow> usize \<Rightarrow> mem" where
  "publish_rseq_offset st m off = write_usize m (rseq_offset_static st) off"

text \<open>\<open>publish_loaded_globals\<close> of \<open>publish.rs\<close>: \<open>maps_at\<close> is the address of the leaked box of the search list.\<close>

definition loaded_r_debug :: "rtld_statics \<Rightarrow> bootstrap_state \<Rightarrow> usize \<Rightarrow> cval" where
  "loaded_r_debug st bs main =
     Fields [(''version'', Num 1), (''map'', Num (unat main)), (''brk'', Num (unat (fn_debug_state st))),
       (''state'', Num (r_state_code RT_CONSISTENT)), (''ldbase'', Num (unat (obj_load_bias (bs_rtld bs))))]"

definition publish_loaded_globals ::
  "rtld_statics \<Rightarrow> mem \<Rightarrow> store \<Rightarrow> bootstrap_state \<Rightarrow> usize \<Rightarrow> startup_state \<Rightarrow> usize \<Rightarrow> mem \<times> store" where
  "publish_loaded_globals st m links bs main startup maps_at =
     (let r_debug = loaded_r_debug st bs main;
          links = link_loaded_objects links (st_maps startup);
          m = write_value RDebug (r_debug_static st) [] m r_debug
      in (publish_rtld_link_maps st m main maps_at (of_nat (length (st_maps startup))) (st_libc_map startup), links))"

text \<open>\<open>publish_tls_layout\<close> of \<open>bootstrap/mod.rs\<close>.\<close>

definition publish_tls_layout :: "'src tls_state \<Rightarrow> rtld_statics \<Rightarrow> mem \<Rightarrow> mem" where
  "publish_tls_layout tls st m =
     (let (sz, al) = static_info tls
      in publish_rseq_offset st (publish_tls_static_info st m sz al) (rseq_offset tls))"

section \<open>Layout\<close>

text \<open>\<open>offset_of!\<close>.\<close>

definition offset_of :: "ctype \<Rightarrow> string \<Rightarrow> nat option" where
  "offset_of t f = map_option fst (locate t [Fld f])"

text \<open>The assertions the source makes about sizes and offsets at compile time.\<close>

definition RTLD_GLOBAL_SIZE :: nat where "RTLD_GLOBAL_SIZE = 2120"
definition RTLD_GLOBAL_RO_SIZE :: nat where "RTLD_GLOBAL_RO_SIZE = 928"
definition LINK_NAMESPACE_SIZE :: nat where "LINK_NAMESPACE_SIZE = 112"

definition layout_assertions :: bool where
  "layout_assertions \<longleftrightarrow>
     size_of RtldGlobal = RTLD_GLOBAL_SIZE \<and> size_of RtldGlobalRo = RTLD_GLOBAL_RO_SIZE \<and>
     size_of RtldLinkNamespace = LINK_NAMESPACE_SIZE \<and>
     map (offset_of RtldGlobal) [''dl_ns'', ''dl_nns'', ''dl_x86_feature_1'', ''dl_stack_prot_flags'', ''dl_tls_max_dtv_idx'',
       ''dl_initial_dtv'', ''dl_tls_generation'', ''dl_stack_used''] =
     map Some [0, 1792, 1968, 1976, 1984, 2024, 2032, 2048] \<and>
     map (offset_of RtldGlobalRo) [''dl_pagesize'', ''dl_hwcap'', ''dl_x86_cpu_features'', ''dl_x86_tlsdesc_dynamic'',
       ''dl_x86_64_runtime_resolve'', ''dl_inhibit_rpath'', ''dl_tls_static_size'', ''dl_sysinfo_dso'', ''dl_vdso_getrandom'',
       ''dl_hwcap2'', ''dl_find_object'', ''dl_readonly_area'', ''dl_dlfcn_hook''] =
     map Some [24, 96, 112, 640, 648, 656, 672, 720, 776, 784, 888, 896, 904]"

definition link_map_assertions :: bool where
  "link_map_assertions \<longleftrightarrow>
     size_of LinkMap = 1208 \<and>
     map (offset_of LinkMap) [''l_tls_initimage'', ''l_tls_offset'', ''l_tls_modid''] = map Some [1120, 1160, 1168]"

text \<open>A type without implicit padding: the fields fill the structure.\<close>

fun no_holes :: "ctype \<Rightarrow> bool" and no_field_holes :: "(string \<times> ctype) list \<Rightarrow> bool" where
  "no_holes (Word n) \<longleftrightarrow> True"
| "no_holes (Arr k t) \<longleftrightarrow> no_holes t"
| "no_holes (Struct fs) \<longleftrightarrow> size_of (Struct fs) = sum_list (map (size_of \<circ> snd) fs) \<and> no_field_holes fs"
| "no_field_holes [] \<longleftrightarrow> True"
| "no_field_holes ((x, t) # fs) \<longleftrightarrow> no_holes t \<and> no_field_holes fs"

lemma rtld_parts_full [simp]:
  "no_holes RtldScopeElem" "no_holes RtldList" "no_holes RtldPthreadMutex" "no_holes RtldRecursiveLock"
  "no_holes RtldUniqueSymTable" "no_holes RtldLinkNamespace" "no_holes RtldX86FeatureControl"
  by (simp_all add: rtld_types round_up_def)

lemma rtld_full: "no_holes RtldGlobal" "no_holes RtldGlobalRo" "no_holes LinkMap"
  by (simp_all add: RtldGlobal_def RtldGlobalRo_def LinkMap_def rtld_consts round_up_def)

text \<open>The fields of the two statics with their offsets.\<close>

definition global_table :: "(string \<times> nat \<times> ctype) list" where
  "global_table =
   [(''dl_ns'', 0, Arr 16 RtldLinkNamespace), (''dl_nns'', 1792, Word 8), (''dl_load_lock'', 1800, RtldRecursiveLock),
     (''dl_load_write_lock'', 1840, RtldRecursiveLock), (''dl_load_tls_lock'', 1880, RtldRecursiveLock),
     (''dl_load_adds'', 1920, Word 8), (''dl_initfirst'', 1928, Word 8), (''dl_profile_map'', 1936, Word 8),
     (''dl_num_relocations'', 1944, Word 8), (''dl_num_cache_relocations'', 1952, Word 8),
     (''dl_all_dirs'', 1960, Word 8), (''dl_x86_feature_1'', 1968, Word 4),
     (''dl_x86_feature_control'', 1972, RtldX86FeatureControl), (''dl_stack_prot_flags'', 1976, Word 4),
     (''dl_tls_dtv_gaps'', 1980, Word 1), (''_padding_after_tls_dtv_gaps'', 1981, Arr 3 (Word 1)),
     (''dl_tls_max_dtv_idx'', 1984, Word 8), (''dl_tls_dtv_slotinfo_list'', 1992, Word 8),
     (''dl_tls_static_nelem'', 2000, Word 8), (''dl_tls_static_used'', 2008, Word 8),
     (''dl_tls_static_optional'', 2016, Word 8), (''dl_initial_dtv'', 2024, Word 8),
     (''dl_tls_generation'', 2032, Word 8), (''dl_scope_free_list'', 2040, Word 8),
     (''dl_stack_used'', 2048, RtldList), (''dl_stack_user'', 2064, RtldList), (''dl_stack_cache'', 2080, RtldList),
     (''dl_stack_cache_actsize'', 2096, Word 8), (''dl_in_flight_stack'', 2104, Word 8),
     (''dl_stack_cache_lock'', 2112, Word 4), (''_tail_padding'', 2116, Word 4)]"

definition global_ro_table :: "(string \<times> nat \<times> ctype) list" where
  "global_ro_table =
   [(''dl_debug_mask'', 0, Word 4), (''_padding_after_debug_mask'', 4, Word 4), (''dl_platform'', 8, Word 8),
     (''dl_platformlen'', 16, Word 8), (''dl_pagesize'', 24, Word 8), (''dl_minsigstacksize'', 32, Word 8),
     (''dl_inhibit_cache'', 40, Word 4), (''_padding_after_inhibit_cache'', 44, Word 4),
     (''dl_initial_searchlist'', 48, RtldScopeElem), (''dl_clktck'', 64, Word 4), (''dl_verbose'', 68, Word 4),
     (''dl_debug_fd'', 72, Word 4), (''dl_lazy'', 76, Word 4), (''dl_bind_not'', 80, Word 4),
     (''dl_dynamic_weak'', 84, Word 4), (''dl_fpu_control'', 88, Word 2),
     (''_padding_after_fpu_control'', 90, Arr 6 (Word 1)), (''dl_hwcap'', 96, Word 8), (''dl_auxv'', 104, Word 8),
     (''dl_x86_cpu_features'', 112, Arr 528 (Word 1)), (''dl_x86_tlsdesc_dynamic'', 640, Word 8),
     (''dl_x86_64_runtime_resolve'', 648, Word 8), (''dl_inhibit_rpath'', 656, Word 8),
     (''dl_origin_path'', 664, Word 8), (''dl_tls_static_size'', 672, Word 8), (''dl_tls_static_align'', 680, Word 8),
     (''dl_tls_static_surplus'', 688, Word 8), (''dl_profile'', 696, Word 8), (''dl_profile_output'', 704, Word 8),
     (''dl_init_all_dirs'', 712, Word 8), (''dl_sysinfo_dso'', 720, Word 8), (''dl_sysinfo_map'', 728, Word 8),
     (''dl_vdso_clock_gettime64'', 736, Word 8), (''dl_vdso_gettimeofday'', 744, Word 8),
     (''dl_vdso_time'', 752, Word 8), (''dl_vdso_getcpu'', 760, Word 8),
     (''dl_vdso_clock_getres_time64'', 768, Word 8), (''dl_vdso_getrandom'', 776, Word 8),
     (''dl_hwcap2'', 784, Word 8), (''dl_hwcap3'', 792, Word 8), (''dl_hwcap4'', 800, Word 8),
     (''dl_dso_sort_algo'', 808, Word 4), (''_padding_after_dso_sort_algo'', 812, Word 4),
     (''dl_debug_printf'', 816, Word 8), (''dl_mcount'', 824, Word 8), (''dl_lookup_symbol_x'', 832, Word 8),
     (''dl_open'', 840, Word 8), (''dl_close'', 848, Word 8), (''dl_catch_error'', 856, Word 8),
     (''dl_error_free'', 864, Word 8), (''dl_tls_get_addr_soft'', 872, Word 8), (''dl_libc_freeres'', 880, Word 8),
     (''dl_find_object'', 888, Word 8), (''dl_readonly_area'', 896, Word 8), (''dl_dlfcn_hook'', 904, Word 8),
     (''dl_audit'', 912, Word 8), (''dl_naudit'', 920, Word 4), (''_tail_padding'', 924, Word 4)]"

lemma global_table: "RtldGlobal = Struct fs \<Longrightarrow> field_table 0 fs = global_table"
  by (drule sym) (simp add: global_table_def RtldGlobal_def rtld_consts round_up_def)

lemma global_ro_table: "RtldGlobalRo = Struct fs \<Longrightarrow> field_table 0 fs = global_ro_table"
  by (drule sym) (simp add: global_ro_table_def RtldGlobalRo_def rtld_consts round_up_def)

lemma table_lookup: "distinct (map fst kvs) \<Longrightarrow> kvs = rows \<Longrightarrow> list_all (\<lambda>(n, v). map_of kvs n = Some v) rows"
  by (auto simp: list_all_iff)

lemma tables_distinct: "distinct (map fst global_table)" "distinct (map fst global_ro_table)"
  by (simp_all add: global_table_def global_ro_table_def)

lemmas global_lookup = table_lookup [OF tables_distinct(1) global_table_def, unfolded list.pred_inject prod.case simp_thms]
lemmas global_ro_lookup = table_lookup [OF tables_distinct(2) global_ro_table_def, unfolded list.pred_inject prod.case simp_thms]

lemma locate_global:
  "locate RtldGlobal (Fld n # p) = (case map_of global_table n of None \<Rightarrow> None
     | Some (off, t) \<Rightarrow> map_option (\<lambda>(o', u). (off + o', u)) (locate t p))"
proof -
  obtain fs where fs: "RtldGlobal = Struct fs" by (simp add: RtldGlobal_def)
  show ?thesis unfolding fs by (simp add: field_at_table global_table [OF fs])
qed

lemma locate_global_ro:
  "locate RtldGlobalRo (Fld n # p) = (case map_of global_ro_table n of None \<Rightarrow> None
     | Some (off, t) \<Rightarrow> map_option (\<lambda>(o', u). (off + o', u)) (locate t p))"
proof -
  obtain fs where fs: "RtldGlobalRo = Struct fs" by (simp add: RtldGlobalRo_def)
  show ?thesis unfolding fs by (simp add: field_at_table global_ro_table [OF fs])
qed

lemma global_offsets:
  "map (offset_of RtldGlobal) [''dl_ns'', ''dl_nns'', ''dl_x86_feature_1'', ''dl_stack_prot_flags'', ''dl_tls_max_dtv_idx'',
     ''dl_initial_dtv'', ''dl_tls_generation'', ''dl_stack_used''] =
   map Some [0, 1792, 1968, 1976, 1984, 2024, 2032, 2048]"
  by (simp add: offset_of_def locate_global global_lookup)

lemma global_ro_offsets:
  "map (offset_of RtldGlobalRo) [''dl_pagesize'', ''dl_hwcap'', ''dl_x86_cpu_features'', ''dl_x86_tlsdesc_dynamic'',
     ''dl_x86_64_runtime_resolve'', ''dl_inhibit_rpath'', ''dl_tls_static_size'', ''dl_sysinfo_dso'', ''dl_vdso_getrandom'',
     ''dl_hwcap2'', ''dl_find_object'', ''dl_readonly_area'', ''dl_dlfcn_hook''] =
   map Some [24, 96, 112, 640, 648, 656, 672, 720, 776, 784, 888, 896, 904]"
  by (simp add: offset_of_def locate_global_ro global_ro_lookup)

definition link_map_table :: "(string \<times> nat \<times> ctype) list" where
  "link_map_table =
   [(''l_addr'', 0, Word 8), (''l_name'', 8, Word 8), (''l_ld'', 16, Word 8), (''l_next'', 24, Word 8),
     (''l_prev'', 32, Word 8), (''l_real'', 40, Word 8), (''l_ns'', 48, Word 8), (''l_libname'', 56, Word 8),
     (''l_info'', 64, Arr 84 (Word 8)), (''l_phdr'', 736, Word 8), (''l_entry'', 744, Word 8),
     (''l_phnum'', 752, Word 2), (''l_ldnum'', 754, Word 2), (''_pad_after_ldnum'', 756, Word 4),
     (''_reserved_before_tls'', 760, Arr 45 (Word 8)), (''l_tls_initimage'', 1120, Word 8),
     (''l_tls_initimage_size'', 1128, Word 8), (''l_tls_blocksize'', 1136, Word 8), (''l_tls_align'', 1144, Word 8),
     (''l_tls_firstbyte_offset'', 1152, Word 8), (''l_tls_offset'', 1160, Word 8), (''l_tls_modid'', 1168, Word 8),
     (''l_tls_dtor_count'', 1176, Word 8), (''l_relro_addr'', 1184, Word 8), (''l_relro_size'', 1192, Word 8),
     (''l_serial'', 1200, Word 8)]"

lemma link_map_table: "LinkMap = Struct fs \<Longrightarrow> field_table 0 fs = link_map_table"
  by (drule sym) (simp add: link_map_table_def LinkMap_def round_up_def)

lemma link_map_distinct: "distinct (map fst link_map_table)"
  by (simp add: link_map_table_def)

lemmas link_map_lookup = table_lookup [OF link_map_distinct link_map_table_def, unfolded list.pred_inject prod.case simp_thms]

lemma link_map_asserted: link_map_assertions
proof -
  obtain fs where fs: "LinkMap = Struct fs" by (simp add: LinkMap_def)
  have "offset_of LinkMap n = map_option fst (map_of link_map_table n)" for n
    unfolding offset_of_def fs by (cases "map_of link_map_table n") (simp_all add: field_at_table link_map_table [OF fs] split: prod.split)
  then show ?thesis by (simp add: link_map_assertions_def link_map_layout link_map_lookup)
qed

lemma layout_asserted: layout_assertions
  by (simp only: layout_assertions_def RTLD_GLOBAL_SIZE_def RTLD_GLOBAL_RO_SIZE_def LINK_NAMESPACE_SIZE_def
      rtld_sizes rtld_parts global_offsets global_ro_offsets)



section \<open>Initial contents of the statics\<close>

definition statics_apart :: "rtld_statics \<Rightarrow> bool" where
  "statics_apart st \<longleftrightarrow>
     apart (rtld_global st) 2120 (rtld_global_ro st) 928 \<and> apart (rtld_global st) 2120 (r_debug_static st) 40 \<and>
     apart (rtld_global st) 2120 (libc_enable_secure st) 4 \<and> apart (rtld_global st) 2120 (rseq_offset_static st) 8 \<and>
     apart (rtld_global_ro st) 928 (r_debug_static st) 40 \<and> apart (rtld_global_ro st) 928 (libc_enable_secure st) 4 \<and>
     apart (rtld_global_ro st) 928 (rseq_offset_static st) 8 \<and> apart (r_debug_static st) 40 (libc_enable_secure st) 4 \<and>
     apart (r_debug_static st) 40 (rseq_offset_static st) 8 \<and> apart (libc_enable_secure st) 4 (rseq_offset_static st) 8"

definition init_statics :: "rtld_statics \<Rightarrow> mem \<Rightarrow> mem" where
  "init_statics st m =
     (let m = write_value RtldGlobal (rtld_global st) [] m RtldGlobal_new;
          m = write_value RtldGlobalRo (rtld_global_ro st) [] m RtldGlobalRo_new;
          m = write_value RDebug (r_debug_static st) [] m RDebug_zero;
          m = write_list m (libc_enable_secure st) (le_enc 4 0)
      in write_usize m (rseq_offset_static st) 0)"

lemma statics_apartD:
  assumes "statics_apart st"
  shows "apart (rtld_global st) 2120 (rtld_global_ro st) 928" "apart (rtld_global_ro st) 928 (rtld_global st) 2120"
    "apart (rtld_global st) 2120 (r_debug_static st) 40" "apart (r_debug_static st) 40 (rtld_global st) 2120"
    "apart (rtld_global_ro st) 928 (r_debug_static st) 40" "apart (r_debug_static st) 40 (rtld_global_ro st) 928"
    "apart (rtld_global st) 2120 (libc_enable_secure st) 4" "apart (rtld_global st) 2120 (rseq_offset_static st) 8"
    "apart (rtld_global_ro st) 928 (libc_enable_secure st) 4" "apart (rtld_global_ro st) 928 (rseq_offset_static st) 8"
    "apart (r_debug_static st) 40 (libc_enable_secure st) 4" "apart (r_debug_static st) 40 (rseq_offset_static st) 8"
    "apart (rseq_offset_static st) 8 (rtld_global_ro st) 928" "apart (libc_enable_secure st) 4 (rtld_global_ro st) 928"
  using assms unfolding statics_apart_def by (metis apart_sym)+

text \<open>A write outside a structure keeps its scalars.\<close>

lemma read_at_write_list:
  "wf_type t \<Longrightarrow> apart g (size_of t) q (length bs) \<Longrightarrow> read_at t g (write_list m q bs) p = read_at t g m p"
  by (rule read_at_cong) (simp_all add: read_write_list_apart)

lemma read_at_write_usize:
  "wf_type t \<Longrightarrow> apart g (size_of t) q 8 \<Longrightarrow> read_at t g (write_usize m q v) p = read_at t g m p"
  by (simp add: write_usize_def read_at_write_list)

lemmas statics_frame = read_at_apart read_at_write_list read_at_write_usize rtld_wf rtld_sizes rdebug_layout

text \<open>The exported statics start with the contents of their constant expressions, each in its own bytes: every
  scalar of \<open>_rtld_global\<close>, \<open>_rtld_global_ro\<close> and \<open>_r_debug\<close> reads as the constant says, among them one name space,
  TLS generation 1, recursive locks and a page size of 4096.\<close>

lemma statics_initialised:
  assumes "statics_apart st"
  shows "(\<forall>p. scalar_width RtldGlobal p \<noteq> None \<longrightarrow>
        read_at RtldGlobal (rtld_global st) (init_statics st m) p = value_at RtldGlobal_new p) \<and>
      (\<forall>p. scalar_width RtldGlobalRo p \<noteq> None \<longrightarrow>
        read_at RtldGlobalRo (rtld_global_ro st) (init_statics st m) p = value_at RtldGlobalRo_new p) \<and>
      (\<forall>p. scalar_width RDebug p \<noteq> None \<longrightarrow>
        read_at RDebug (r_debug_static st) (init_statics st m) p = value_at RDebug_zero p) \<and>
      (\<forall>i < DL_NNS. read_at RtldGlobal (rtld_global st) (init_statics st m)
         [Fld ''dl_ns'', Idx i, Fld ''unique_sym_table'', Fld ''lock'', Fld ''mutex'', Fld ''kind''] =
         Some PTHREAD_MUTEX_RECURSIVE_NP)"
proof -
  have g: "read_at RtldGlobal (rtld_global st) (init_statics st m) p = value_at RtldGlobal_new p"
    if "scalar_width RtldGlobal p \<noteq> None" for p
    using that statics_apartD [OF assms]
    by (simp add: init_statics_def statics_frame read_write_value rtld_new_typed)
  have ro: "read_at RtldGlobalRo (rtld_global_ro st) (init_statics st m) p = value_at RtldGlobalRo_new p"
    if "scalar_width RtldGlobalRo p \<noteq> None" for p
    using that statics_apartD [OF assms]
    by (simp add: init_statics_def statics_frame read_write_value rtld_new_typed)
  have d: "read_at RDebug (r_debug_static st) (init_statics st m) p = value_at RDebug_zero p"
    if "scalar_width RDebug p \<noteq> None" for p
    using that statics_apartD [OF assms]
    by (simp add: init_statics_def statics_frame read_write_value rtld_new_typed)
  have "read_at RtldGlobal (rtld_global st) (init_statics st m)
      [Fld ''dl_ns'', Idx i, Fld ''unique_sym_table'', Fld ''lock'', Fld ''mutex'', Fld ''kind''] =
      Some PTHREAD_MUTEX_RECURSIVE_NP" (is "read_at _ _ _ ?p = _") if "i < DL_NNS" for i
  proof -
    have "scalar_width RtldGlobal ?p \<noteq> None"
      using that by (simp add: scalar_width_def scalar_at_def locate_global global_lookup DL_NNS_def RtldLinkNamespace_def
          RtldUniqueSymTable_def RtldRecursiveLock_def RtldPthreadMutex_def Let_def)
    from g [OF this] show ?thesis
      using that by (simp add: RtldGlobal_new_def rtld_values)
  qed
  with g ro d show ?thesis by blast
qed

definition sample_statics :: rtld_statics where
  "sample_statics = \<lparr>rtld_global = 0x10000, rtld_global_ro = 0x11000, r_debug_static = 0x12000, libc_enable_secure = 0x13000,
     rseq_offset_static = 0x14000, fn_catch_error = 0x20010, fn_error_free = 0x20020, fn_tls_get_addr_soft = 0x20030,
     fn_debug_state = 0x20040, dlfcn_hook = 0x20050\<rparr>"

lemma apart_addresses:
  "unat p + n \<le> unat q \<Longrightarrow> unat q + k \<le> 2 ^ 64 \<Longrightarrow> apart p n (q :: usize) k"
  using apart_offsets [of "unat p" n "unat q" k 0] by simp

lemma sample_statics_apart: "statics_apart sample_statics"
  by (simp add: statics_apart_def sample_statics_def apart_addresses)

lemma statics_initialised_witness:
  "read_at RtldGlobal 0x10000 (init_statics sample_statics (\<lambda>_. 0xff)) [Fld ''dl_ns'', Idx 7, Fld ''unique_sym_table'',
     Fld ''lock'', Fld ''mutex'', Fld ''kind''] = Some 1"
proof -
  have "rtld_global sample_statics = 0x10000" by (simp add: sample_statics_def)
  with statics_initialised [OF sample_statics_apart, of "\<lambda>_. 0xff"] show ?thesis by (simp add: rtld_consts)
qed

section \<open>Published contents\<close>

text \<open>What \<open>RtldGlobal::publish\<close> writes where, for a static at \<open>g\<close>; list heads point to themselves.\<close>

definition global_writes :: "usize \<Rightarrow> usize \<Rightarrow> usize \<Rightarrow> usize \<Rightarrow> usize \<Rightarrow> (step list \<times> nat) list" where
  "global_writes g main main_searchlist nloaded libc_map =
     [([Fld ''dl_nns''], 1), ([Fld ''dl_load_adds''], unat nloaded mod 2 ^ 32), (ns0 ''loaded'', unat main),
      (ns0 ''nloaded'', unat nloaded mod 2 ^ 32), (ns0 ''main_searchlist'', unat main_searchlist),
      (ns0 ''libc_map'', unat libc_map),
      ([Fld ''dl_stack_used'', Fld ''next''], unat (g + 2048)), ([Fld ''dl_stack_used'', Fld ''prev''], unat (g + 2048)),
      ([Fld ''dl_stack_user'', Fld ''next''], unat (g + 2064)), ([Fld ''dl_stack_user'', Fld ''prev''], unat (g + 2064)),
      ([Fld ''dl_stack_cache'', Fld ''next''], unat (g + 2080)), ([Fld ''dl_stack_cache'', Fld ''prev''], unat (g + 2080))]"

lemma global_publish_stores:
  "RtldGlobal_publish g m main sl n libc = foldl (write_at RtldGlobal g) m (global_writes g main sl n libc)"
proof -
  have "place_of RtldGlobal g [Fld ''dl_stack_used''] = g + 2048" "place_of RtldGlobal g [Fld ''dl_stack_user''] = g + 2064"
    "place_of RtldGlobal g [Fld ''dl_stack_cache''] = g + 2080"
    by (simp_all add: place_of_def locate_global global_lookup)
  then show ?thesis unfolding RtldGlobal_publish_def init_list_def global_writes_def Let_def by simp
qed

lemma global_scalars:
  "scalar_width RtldGlobal [Fld ''dl_nns''] = Some 8" "scalar_width RtldGlobal [Fld ''dl_load_adds''] = Some 8"
  "scalar_width RtldGlobal (ns0 ''loaded'') = Some 8" "scalar_width RtldGlobal (ns0 ''nloaded'') = Some 4"
  "scalar_width RtldGlobal (ns0 ''main_searchlist'') = Some 8" "scalar_width RtldGlobal (ns0 ''libc_map'') = Some 8"
  "scalar_width RtldGlobal [Fld ''dl_stack_used'', Fld ''next''] = Some 8" "scalar_width RtldGlobal [Fld ''dl_stack_used'', Fld ''prev''] = Some 8"
  "scalar_width RtldGlobal [Fld ''dl_stack_user'', Fld ''next''] = Some 8" "scalar_width RtldGlobal [Fld ''dl_stack_user'', Fld ''prev''] = Some 8"
  "scalar_width RtldGlobal [Fld ''dl_stack_cache'', Fld ''next''] = Some 8" "scalar_width RtldGlobal [Fld ''dl_stack_cache'', Fld ''prev''] = Some 8"
  by (simp_all add: scalar_width_def scalar_at_def locate_global global_lookup ns0_def RtldLinkNamespace_def RtldList_def Let_def)

lemma usize_fits: "(0 :: nat) < 256 ^ 8" "(1 :: nat) < 256 ^ 8" "unat (x :: usize) < 256 ^ 8" "unat (x :: usize) mod 2 ^ 32 < 256 ^ 8" "unat (x :: usize) mod 2 ^ 32 < 256 ^ 4"
  using unat_usize_bound [of x] by simp_all

text \<open>The fields that \<open>RtldGlobal::publish\<close> sets read their new values and all others keep theirs.\<close>

lemma global_published:
  "read_at RtldGlobal g (RtldGlobal_publish g m main sl n libc) p =
     (case map_of (global_writes g main sl n libc) p of None \<Rightarrow> read_at RtldGlobal g m p | Some v \<Rightarrow> Some v)"
  unfolding global_publish_stores
proof (rule global_vars.load_table)
  show "distinct (map fst (global_writes g main sl n libc))" by (simp add: global_writes_def ns0_def)
  show "list_all (\<lambda>(p, v). case scalar_width RtldGlobal p of None \<Rightarrow> False | Some k \<Rightarrow> v < 256 ^ k)
      (global_writes g main sl n libc)"
    unfolding global_writes_def list.pred_inject prod.case by (simp only: global_scalars option.case usize_fits list.pred_inject simp_thms)
qed

end
