(* ===== verification/Rtld_Publish.thy ===== *)
theory Rtld_Publish
  imports Rtld_Global
begin

text \<open>
  The publication functions of \<open>Rtld_Global\<close> give libc what it expects: for each of them the fields that are
  set with their values, and that everything else keeps its contents.
\<close>

section \<open>Auxiliary values\<close>

text \<open>What \<open>RtldGlobalRo::publish_aux\<close> writes, besides the processor defaults; \<open>len\<close> is the length of the platform string.\<close>

definition aux_writes :: "rtld_statics \<Rightarrow> ro_aux \<Rightarrow> usize \<Rightarrow> (step list \<times> nat) list" where
  "aux_writes st a len =
     [([Fld ''dl_catch_error''], unat (fn_catch_error st)), ([Fld ''dl_error_free''], unat (fn_error_free st)),
      ([Fld ''dl_tls_get_addr_soft''], unat (fn_tls_get_addr_soft st)), ([Fld ''dl_dlfcn_hook''], unat (dlfcn_hook st)),
      ([Fld ''dl_platform''], unat (ro_platform a)), ([Fld ''dl_platformlen''], unat len),
      ([Fld ''dl_pagesize''], unat (if ro_pagesize a = 0 then EXEC_PAGESIZE else ro_pagesize a)),
      ([Fld ''dl_minsigstacksize''], unat (ro_minsigstacksize a)), ([Fld ''dl_clktck''], unat (ro_clktck a) mod 2 ^ 32),
      ([Fld ''dl_fpu_control''], if ro_fpucw a = 0 then FPU_DEFAULT else unat (ro_fpucw a) mod 2 ^ 16),
      ([Fld ''dl_hwcap''], unat (ro_hwcap a)), ([Fld ''dl_auxv''], unat (ro_auxv a)),
      ([Fld ''dl_sysinfo_dso''], unat (ro_sysinfo_ehdr a)), ([Fld ''dl_sysinfo_map''], 0),
      ([Fld ''dl_hwcap2''], unat (ro_hwcap2 a)), ([Fld ''dl_hwcap3''], unat (ro_hwcap3 a)),
      ([Fld ''dl_hwcap4''], unat (ro_hwcap4 a))]"

lemma locate_ro_field: "map_of global_ro_table f = Some (off, t) \<Longrightarrow> locate RtldGlobalRo [Fld f] = Some (off, t)"
  by (simp add: locate_global_ro)

lemma ro_scalar: "map_of global_ro_table f = Some (off, Word n) \<Longrightarrow> scalar_width RtldGlobalRo [Fld f] = Some n"
  by (simp add: scalar_width_def scalar_at_def locate_global_ro)

lemma fpucw_fits: "(if b then FPU_DEFAULT else unat x mod 2 ^ 16) < 256 ^ 2"
  by (simp add: FPU_DEFAULT_def)

lemma aux_writes_ok:
  "distinct (map fst (aux_writes st a len))"
  "list_all (\<lambda>(p, v). case scalar_width RtldGlobalRo p of None \<Rightarrow> False | Some k \<Rightarrow> v < 256 ^ k) (aux_writes st a len)"
proof -
  show "distinct (map fst (aux_writes st a len))" by (simp add: aux_writes_def)
  show "list_all (\<lambda>(p, v). case scalar_width RtldGlobalRo p of None \<Rightarrow> False | Some k \<Rightarrow> v < 256 ^ k) (aux_writes st a len)"
    unfolding aux_writes_def list.pred_inject prod.case
    by (simp only: ro_scalar global_ro_lookup option.case usize_fits fpucw_fits list.pred_inject simp_thms)
qed
lemma publish_aux_stores:
  "publish_aux st m a =
     Option.bind (c_strlen (foldl (write_at RtldGlobalRo (rtld_global_ro st)) m (take 5 (aux_writes st a 0))) (ro_platform a))
       (\<lambda>len. Some (publish_x86_cpu_defaults (rtld_global_ro st)
         (foldl (write_at RtldGlobalRo (rtld_global_ro st)) m (aux_writes st a len))))"
  unfolding publish_aux_def publish_function_pointers_def aux_writes_def Let_def foldl.simps take_Cons_numeral
  by (simp only: take_Cons' foldl.simps Let_def pred_numeral_simps) simp

text \<open>The processor defaults: six words inside the byte array, which keep the other fields.\<close>

lemma cpu_features_place: "locate RtldGlobalRo [Fld ''dl_x86_cpu_features''] = Some (112, Arr 528 (Word 1))"
  by (simp add: locate_global_ro global_ro_lookup)

lemma cpu_features_offset:
  "RTLD_GLOBAL_RO_X86_FEATURES_OFFSET = 112" "x86_cpu_features g = g + 112"
  by (simp_all add: RTLD_GLOBAL_RO_X86_FEATURES_OFFSET_def x86_cpu_features_def place_of_def cpu_features_place)

lemma write_x86_cpu_usize_other:
  assumes "diverge p [Fld ''dl_x86_cpu_features'']"
  shows "read_at RtldGlobalRo g (write_x86_cpu_usize g m at v) p = read_at RtldGlobalRo g m p"
proof (cases "scalar_at RtldGlobalRo p")
  case None
  then show ?thesis by (simp add: read_at_def)
next
  case (Some x)
  obtain off n where x: "x = (off, n)" by fastforce
  have "off + n \<le> 112 \<or> 640 \<le> off"
    using locate_disjoint [OF rtld_wf(2) _ cpu_features_place assms, of off "Word n"] Some x by (simp add: scalar_at_Some)
  moreover have "off + n \<le> 928" using scalar_at_inside [OF rtld_wf(2)] Some x rtld_sizes by simp
  ultimately have "apart (g + of_nat off) n (g + of_nat (112 + at)) 8" if "at + 8 \<le> 528"
    using that by (intro apart_offsets) auto
  then show ?thesis
    by (simp add: write_x86_cpu_usize_def read_at_def Some x cpu_features_offset X86_CPU_FEATURES_SIZE_def write_usize_def
        read_write_list_apart algebra_simps)
qed

lemma write_x86_cpu_usize_apart:
  assumes "apart q k g 928"
  shows "read_list (write_x86_cpu_usize g m at v) q k = read_list m q k"
proof -
  have "apart q k (g + of_nat (112 + at)) 8" if "at + 8 \<le> 528" using assms that by (intro apart_subset) auto
  then show ?thesis
    by (simp add: write_x86_cpu_usize_def cpu_features_offset X86_CPU_FEATURES_SIZE_def write_usize_def read_write_list_apart
        algebra_simps)
qed

definition cpu_word :: "usize \<Rightarrow> mem \<Rightarrow> nat \<Rightarrow> usize" where
  "cpu_word g m b = read_usize m (g + of_nat (112 + b))"

lemma cpu_word_same: "at + 8 \<le> 528 \<Longrightarrow> cpu_word g (write_x86_cpu_usize g m at v) at = v"
  by (simp add: cpu_word_def write_x86_cpu_usize_def cpu_features_offset X86_CPU_FEATURES_SIZE_def add.assoc)

lemma cpu_word_other:
  assumes "b + 8 \<le> at \<or> at + 8 \<le> b" "b + 8 \<le> 528"
  shows "cpu_word g (write_x86_cpu_usize g m at v) b = cpu_word g m b"
proof (cases "at + 8 \<le> 528")
  case True
  then have "apart (g + of_nat (112 + b)) 8 (g + of_nat (112 + at)) 8" using assms by (intro apart_offsets) auto
  with True show ?thesis
    by (simp add: cpu_word_def write_x86_cpu_usize_def cpu_features_offset X86_CPU_FEATURES_SIZE_def add.assoc
        read_write_usize_apart)
qed (simp add: write_x86_cpu_usize_def X86_CPU_FEATURES_SIZE_def)

lemma publish_x86_cpu_defaults_other:
  "diverge p [Fld ''dl_x86_cpu_features''] \<Longrightarrow>
     read_at RtldGlobalRo g (publish_x86_cpu_defaults g m) p = read_at RtldGlobalRo g m p"
  "apart q k g 928 \<Longrightarrow> read_list (publish_x86_cpu_defaults g m) q k = read_list m q k"
  by (simp_all add: publish_x86_cpu_defaults_def x86_cpu_defaults_def write_x86_cpu_usize_other write_x86_cpu_usize_apart)

text \<open>The thresholds where libc reads them, as offsets in \<open>_rtld_global_ro\<close>.\<close>

lemma publish_x86_cpu_defaults_values:
  "read_usize (publish_x86_cpu_defaults g m) (g + 0x1e0) = 32 * 1024"
  "\<forall>off \<in> {0x1e8, 0x1f0, 0x1f8, 0x200, 0x208}. read_usize (publish_x86_cpu_defaults g m) (g + off) = 1024 * 1024"
proof -
  have cpu: "cpu_word g (publish_x86_cpu_defaults g m) 368 = 32 * 1024"
    "\<forall>b \<in> {376, 384, 392, 400, 408}. cpu_word g (publish_x86_cpu_defaults g m) b = 1024 * 1024"
    unfolding publish_x86_cpu_defaults_def x86_cpu_defaults_def cpu_features_offset
    by (simp_all add: cpu_word_same cpu_word_other)
  show "read_usize (publish_x86_cpu_defaults g m) (g + 0x1e0) = 32 * 1024" using cpu(1) by (simp add: cpu_word_def)
  show "\<forall>off \<in> {0x1e8, 0x1f0, 0x1f8, 0x200, 0x208}. read_usize (publish_x86_cpu_defaults g m) (g + off) = 1024 * 1024"
    using cpu(2) by (simp add: cpu_word_def)
qed
lemma c_strlen_loop_string:
  "cstr_from m (p + len) s \<Longrightarrow> c_strlen_loop m p len = Some (len + of_nat (length s))"
proof (induction s arbitrary: len)
  case Nil
  then show ?case by (subst c_strlen_loop.simps) simp
next
  case (Cons b s)
  then have "cstr_from m (p + (len + 1)) s" "m (p + len) \<noteq> 0" by (auto simp: algebra_simps)
  then show ?case using Cons.IH by (subst c_strlen_loop.simps) (simp add: algebra_simps)
qed

text \<open>The platform argument: null or a string outside the static.\<close>

definition platform_ok :: "mem \<Rightarrow> usize \<Rightarrow> usize \<Rightarrow> bytes \<Rightarrow> bool" where
  "platform_ok m ro p s \<longleftrightarrow> (if p = 0 then s = [] else cstr_at m p s \<and> apart p (length s + 1) ro 928)"

lemma cstr_from_cong:
  "(\<And>i. i \<le> length s \<Longrightarrow> m' (p + of_nat i) = m (p + of_nat i)) \<Longrightarrow> cstr_from m' p s = cstr_from m p s"
proof (induction s arbitrary: p)
  case Nil
  from Nil [of 0] show ?case by simp
next
  case (Cons b s)
  have "cstr_from m' (p + 1) s = cstr_from m (p + 1) s"
  proof (rule Cons.IH)
    show "m' (p + 1 + of_nat i) = m (p + 1 + of_nat i)" if "i \<le> length s" for i
      using Cons.prems [of "Suc i"] that by (simp add: add.assoc)
  qed
  moreover have "m' p = m p" using Cons.prems [of 0] by simp
  ultimately show ?case by simp
qed

lemma platform_strlen:
  assumes "platform_ok m ro p s" "\<And>q k. apart q k ro 928 \<Longrightarrow> read_list m' q k = read_list m q k"
  shows "c_strlen m' p = Some (of_nat (length s))"
proof (cases "p = 0")
  case True
  then show ?thesis using assms(1) by (simp add: platform_ok_def c_strlen_def)
next
  case False
  then have s: "cstr_from m p s" and ap: "apart p (length s + 1) ro 928"
    using assms(1) by (simp_all add: platform_ok_def cstr_at_def)
  have "m' (p + of_nat i) = m (p + of_nat i)" if "i \<le> length s" for i
    using arg_cong [OF assms(2) [OF ap], of "\<lambda>l. l ! i"] that by (simp add: read_list_def del: upt_Suc)
  with s have "cstr_from m' p s" using cstr_from_cong by blast
  then show ?thesis using c_strlen_loop_string [of m' p 0 s] False by (simp add: c_strlen_def)
qed

text \<open>The fields after \<open>publish_aux\<close>, whatever the length \<open>len\<close> of the platform string.\<close>

lemma publish_aux_reads:
  assumes "m' = publish_x86_cpu_defaults (rtld_global_ro st)
      (foldl (write_at RtldGlobalRo (rtld_global_ro st)) m (aux_writes st a len))"
    and "diverge p [Fld ''dl_x86_cpu_features'']"
  shows "read_at RtldGlobalRo (rtld_global_ro st) m' p =
    (case map_of (aux_writes st a len) p of None \<Rightarrow> read_at RtldGlobalRo (rtld_global_ro st) m p | Some v \<Rightarrow> Some v)"
  unfolding assms(1) publish_x86_cpu_defaults_other(1) [OF assms(2)] by (rule global_ro_vars.load_table [OF aux_writes_ok])

text \<open>C16. Publishing the auxiliary values: libc finds the entry points of the interpreter and the values of the auxiliary
  vector in the fields of \<open>_rtld_global_ro\<close> (with the defaults 4096 and 0x37f for a missing page size and control
  word, and the length of the platform string), and the six cache thresholds at the offsets where its selectors read
  them; the other fields and all memory outside keep their contents.\<close>

theorem publish_aux_correct:
  assumes "platform_ok m (rtld_global_ro st) (ro_platform a) s"
  shows "\<exists>m'. publish_rtld_ro_aux st m a = Some m' \<and>
    (\<forall>p. diverge p [Fld ''dl_x86_cpu_features''] \<longrightarrow> read_at RtldGlobalRo (rtld_global_ro st) m' p =
       (case map_of (aux_writes st a (of_nat (length s))) p of
          None \<Rightarrow> read_at RtldGlobalRo (rtld_global_ro st) m p | Some v \<Rightarrow> Some v)) \<and>
    read_usize m' (rtld_global_ro st + 0x1e0) = 32 * 1024 \<and>
    (\<forall>off \<in> {0x1e8, 0x1f0, 0x1f8, 0x200, 0x208}. read_usize m' (rtld_global_ro st + off) = 1024 * 1024) \<and>
    (\<forall>q k. apart q k (rtld_global_ro st) 928 \<longrightarrow> read_list m' q k = read_list m q k)"
proof -
  let ?g = "rtld_global_ro st" and ?ws = "aux_writes st a (of_nat (length s))"
  let ?m1 = "foldl (write_at RtldGlobalRo ?g) m ?ws"
  have frame: "read_list (foldl (write_at RtldGlobalRo ?g) m ws) q k = read_list m q k" if "apart q k ?g 928" for q k ws
    using that rtld_wf(2) by (simp add: foldl_write_at_frame rtld_sizes)
  have "publish_rtld_ro_aux st m a = Some (publish_x86_cpu_defaults ?g ?m1)"
    by (simp add: publish_rtld_ro_aux_def publish_aux_stores platform_strlen [OF assms frame])
  then show ?thesis
    using frame publish_x86_cpu_defaults_values publish_x86_cpu_defaults_other(2) publish_aux_reads [OF refl] by simp
qed

definition sample_aux :: ro_aux where
  "sample_aux = \<lparr>ro_auxv = 0x7fff00, ro_platform = 0x7000, ro_pagesize = 0, ro_minsigstacksize = 2048, ro_clktck = 100,
     ro_fpucw = 0, ro_hwcap = 2, ro_hwcap2 = 3, ro_hwcap3 = 0, ro_hwcap4 = 0, ro_sysinfo_ehdr = 0x7ff000\<rparr>"

definition sample_mem :: mem where
  "sample_mem x = (if x = 0x7000 then 120 else if x = 0x7001 then 56 else 0)"

theorem publish_aux_correct_witness:
  "\<exists>m'. publish_rtld_ro_aux sample_statics sample_mem sample_aux = Some m' \<and>
     read_at RtldGlobalRo 0x11000 m' [Fld ''dl_platformlen''] = Some 2 \<and>
     read_at RtldGlobalRo 0x11000 m' [Fld ''dl_pagesize''] = Some 4096 \<and> read_usize m' (0x11000 + 0x1e0) = 32768"
proof -
  have "platform_ok sample_mem (rtld_global_ro sample_statics) (ro_platform sample_aux) [120, 56]"
    by (simp add: platform_ok_def cstr_at_def sample_statics_def sample_aux_def sample_mem_def apart_addresses)
  from publish_aux_correct [OF this] obtain m' where
    m': "publish_rtld_ro_aux sample_statics sample_mem sample_aux = Some m'"
    and rd: "\<forall>p. diverge p [Fld ''dl_x86_cpu_features''] \<longrightarrow>
      read_at RtldGlobalRo (rtld_global_ro sample_statics) m' p =
       (case map_of (aux_writes sample_statics sample_aux (of_nat (length [120 :: 8 word, 56]))) p of
          None \<Rightarrow> read_at RtldGlobalRo (rtld_global_ro sample_statics) sample_mem p | Some v \<Rightarrow> Some v)"
    and cpu: "read_usize m' (rtld_global_ro sample_statics + 0x1e0) = 32 * 1024" by blast
  have g: "rtld_global_ro sample_statics = 0x11000" by (simp add: sample_statics_def)
  show ?thesis
    using m' cpu rd [rule_format, of "[Fld ''dl_platformlen'']"] rd [rule_format, of "[Fld ''dl_pagesize'']"]
    by (simp add: g aux_writes_def sample_aux_def EXEC_PAGESIZE_def)
qed

text \<open>The search list and the debugger structure.\<close>

definition searchlist_writes :: "usize \<Rightarrow> usize \<Rightarrow> (step list \<times> nat) list" where
  "searchlist_writes maps_at n =
     [([Fld ''dl_initial_searchlist'', Fld ''list''], unat maps_at),
      ([Fld ''dl_initial_searchlist'', Fld ''nlist''], unat n mod 2 ^ 32),
      ([Fld ''dl_initial_searchlist'', Fld ''_padding''], 0)]"

lemma searchlist_stores:
  "publish_initial_searchlist g m maps_at n = foldl (write_at RtldGlobalRo g) m (searchlist_writes maps_at n)"
  by (simp add: publish_initial_searchlist_def write_value_def under_def searchlist_writes_def)

lemma searchlist_published:
  "read_at RtldGlobalRo g (publish_initial_searchlist g m maps_at n) p =
     (case map_of (searchlist_writes maps_at n) p of None \<Rightarrow> read_at RtldGlobalRo g m p | Some v \<Rightarrow> Some v)"
  unfolding searchlist_stores
proof (rule global_ro_vars.load_table)
  show "list_all (\<lambda>(p, v). case scalar_width RtldGlobalRo p of None \<Rightarrow> False | Some k \<Rightarrow> v < 256 ^ k) (searchlist_writes maps_at n)"
    using unat_usize_bound [of maps_at]
    by (simp add: searchlist_writes_def scalar_width_def scalar_at_def locate_global_ro global_ro_lookup RtldScopeElem_def Let_def)
qed (simp add: searchlist_writes_def)

lemma r_debug_published:
  assumes "f \<in> {''version'', ''map'', ''brk'', ''state'', ''ldbase''}"
  shows "read_at RDebug d (write_value RDebug d [] m (loaded_r_debug st bs main)) [Fld f] =
    value_at (loaded_r_debug st bs main) [Fld f]"
proof (rule read_write_value)
  show "has_type (loaded_r_debug st bs main) RDebug"
    using unat_usize_bound by (simp add: loaded_r_debug_def RDebug_def)
  show "scalar_width RDebug [Fld f] \<noteq> None"
    using assms by (auto simp: scalar_width_def scalar_at_def RDebug_def Let_def)
qed (simp_all add: rdebug_layout)

text \<open>What \<open>publish_loaded_globals\<close> leaves in the three statics.\<close>

lemma publish_loaded_globals_reads:
  assumes "statics_apart st" and "publish_loaded_globals st m links bs main startup maps_at = (m', links')"
  shows "(\<forall>p. read_at RtldGlobal (rtld_global st) m' p =
      (case map_of (global_writes (rtld_global st) main (rtld_global_ro st + 48) (of_nat (length (st_maps startup)))
         (st_libc_map startup)) p of None \<Rightarrow> read_at RtldGlobal (rtld_global st) m p | Some v \<Rightarrow> Some v)) \<and>
    (\<forall>p. read_at RtldGlobalRo (rtld_global_ro st) m' p =
      (case map_of (searchlist_writes maps_at (of_nat (length (st_maps startup)))) p of
         None \<Rightarrow> read_at RtldGlobalRo (rtld_global_ro st) m p | Some v \<Rightarrow> Some v)) \<and>
    map (\<lambda>f. read_at RDebug (r_debug_static st) m' [Fld f]) [''version'', ''map'', ''brk'', ''state'', ''ldbase''] =
      map Some [1, unat main, unat (fn_debug_state st), 0, unat (obj_load_bias (bs_rtld bs))] \<and>
    links' = link_loaded_objects links (st_maps startup)"
proof -
  let ?g = "rtld_global st" and ?r = "rtld_global_ro st" and ?d = "r_debug_static st"
  let ?n = "of_nat (length (st_maps startup)) :: usize"
  define m1 where "m1 = write_value RDebug ?d [] m (loaded_r_debug st bs main)"
  define m2 where "m2 = RtldGlobal_publish ?g m1 main (?r + 48) ?n (st_libc_map startup)"
  have sl: "initial_searchlist ?r = ?r + 48"
    by (simp add: initial_searchlist_def place_of_def locate_global_ro global_ro_lookup)
  have m': "m' = publish_initial_searchlist ?r m2 maps_at ?n" and links: "links' = link_loaded_objects links (st_maps startup)"
    using assms(2) by (auto simp: publish_loaded_globals_def publish_rtld_link_maps_def m1_def m2_def sl Let_def)
  note ap = statics_apartD [OF assms(1)] and frame = read_at_apart rtld_wf rtld_sizes rdebug_layout
  have 1: "read_at RtldGlobal ?g m1 p = read_at RtldGlobal ?g m p" "read_at RtldGlobalRo ?r m1 p = read_at RtldGlobalRo ?r m p" for p
    using ap by (simp_all add: m1_def frame)
  have 2: "read_at RtldGlobalRo ?r m2 p = read_at RtldGlobalRo ?r m1 p" "read_at RDebug ?d m2 p = read_at RDebug ?d m1 p" for p
    using ap by (simp_all add: m2_def global_publish_stores frame)
  have 3: "read_at RtldGlobal ?g m' p = read_at RtldGlobal ?g m2 p" "read_at RDebug ?d m' p = read_at RDebug ?d m2 p" for p
    using ap by (simp_all add: m' searchlist_stores frame)
  have d: "read_at RDebug ?d m' [Fld f] = value_at (loaded_r_debug st bs main) [Fld f]"
    if "f \<in> {''version'', ''map'', ''brk'', ''state'', ''ldbase''}" for f
    using r_debug_published [OF that] by (simp add: 3 2 m1_def)
  have "map (\<lambda>f. read_at RDebug ?d m' [Fld f]) [''version'', ''map'', ''brk'', ''state'', ''ldbase''] =
      map Some [1, unat main, unat (fn_debug_state st), 0, unat (obj_load_bias (bs_rtld bs))]"
    by (simp add: d) (simp add: loaded_r_debug_def)
  moreover note links
  moreover have "read_at RtldGlobal ?g m' p = (case map_of (global_writes ?g main (?r + 48) ?n (st_libc_map startup)) p of
      None \<Rightarrow> read_at RtldGlobal ?g m p | Some v \<Rightarrow> Some v)" for p
    unfolding 3(1) m2_def global_published 1(1) ..
  moreover have "read_at RtldGlobalRo ?r m' p = (case map_of (searchlist_writes maps_at ?n) p of
      None \<Rightarrow> read_at RtldGlobalRo ?r m p | Some v \<Rightarrow> Some v)" for p
    unfolding m' searchlist_published 2(1) 1(2) ..
  ultimately show ?thesis by (intro conjI allI)
qed

text \<open>C12. After the start-up group is loaded, the fields that \<open>publish_loaded_globals\<close> sets in \<open>_rtld_global\<close> and
  \<open>_rtld_global_ro\<close> describe it: one name space headed by the program's link map with the number of loaded objects, the
  search list at the address of the published array, empty stack lists that point to themselves; the debugger
  structure is consistent and names the program and the interpreter; all other fields keep their values and the
  link maps form one list.\<close>

theorem publish_loaded_globals_correct:
  assumes "statics_apart st" and "distinct (st_maps startup)"
    and "publish_loaded_globals st m links bs main startup maps_at = (m', links')"
  shows "(\<forall>p. read_at RtldGlobal (rtld_global st) m' p =
      (case map_of (global_writes (rtld_global st) main (rtld_global_ro st + 48) (of_nat (length (st_maps startup)))
         (st_libc_map startup)) p of None \<Rightarrow> read_at RtldGlobal (rtld_global st) m p | Some v \<Rightarrow> Some v)) \<and>
    (\<forall>p. read_at RtldGlobalRo (rtld_global_ro st) m' p =
      (case map_of (searchlist_writes maps_at (of_nat (length (st_maps startup)))) p of
         None \<Rightarrow> read_at RtldGlobalRo (rtld_global_ro st) m p | Some v \<Rightarrow> Some v)) \<and>
    map (\<lambda>f. read_at RDebug (r_debug_static st) m' [Fld f]) [''version'', ''map'', ''brk'', ''state'', ''ldbase''] =
      map Some [1, unat main, unat (fn_debug_state st), 0, unat (obj_load_bias (bs_rtld bs))] \<and>
    seg links' 0 (st_maps startup) 0"
  using publish_loaded_globals_reads [OF assms(1,3)] link_loaded_loop_seg [OF assms(2)]
  by (simp only: link_loaded_objects_def) blast

theorem publish_loaded_globals_correct_witness:
  "\<exists>m' links'. publish_loaded_globals sample_statics (\<lambda>_. 0) (\<lambda>_. \<lparr>l_prev = 0, l_next = 0, l_real = 0\<rparr>)
       \<lparr>bs_process = \<lparr>argc = 0, argv = 0, envp = 0, auxv = 0, exec_path = 0\<rparr>,
        bs_main = \<lparr>obj_load_bias = 0, obj_phdr = 0, obj_phnum = 0, obj_entry = 0\<rparr>,
        bs_rtld = \<lparr>obj_load_bias = 0x400000, obj_phdr = 0, obj_phnum = 0, obj_entry = 0\<rparr>\<rparr>
       0x7000 \<lparr>st_main = 0x7000, st_maps = [0x7000, 0x1000], st_libc_map = 0\<rparr> 0x9000 = (m', links') \<and>
     read_at RtldGlobal 0x10000 m' [Fld ''dl_ns'', Idx 0, Fld ''nloaded''] = Some 2 \<and>
     read_at RtldGlobal 0x10000 m' [Fld ''dl_stack_user'', Fld ''next''] = Some (unat (0x10000 + 2064 :: usize)) \<and>
     read_at RtldGlobalRo 0x11000 m' [Fld ''dl_initial_searchlist'', Fld ''list''] = Some 0x9000 \<and>
     seg links' 0 [0x7000, 0x1000] 0"
proof -
  let ?bs = "\<lparr>bs_process = \<lparr>argc = 0, argv = 0, envp = 0, auxv = 0, exec_path = 0\<rparr>,
        bs_main = \<lparr>obj_load_bias = 0, obj_phdr = 0, obj_phnum = 0, obj_entry = 0\<rparr>,
        bs_rtld = \<lparr>obj_load_bias = 0x400000, obj_phdr = 0, obj_phnum = 0, obj_entry = 0\<rparr>\<rparr>"
  let ?su = "\<lparr>st_main = 0x7000, st_maps = [0x7000, 0x1000], st_libc_map = 0\<rparr>"
  let ?ln = "\<lambda>_. \<lparr>l_prev = 0, l_next = 0, l_real = 0\<rparr>"
  obtain m' links' where p: "publish_loaded_globals sample_statics (\<lambda>_. 0) ?ln ?bs 0x7000 ?su 0x9000 = (m', links')" by fastforce
  have d: "distinct (st_maps ?su)" by simp
  note * = publish_loaded_globals_correct [OF sample_statics_apart d p]
  have g: "rtld_global sample_statics = 0x10000" "rtld_global_ro sample_statics = 0x11000" by (simp_all add: sample_statics_def)
  have "read_at RtldGlobal 0x10000 m' [Fld ''dl_ns'', Idx 0, Fld ''nloaded''] = Some 2"
    "read_at RtldGlobal 0x10000 m' [Fld ''dl_stack_user'', Fld ''next''] = Some (unat (0x10000 + 2064 :: usize))"
    using conjunct1 [OF *] unfolding g by (simp_all add: global_writes_def ns0_def)
  moreover have "read_at RtldGlobalRo 0x11000 m' [Fld ''dl_initial_searchlist'', Fld ''list''] = Some 0x9000"
    using conjunct1 [OF conjunct2 [OF *]] unfolding g by (simp add: searchlist_writes_def)
  ultimately show ?thesis using p * by auto
qed

text \<open>The static TLS layout: size and alignment in \<open>_rtld_global_ro\<close>, the offset of the rseq area in its own static.\<close>

lemma publish_tls_layout_correct:
  assumes "statics_apart st"
  shows "read_at RtldGlobalRo (rtld_global_ro st) (publish_tls_layout tls st m) [Fld ''dl_tls_static_size''] =
      Some (unat (fst (static_info tls)))"
    and "read_at RtldGlobalRo (rtld_global_ro st) (publish_tls_layout tls st m) [Fld ''dl_tls_static_align''] =
      Some (unat (max (snd (static_info tls)) 1))"
    and "read_usize (publish_tls_layout tls st m) (rseq_offset_static st) = rseq_offset tls"
proof -
  obtain sz al where i: "static_info tls = (sz, al)" by fastforce
  have w: "scalar_width RtldGlobalRo [Fld ''dl_tls_static_size''] = Some 8" "scalar_width RtldGlobalRo [Fld ''dl_tls_static_align''] = Some 8"
    by (simp_all add: ro_scalar global_ro_lookup)
  note ap = statics_apartD [OF assms]
  show "read_at RtldGlobalRo (rtld_global_ro st) (publish_tls_layout tls st m) [Fld ''dl_tls_static_size''] =
      Some (unat (fst (static_info tls)))"
    using ap usize_fits(3) [of sz]
    by (simp add: publish_tls_layout_def i publish_rseq_offset_def publish_tls_static_info_def ro_publish_tls_static_info_def
        read_at_write_usize rtld_wf rtld_sizes global_ro_vars.load_store w)
  show "read_at RtldGlobalRo (rtld_global_ro st) (publish_tls_layout tls st m) [Fld ''dl_tls_static_align''] =
      Some (unat (max (snd (static_info tls)) 1))"
    using ap usize_fits(3) [of "max al 1"]
    by (simp add: publish_tls_layout_def i publish_rseq_offset_def publish_tls_static_info_def ro_publish_tls_static_info_def
        read_at_write_usize rtld_wf rtld_sizes global_ro_vars.load_store w)
  show "read_usize (publish_tls_layout tls st m) (rseq_offset_static st) = rseq_offset tls"
    by (simp add: publish_tls_layout_def i publish_rseq_offset_def)
qed

end
