(* ===== verification/Boot.thy ===== *)
theory Boot
  imports Rtld_Publish Api Host
begin

text \<open>
  The bootstrap as a whole (\<open>rtld_bootstrap\<close> of \<open>src/rtld/impl/src/bootstrap/mod.rs\<close>, \<open>run\<close> and the functions it
  calls in \<open>startup.rs\<close>, \<open>register_loaded\<close> and \<open>link_mapped_root\<close> of \<open>src/src/runtime/rtld.rs\<close>): from the stack the
  kernel left to the entry point of the program, through self relocation, the published statics, the loaded and
  linked group and the hook that runs before the initialisers.  What is not part of the repository is a field of
  \<open>boot_ops\<close>: \<open>elf_loader\<close>'s loading of an image that is mapped or in a file, the kernel, the program headers in
  memory and the environment strings.
\<close>

section \<open>Parameters and state\<close>

text \<open>What \<open>load_exec\<close> returns: the image if it is dynamic, its program headers in memory, its entry point.\<close>

record 'raw exec_image =
  ex_dynamic :: "'raw option"
  ex_phdrs :: "(usize \<times> usize) option"
  ex_entry :: usize

record ('c, 'm, 'e, 'raw, 'k, 'src) boot_ops =
  b_phdr_size :: usize
  b_read_phdr :: "usize \<Rightarrow> elf_phdr"
  b_read_ehdr :: "usize \<Rightarrow> elf_header"
  b_files :: files
  b_kernel :: "'k kernel_ops"
  b_load_mapped :: "bytes \<Rightarrow> usize \<Rightarrow> elf_phdr list \<Rightarrow> usize \<Rightarrow> 'e + 'raw"
  b_load_exec :: "bytes \<Rightarrow> 'e + 'raw exec_image"
  b_entry :: "'raw \<Rightarrow> usize"
  b_name :: "'raw \<Rightarrow> bytes"
  b_link_map :: "'raw \<Rightarrow> usize option"
  b_module :: "'raw \<Rightarrow> 'm"
  b_l_addr :: "usize \<Rightarrow> usize"
  b_env :: "usize \<Rightarrow> bytes list option"
  b_box_at :: "usize list \<Rightarrow> usize"
  b_tls :: "'c \<Rightarrow> 'src tls_state"
  b_context_error :: "'e open_error"
  b_show :: "'e \<Rightarrow> bytes"

text \<open>The state the bootstrap changes besides the registry: the statics in memory, the words of the stack, the
  link maps, the statics \<open>__libc_stack_end\<close>, \<open>_dl_argv\<close>, \<open>ARGC\<close>, \<open>ARGV\<close>, \<open>ENVP\<close> and \<open>STARTUP_ROOT\<close>, the kernel, and
  the calls of \<open>__libc_early_init\<close>.\<close>

record ('i, 'y, 'k) boot_world =
  w_mem :: mem
  w_stack :: wmem
  w_links :: store
  w_stack_end :: usize
  w_dl_argv :: usize
  w_globals :: libc_globals
  w_root :: "'i option"
  w_kernel :: 'k
  w_early :: "'y list"

section \<open>Loading the objects of the start-up\<close>

definition RTLD_NAME :: bytes where "RTLD_NAME = ascii ''ld-linux-x86-64.so.2''"

text \<open>\<open>slice::from_raw_parts(phdr, phnum).to_vec()\<close>.\<close>

definition phdr_list :: "usize \<Rightarrow> (usize \<Rightarrow> elf_phdr) \<Rightarrow> usize \<Rightarrow> usize \<Rightarrow> elf_phdr list" where
  "phdr_list sz rd p n = map (\<lambda>i. rd (p + of_nat i * sz)) [0..<unat n]"

definition load_bootstrap_object ::
  "('c, 'm, 'e, 'raw, 'k, 'src) boot_ops \<Rightarrow> bytes \<Rightarrow> bootstrap_object \<Rightarrow> 'e open_error + 'raw" where
  "load_bootstrap_object b name obj =
     (if obj_phdr obj = 0 \<or> obj_phnum obj = 0
      then Inl (FindLibError (ascii ''bootstrap object is missing program headers''))
      else case b_load_mapped b name (obj_load_bias obj)
                  (phdr_list (b_phdr_size b) (b_read_phdr b) (obj_phdr obj) (obj_phnum obj)) (obj_entry obj) of
          Inl e \<Rightarrow> Inl (LoaderError e)
        | Inr img \<Rightarrow> Inr img)"

definition rtld_register_loaded ::
  "('c, 'i, 'l, 'm, 'y) link_ops \<Rightarrow> ('c, 'm, 'e, 'raw, 'k, 'src) boot_ops \<Rightarrow> ('c, 'l, 'm) manager \<Rightarrow> 'raw \<Rightarrow> open_flags \<Rightarrow>
     (('c, 'l, 'm) manager \<times> ('e open_error + usize)) run" where
  "rtld_register_loaded ops b mg img flags =
     (case b_link_map b img of
        None \<Rightarrow> Done (mg, Inl (FindLibError (ascii ''loaded object is missing link map'')))
      | Some p \<Rightarrow> run_bind (register_loaded ops mg (b_module b img) flags) (\<lambda>mg'. Done (mg', Inr p)))"

definition all_values :: "('c, 'i, 'l, 'm, 'y) link_ops \<Rightarrow> ('c, 'l, 'm) manager \<Rightarrow> 'm list" where
  "all_values ops mg = List.map_filter (module_of ops (link_ctx mg)) (load_order ops (link_ctx mg))"

definition find_loaded_symbol :: "('c, 'i, 'l, 'm, 'y) link_ops \<Rightarrow> ('c, 'l, 'm) manager \<Rightarrow> bytes \<Rightarrow> 'y option" where
  "find_loaded_symbol ops mg name = find_map (\<lambda>lib. get_symbol ops lib name) (all_values ops mg)"

text \<open>\<open>Drop for ModuleLease\<close>: the lease goes back to the registry.\<close>

definition drop_opened ::
  "('c, 'i, 'l, 'm, 'y) link_ops \<Rightarrow> ('c, 'l, 'm) manager \<Rightarrow> ('l, 'm) opened_library \<Rightarrow> ('c, 'l, 'm) manager run" where
  "drop_opened ops mg ol = run_bind (release ops mg (lease ol)) (\<lambda>(mg', _). Done mg')"

section \<open>Linking the program\<close>

definition open_mapped ::
  "('c, 'i, 'l, 'm, 'y) link_ops \<Rightarrow> ('c, 'i, 'l, 'e, 'raw, 'p, 'q, 'b, 'f) linker_ops \<Rightarrow>
     (('c, 'l, 'm) manager \<Rightarrow> 'x \<Rightarrow> 'i \<Rightarrow> (('c, 'l, 'm) manager \<times> 'x \<times> 'e open_error option) run) \<Rightarrow> bytes list option \<Rightarrow>
     ('c, 'l, 'm) manager \<Rightarrow> 'x \<Rightarrow> bytes \<Rightarrow> bytes \<Rightarrow> 'raw \<Rightarrow> open_flags \<Rightarrow>
     (('c, 'l, 'm) manager \<times> 'x \<times> ('e open_error + ('l, 'm) opened_library)) run" where
  "open_mapped ops lk before_init env mg x request k img flags =
     open_with ops lk before_init env mg x request flags (Mapped k img) None"

declare open_mapped_def [simp]

definition link_mapped_root ::
  "('c, 'i, 'l, 'm, 'y) link_ops \<Rightarrow> ('c, 'i, 'l, 'e, 'raw, 'p, 'q, 'b, 'f) linker_ops \<Rightarrow>
     ('c, 'm, 'e, 'raw, 'k, 'src) boot_ops \<Rightarrow> ('c, 'l, 'm) manager \<Rightarrow> ('i, 'y, 'k) boot_world \<Rightarrow> bytes \<Rightarrow> 'raw \<Rightarrow> open_flags \<Rightarrow>
     usize \<Rightarrow> (('c, 'l, 'm) manager \<Rightarrow> ('i, 'y, 'k) boot_world \<Rightarrow> startup_state \<Rightarrow> ('i, 'y, 'k) boot_world \<times> 'e open_error option) \<Rightarrow>
     (('c, 'l, 'm) manager \<times> ('i, 'y, 'k) boot_world \<times> 'e open_error option) run" where
  "link_mapped_root ops lk b mg w root_request img flags rtld before_init =
     run_bind (open_mapped ops lk (startup_hook ops (b_l_addr b) (b_context_error b) before_init rtld)
         (b_env b (g_envp (w_globals w))) mg (None, w) root_request (root_key (b_name b img)) img flags)
       (\<lambda>(mg1, (startup_root, w1), r).
         case r of
           Inl e \<Rightarrow> Done (mg1, w1, Some e)
         | Inr ol \<Rightarrow> run_bind (drop_opened ops mg1 ol) (\<lambda>mg2. Done (mg2, w1\<lparr>w_root := startup_root\<rparr>, None)))"

text \<open>The closure that \<open>link_startup_root\<close> passes: the loaded group is published, and libc's early initialisation is
  called if some loaded object has it.\<close>

definition startup_publish ::
  "('c, 'i, 'l, 'm, 'y) link_ops \<Rightarrow> ('c, 'm, 'e, 'raw, 'k, 'src) boot_ops \<Rightarrow> rtld_statics \<Rightarrow> bootstrap_state \<Rightarrow>
     ('c, 'l, 'm) manager \<Rightarrow> ('i, 'y, 'k) boot_world \<Rightarrow> startup_state \<Rightarrow> ('i, 'y, 'k) boot_world \<times> 'e open_error option" where
  "startup_publish ops b st bs mg w startup =
     (let (m, links) = publish_loaded_globals st (w_mem w) (w_links w) bs (st_main startup) startup (b_box_at b (st_maps startup));
          m = publish_tls_layout (b_tls b (link_ctx mg)) st m;
          w = w\<lparr>w_mem := m, w_links := links\<rparr>
      in (case find_loaded_symbol ops mg (ascii ''__libc_early_init'') of
            None \<Rightarrow> w
          | Some init \<Rightarrow> w\<lparr>w_early := w_early w @ [init]\<rparr>, None))"

definition link_startup_root ::
  "('c, 'i, 'l, 'm, 'y) link_ops \<Rightarrow> ('c, 'i, 'l, 'e, 'raw, 'p, 'q, 'b, 'f) linker_ops \<Rightarrow>
     ('c, 'm, 'e, 'raw, 'k, 'src) boot_ops \<Rightarrow> rtld_statics \<Rightarrow> ('c, 'l, 'm) manager \<Rightarrow> ('i, 'y, 'k) boot_world \<Rightarrow> bytes \<Rightarrow> 'raw \<Rightarrow>
     bootstrap_state \<Rightarrow> usize \<Rightarrow> (('c, 'l, 'm) manager \<times> ('i, 'y, 'k) boot_world \<times> 'e open_error option) run" where
  "link_startup_root ops lk b st mg w root_request root bs rtld =
     (let flags = RTLD_GLOBAL OR RTLD_NOW OR RTLD_NODELETE;
          w = w\<lparr>w_links := (w_links w)(rtld := (w_links w rtld)\<lparr>l_next := 0, l_prev := 0, l_real := rtld\<rparr>)\<rparr>
      in link_mapped_root ops lk b mg w root_request root flags rtld (startup_publish ops b st bs))"

definition prepare_kernel_mapped_main ::
  "('c, 'i, 'l, 'm, 'y) link_ops \<Rightarrow> ('c, 'i, 'l, 'e, 'raw, 'p, 'q, 'b, 'f) linker_ops \<Rightarrow>
     ('c, 'm, 'e, 'raw, 'k, 'src) boot_ops \<Rightarrow> rtld_statics \<Rightarrow> ('c, 'l, 'm) manager \<Rightarrow> ('i, 'y, 'k) boot_world \<Rightarrow>
     bootstrap_state \<Rightarrow> usize \<Rightarrow> (('c, 'l, 'm) manager \<times> ('i, 'y, 'k) boot_world \<times> ('e open_error + usize)) run" where
  "prepare_kernel_mapped_main ops lk b st mg w bs rtld =
     (case load_bootstrap_object b [] (bs_main bs) of
        Inl e \<Rightarrow> Done (mg, w, Inl e)
      | Inr main \<Rightarrow>
          run_bind (link_startup_root ops lk b st mg w [] main bs rtld) (\<lambda>(mg1, w1, r).
          Done (mg1, w1, case r of Some e \<Rightarrow> Inl e | None \<Rightarrow> Inr (b_entry b main))))"

text \<open>\<open>None\<close>: the path or the auxiliary vector has no end.\<close>

definition prepare_direct_exec ::
  "('c, 'i, 'l, 'm, 'y) link_ops \<Rightarrow> ('c, 'i, 'l, 'e, 'raw, 'p, 'q, 'b, 'f) linker_ops \<Rightarrow>
     ('c, 'm, 'e, 'raw, 'k, 'src) boot_ops \<Rightarrow> rtld_statics \<Rightarrow> ('c, 'l, 'm) manager \<Rightarrow> ('i, 'y, 'k) boot_world \<Rightarrow>
     bootstrap_state \<Rightarrow> usize \<Rightarrow> (('c, 'l, 'm) manager \<times> ('i, 'y, 'k) boot_world \<times> ('e open_error + usize)) run option" where
  "prepare_direct_exec ops lk b st mg w bs rtld =
     (case cstr_bytes (w_mem w) (exec_path (bs_process bs)) of
        None \<Rightarrow> None
      | Some path \<Rightarrow>
          (if from_utf8 path = None
           then Some (Done (mg, w, Inl (FindLibError (ascii ''executable path is not valid UTF-8''))))
           else case b_load_exec b path of
               Inl e \<Rightarrow> Some (Done (mg, w, Inl (LoaderError e)))
             | Inr exec \<Rightarrow>
                 (let (ph, num) = (case ex_phdrs exec of Some x \<Rightarrow> x | None \<Rightarrow> (0, 0)) in
                  case patch_auxv (b_phdr_size b) (w_stack w) (auxv (bs_process bs)) ph num (obj_load_bias (bs_rtld bs))
                         (ex_entry exec) (exec_path (bs_process bs)) of
                    None \<Rightarrow> None
                  | Some stack' \<Rightarrow>
                      (let w = w\<lparr>w_stack := stack'\<rparr> in
                       Some (case ex_dynamic exec of
                           Some dyn \<Rightarrow>
                             run_bind (link_startup_root ops lk b st mg w path dyn bs rtld) (\<lambda>(mg1, w1, r).
                             Done (mg1, w1, case r of Some e \<Rightarrow> Inl e | None \<Rightarrow> Inr (ex_entry exec)))
                         | None \<Rightarrow>
                             Done (mg, w\<lparr>w_mem := publish_tls_layout (b_tls b (link_ctx mg)) st (w_mem w)\<rparr>,
                               Inr (ex_entry exec)))))))"

section \<open>The bootstrap\<close>

definition set_initial_process_state :: "usize \<Rightarrow> usize \<Rightarrow> usize \<Rightarrow> libc_globals \<Rightarrow> libc_globals" where
  "set_initial_process_state ac av ep g = g\<lparr>g_argc := ac, g_argv := av, g_envp := ep\<rparr>"

lemma set_initial_process_state_eq [simp]: "set_initial_process_state ac av ep g = \<lparr>g_argc = ac, g_argv = av, g_envp = ep\<rparr>"
  by (cases g) (simp add: set_initial_process_state_def)

text \<open>\<open>publish_bootstrap_state\<close> and the statics of the process: \<open>None\<close> if the platform string has no end.\<close>

definition publish_process ::
  "rtld_statics \<Rightarrow> ('i, 'y, 'k) boot_world \<Rightarrow> wmem \<Rightarrow> ro_aux \<Rightarrow> int \<Rightarrow> bootstrap_state \<Rightarrow> ('i, 'y, 'k) boot_world option" where
  "publish_process st w stack' ro sec bs =
     map_option (\<lambda>m. w\<lparr>w_mem := write_list m (libc_enable_secure st) (le_enc 4 (nat sec)), w_stack := stack',
         w_dl_argv := argv (bs_process bs),
         w_globals := set_initial_process_state (argc (bs_process bs)) (argv (bs_process bs)) (envp (bs_process bs)) (w_globals w)\<rparr>)
       (publish_rtld_ro_aux st (w_mem w) ro)"

text \<open>\<open>run\<close> after the process is known: the descriptors, the interpreter's own object, the program.\<close>

definition run_program ::
  "('c, 'i, 'l, 'm, 'y) link_ops \<Rightarrow> ('c, 'i, 'l, 'e, 'raw, 'p, 'q, 'b, 'f) linker_ops \<Rightarrow>
     ('c, 'm, 'e, 'raw, 'k, 'src) boot_ops \<Rightarrow> rtld_statics \<Rightarrow> ('c, 'l, 'm) manager \<Rightarrow> ('i, 'y, 'k) boot_world \<Rightarrow>
     startup_input \<Rightarrow> bootstrap_state \<Rightarrow>
     (('c, 'l, 'm) manager \<times> ('i, 'y, 'k) boot_world \<times> ('e open_error + usize)) boot run" where
  "run_program ops lk b st mg w inp bs =
     (case check_standard_fds_if_secure (b_kernel b) (w_kernel w) (secure (aux (initial inp))) of
        None \<Rightarrow> Done (Stopped [] RTLD_FATAL_EXIT_STATUS)
      | Some k \<Rightarrow>
          (let w = w\<lparr>w_kernel := k\<rparr> in
           case load_bootstrap_object b RTLD_NAME (bs_rtld bs) of
             Inl e \<Rightarrow> Done (Boot (mg, w, Inl e))
           | Inr robj \<Rightarrow>
               run_bind (rtld_register_loaded ops b mg robj (RTLD_GLOBAL OR RTLD_NODELETE)) (\<lambda>(mg1, r).
               case r of
                 Inl e \<Rightarrow> Done (Boot (mg1, w, Inl e))
               | Inr rtld \<Rightarrow>
                   (if direct inp then
                      (case prepare_direct_exec ops lk b st mg1 w bs rtld of
                         None \<Rightarrow> Done Stuck
                       | Some res \<Rightarrow> run_bind res (\<lambda>x. Done (Boot x)))
                    else run_bind (prepare_kernel_mapped_main ops lk b st mg1 w bs rtld) (\<lambda>x. Done (Boot x))))))"

definition run_startup ::
  "('c, 'i, 'l, 'm, 'y) link_ops \<Rightarrow> ('c, 'i, 'l, 'e, 'raw, 'p, 'q, 'b, 'f) linker_ops \<Rightarrow>
     ('c, 'm, 'e, 'raw, 'k, 'src) boot_ops \<Rightarrow> rtld_statics \<Rightarrow> ('c, 'l, 'm) manager \<Rightarrow> ('i, 'y, 'k) boot_world \<Rightarrow>
     startup_input \<Rightarrow> (('c, 'l, 'm) manager \<times> ('i, 'y, 'k) boot_world \<times> ('e open_error + usize)) boot run" where
  "run_startup ops lk b st mg w inp =
     (let w = w\<lparr>w_stack_end := raw (initial inp)\<rparr> in
      run_bind (run_process (b_phdr_size b) (b_read_ehdr b) (b_files b) (w_mem w) (w_stack w) inp) (\<lambda>r.
      case r of
        Stuck \<Rightarrow> Done Stuck
      | Stopped out status \<Rightarrow> Done (Stopped out status)
      | Boot (stack', ro, sec, bs) \<Rightarrow>
          (case publish_process st w stack' ro sec bs of
             None \<Rightarrow> Done Stuck
           | Some w1 \<Rightarrow> run_program ops lk b st mg w1 inp bs)))"

text \<open>The result: the address to jump to, with the registry and the world.  The text of an error is written in one
  piece here.\<close>

definition rtld_bootstrap ::
  "('r, 'z) reloc_ops \<Rightarrow> ('c, 'i, 'l, 'm, 'y) link_ops \<Rightarrow> ('c, 'i, 'l, 'e, 'raw, 'p, 'q, 'b, 'f) linker_ops \<Rightarrow>
     ('c, 'm, 'e, 'raw, 'k, 'src) boot_ops \<Rightarrow> rtld_statics \<Rightarrow> 'r \<Rightarrow> ('c, 'l, 'm) manager \<Rightarrow> ('i, 'y, 'k) boot_world \<Rightarrow>
     usize \<Rightarrow> usize \<Rightarrow> usize \<Rightarrow> (('c, 'l, 'm) manager \<times> ('i, 'y, 'k) boot_world \<times> usize) boot run" where
  "rtld_bootstrap rops ops lk b st rm mg w stack rtld_ehdr rtld_dynamic =
     (case startup_new rops (b_phdr_size b) (b_read_phdr b) rm (w_stack w) stack rtld_ehdr rtld_dynamic of
        Stuck \<Rightarrow> Done Stuck
      | Stopped out status \<Rightarrow> Done (Stopped out status)
      | Boot (rm1, inp) \<Rightarrow>
          (case pass_through_entry rops (b_phdr_size b) (b_read_phdr b) rm1 inp of
             Some target \<Rightarrow> Done (Boot (mg, w, target))
           | None \<Rightarrow>
               run_bind (run_startup ops lk b st mg w inp) (\<lambda>r.
               Done (case r of
                   Stuck \<Rightarrow> Stuck
                 | Stopped out status \<Rightarrow> Stopped out status
                 | Boot (mg1, w1, Inr target) \<Rightarrow> Boot (mg1, w1, target)
                 | Boot (mg1, w1, Inl error) \<Rightarrow>
                     Stopped (write_stderr (ascii (if direct inp then ''rtld: direct exec failed: ''
                         else ''rtld: startup failed: '')) @ write_stderr (error_text (b_show b) error) @
                       write_stderr newline) RTLD_FATAL_EXIT_STATUS))))"

section \<open>What a successful start leaves behind\<close>

lemma finish_open_Inr:
  assumes "finish_open ops lk bi mg x flags p = Done (mg', x', Inr ol)"
  obtains mg0 root mg1 where "bi mg0 x root = Done (mg1, x', None)"
  using assms by (auto simp: finish_open_def run_bind_case split: split_asms)

lemma open_mapped_Inr:
  assumes "open_with ops lk bi env mg x request flags (Mapped k img) caller = Done (mg', x', Inr ol)"
  obtains mg0 root mg1 where "bi mg0 x root = Done (mg1, x', None)"
proof -
  obtain mg1 f p where "finish_open ops lk bi mg1 x f p = Done (mg', x', Inr ol)"
    using assms
    by (auto simp: open_with_def is_mapped_root_def is_binary_root_def link_open_def Let_def split: split_asms)
  then show thesis by (rule finish_open_Inr) (rule that)
qed

text \<open>The world after \<open>startup_publish\<close>.\<close>

definition published_world ::
  "('c, 'i, 'l, 'm, 'y) link_ops \<Rightarrow> ('c, 'm, 'e, 'raw, 'k, 'src) boot_ops \<Rightarrow> rtld_statics \<Rightarrow> bootstrap_state \<Rightarrow>
     ('c, 'l, 'm) manager \<Rightarrow> ('i, 'y, 'k) boot_world \<Rightarrow> startup_state \<Rightarrow> 'i \<Rightarrow> ('i, 'y, 'k) boot_world" where
  "published_world ops b st bs mg w su root = (fst (startup_publish ops b st bs mg w su))\<lparr>w_root := Some root\<rparr>"

lemma link_startup_root_ok:
  assumes "link_startup_root ops lk b st mg w request img bs rtld = Done (mg', w', None)"
  obtains mg1 mg2 root su where
    "startup_state_of ops (b_l_addr b) mg1 root rtld = Done (mg2, Some su)"
    "w' = published_world ops b st bs mg2
       (w\<lparr>w_links := (w_links w)(rtld := (w_links w rtld)\<lparr>l_next := 0, l_prev := 0, l_real := rtld\<rparr>)\<rparr>) su root"
proof -
  let ?w = "w\<lparr>w_links := (w_links w)(rtld := (w_links w rtld)\<lparr>l_next := 0, l_prev := 0, l_real := rtld\<rparr>)\<rparr>"
  let ?hook = "startup_hook ops (b_l_addr b) (b_context_error b) (startup_publish ops b st bs) rtld"
  obtain mg1 r w1 y where o: "open_with ops lk ?hook (b_env b (g_envp (w_globals ?w))) mg (None, ?w) request
      (RTLD_GLOBAL OR RTLD_NOW OR RTLD_NODELETE) (Mapped (root_key (b_name b img)) img) None = Done (mg1, (r, w1), y)"
    and "(case y of Inl e \<Rightarrow> Done (mg1, w1, Some e)
        | Inr ol \<Rightarrow> run_bind (drop_opened ops mg1 ol) (\<lambda>mg2. Done (mg2, w1\<lparr>w_root := r\<rparr>, None))) = Done (mg', w', None)"
    using assms unfolding link_startup_root_def link_mapped_root_def Let_def run_bind_Done by fastforce
  then obtain ol where y: "y = Inr ol" and w': "w' = w1\<lparr>w_root := r\<rparr>" by (cases y) (auto simp: run_bind_Done)
  obtain mg0 root mg3 where "?hook mg0 (None, ?w) root = Done (mg3, (r, w1), None)" by (rule open_mapped_Inr [OF o [unfolded y]])
  then obtain su where "startup_state_of ops (b_l_addr b) mg0 root rtld = Done (mg3, Some su)" "r = Some root"
    "w1 = fst (startup_publish ops b st bs mg3 ?w su)"
    by (auto simp: startup_hook_def run_bind_Done Let_def split_beta split: option.split_asm)
  with w' show thesis by (intro that) (simp_all add: published_world_def)
qed

text \<open>The fields of \<open>_rtld_global_ro\<close> that the auxiliary vector filled are still there at the end.\<close>

lemma aux_paths:
  assumes "p \<in> fst ` set (aux_writes st a len)"
  shows "diverge p [Fld ''dl_x86_cpu_features''] \<and> map_of (searchlist_writes x n) p = None \<and>
    p \<noteq> [Fld ''dl_tls_static_size''] \<and> p \<noteq> [Fld ''dl_tls_static_align'']"
proof -
  have "list_all (\<lambda>(p, v). diverge p [Fld ''dl_x86_cpu_features''] \<and> map_of (searchlist_writes x n) p = None \<and>
      p \<noteq> [Fld ''dl_tls_static_size''] \<and> p \<noteq> [Fld ''dl_tls_static_align'']) (aux_writes st a len)"
    by (simp add: aux_writes_def searchlist_writes_def)
  then show ?thesis using assms by (auto simp: list_all_iff)
qed

lemma publish_tls_layout_other:
  assumes "statics_apart st"
  shows "p \<noteq> [Fld ''dl_tls_static_size''] \<Longrightarrow> p \<noteq> [Fld ''dl_tls_static_align''] \<Longrightarrow>
      read_at RtldGlobalRo (rtld_global_ro st) (publish_tls_layout tls st m) p = read_at RtldGlobalRo (rtld_global_ro st) m p"
    and "read_at RtldGlobal (rtld_global st) (publish_tls_layout tls st m) q = read_at RtldGlobal (rtld_global st) m q"
proof -
  obtain sz al where i: "static_info tls = (sz, al)" by fastforce
  note ap = statics_apartD [OF assms]
  note defs = publish_tls_layout_def i publish_rseq_offset_def publish_tls_static_info_def ro_publish_tls_static_info_def
  show "p \<noteq> [Fld ''dl_tls_static_size''] \<Longrightarrow> p \<noteq> [Fld ''dl_tls_static_align''] \<Longrightarrow>
      read_at RtldGlobalRo (rtld_global_ro st) (publish_tls_layout tls st m) p = read_at RtldGlobalRo (rtld_global_ro st) m p"
    using ap by (simp add: defs read_at_write_usize rtld_wf rtld_sizes global_ro_vars.load_other)
  have "read_at RtldGlobal (rtld_global st) (foldl (write_at RtldGlobalRo (rtld_global_ro st)) m
      [([Fld ''dl_tls_static_size''], unat sz), ([Fld ''dl_tls_static_align''], unat (max al 1))]) q =
      read_at RtldGlobal (rtld_global st) m q"
    using ap by (intro read_at_apart) (simp_all add: rtld_wf rtld_sizes)
  then show "read_at RtldGlobal (rtld_global st) (publish_tls_layout tls st m) q = read_at RtldGlobal (rtld_global st) m q"
    using ap by (simp add: defs read_at_write_usize rtld_wf rtld_sizes)
qed

lemma published_world_reads:
  assumes "statics_apart st" and eq: "w' = published_world ops b st bs mg w su root"
  shows "map (read_at RtldGlobal (rtld_global st) (w_mem w'))
        [[Fld ''dl_nns''], ns0 ''loaded'', ns0 ''nloaded'', ns0 ''main_searchlist'', ns0 ''libc_map''] =
      map Some [1, unat (st_main su), unat (of_nat (length (st_maps su)) :: usize) mod 2 ^ 32, unat (rtld_global_ro st + 48),
        unat (st_libc_map su)]"
    and "map (read_at RtldGlobalRo (rtld_global_ro st) (w_mem w'))
        [[Fld ''dl_initial_searchlist'', Fld ''list''], [Fld ''dl_initial_searchlist'', Fld ''nlist''],
         [Fld ''dl_tls_static_size''], [Fld ''dl_tls_static_align'']] =
      map Some [unat (b_box_at b (st_maps su)), unat (of_nat (length (st_maps su)) :: usize) mod 2 ^ 32,
        unat (fst (static_info (b_tls b (link_ctx mg)))), unat (max (snd (static_info (b_tls b (link_ctx mg)))) 1)]"
    and "p \<in> fst ` set (aux_writes st a len) \<Longrightarrow>
      read_at RtldGlobalRo (rtld_global_ro st) (w_mem w') p = read_at RtldGlobalRo (rtld_global_ro st) (w_mem w) p"
    and "w_links w' = link_loaded_objects (w_links w) (st_maps su)"
proof -
  obtain m1 links1 where pub: "publish_loaded_globals st (w_mem w) (w_links w) bs (st_main su) su (b_box_at b (st_maps su)) = (m1, links1)"
    by fastforce
  note r = publish_loaded_globals_reads [OF assms(1) pub]
  have w': "w_mem w' = publish_tls_layout (b_tls b (link_ctx mg)) st m1" "w_links w' = links1"
    using pub by (auto simp: eq published_world_def startup_publish_def Let_def split: option.split)
  note g = conjunct1 [OF r, rule_format] and ro = conjunct1 [OF conjunct2 [OF r], rule_format]
  show "map (read_at RtldGlobal (rtld_global st) (w_mem w'))
        [[Fld ''dl_nns''], ns0 ''loaded'', ns0 ''nloaded'', ns0 ''main_searchlist'', ns0 ''libc_map''] =
      map Some [1, unat (st_main su), unat (of_nat (length (st_maps su)) :: usize) mod 2 ^ 32, unat (rtld_global_ro st + 48),
        unat (st_libc_map su)]"
    unfolding w' publish_tls_layout_other(2) [OF assms(1)] list.map g by (simp add: global_writes_def ns0_def)
  show "map (read_at RtldGlobalRo (rtld_global_ro st) (w_mem w'))
        [[Fld ''dl_initial_searchlist'', Fld ''list''], [Fld ''dl_initial_searchlist'', Fld ''nlist''],
         [Fld ''dl_tls_static_size''], [Fld ''dl_tls_static_align'']] =
      map Some [unat (b_box_at b (st_maps su)), unat (of_nat (length (st_maps su)) :: usize) mod 2 ^ 32,
        unat (fst (static_info (b_tls b (link_ctx mg)))), unat (max (snd (static_info (b_tls b (link_ctx mg)))) 1)]"
    unfolding w' list.map publish_tls_layout_correct(1,2) [OF assms(1)]
    by (simp add: publish_tls_layout_other(1) [OF assms(1)] ro searchlist_writes_def)
  show "read_at RtldGlobalRo (rtld_global_ro st) (w_mem w') p = read_at RtldGlobalRo (rtld_global_ro st) (w_mem w) p"
    if "p \<in> fst ` set (aux_writes st a len)"
    using aux_paths [OF that] unfolding w' by (simp add: publish_tls_layout_other(1) [OF assms(1)] ro)
  show "w_links w' = link_loaded_objects (w_links w) (st_maps su)" using r w' by blast
qed

lemma publish_process_ok:
  assumes "statics_apart st" "publish_process st w stack' ro sec bs = Some w1"
  obtains len where
    "\<forall>p v. map_of (aux_writes st ro len) p = Some v \<longrightarrow> read_at RtldGlobalRo (rtld_global_ro st) (w_mem w1) p = Some v"
    "w_stack w1 = stack'" "w_dl_argv w1 = argv (bs_process bs)"
    "w_globals w1 = \<lparr>g_argc = argc (bs_process bs), g_argv = argv (bs_process bs), g_envp = envp (bs_process bs)\<rparr>"
proof -
  obtain m where m: "publish_rtld_ro_aux st (w_mem w) ro = Some m"
    and w1: "w1 = w\<lparr>w_mem := write_list m (libc_enable_secure st) (le_enc 4 (nat sec)), w_stack := stack',
         w_dl_argv := argv (bs_process bs),
         w_globals := \<lparr>g_argc = argc (bs_process bs), g_argv = argv (bs_process bs), g_envp = envp (bs_process bs)\<rparr>\<rparr>"
    using assms(2) by (auto simp: publish_process_def)
  obtain len where "m = publish_x86_cpu_defaults (rtld_global_ro st)
      (foldl (write_at RtldGlobalRo (rtld_global_ro st)) (w_mem w) (aux_writes st ro len))"
    using m by (auto simp: publish_rtld_ro_aux_def publish_aux_stores bind_eq_Some_conv)
  note rd = publish_aux_reads [OF this]
  have "read_at RtldGlobalRo (rtld_global_ro st) (w_mem w1) p = Some v" if "map_of (aux_writes st ro len) p = Some v" for p v
  proof -
    have "p \<in> fst ` set (aux_writes st ro len)" using map_of_SomeD [OF that] by force
    then show ?thesis
      using aux_paths [of p st ro len] rd that statics_apartD(9) [OF assms(1)]
      by (simp add: w1 read_at_write_list rtld_wf rtld_sizes)
  qed
  then show thesis by (intro that [of len]) (simp_all add: w1)
qed

text \<open>What libc and the program find after a successful start.\<close>

definition started ::
  "('c, 'm, 'e, 'raw, 'k, 'src) boot_ops \<Rightarrow> rtld_statics \<Rightarrow> ro_aux \<Rightarrow> process_stack \<Rightarrow> startup_state \<Rightarrow> 'c \<Rightarrow>
     ('i, 'y, 'k) boot_world \<Rightarrow> bool" where
  "started b st ro p su c w \<longleftrightarrow>
     map (read_at RtldGlobal (rtld_global st) (w_mem w))
       [[Fld ''dl_nns''], ns0 ''loaded'', ns0 ''nloaded'', ns0 ''main_searchlist'', ns0 ''libc_map''] =
     map Some [1, unat (st_main su), unat (of_nat (length (st_maps su)) :: usize) mod 2 ^ 32, unat (rtld_global_ro st + 48),
       unat (st_libc_map su)] \<and>
     map (read_at RtldGlobalRo (rtld_global_ro st) (w_mem w))
       [[Fld ''dl_initial_searchlist'', Fld ''list''], [Fld ''dl_initial_searchlist'', Fld ''nlist''],
        [Fld ''dl_tls_static_size''], [Fld ''dl_tls_static_align'']] =
     map Some [unat (b_box_at b (st_maps su)), unat (of_nat (length (st_maps su)) :: usize) mod 2 ^ 32,
       unat (fst (static_info (b_tls b c))), unat (max (snd (static_info (b_tls b c))) 1)] \<and>
     (\<exists>len. list_all (\<lambda>(q, v). read_at RtldGlobalRo (rtld_global_ro st) (w_mem w) q = Some v) (aux_writes st ro len)) \<and>
     w_dl_argv w = argv p \<and> w_globals w = \<lparr>g_argc = argc p, g_argv = argv p, g_envp = envp p\<rparr> \<and>
     (distinct (st_maps su) \<longrightarrow> seg (w_links w) 0 (st_maps su) 0)"

lemma link_startup_root_started:
  assumes "statics_apart st"
    and "link_startup_root ops lk b st mg w request img bs rtld = Done (mg', w', None)"
    and aux: "\<forall>p v. map_of (aux_writes st ro len) p = Some v \<longrightarrow> read_at RtldGlobalRo (rtld_global_ro st) (w_mem w) p = Some v"
    and glob: "w_dl_argv w = argv (bs_process bs)"
      "w_globals w = \<lparr>g_argc = argc (bs_process bs), g_argv = argv (bs_process bs), g_envp = envp (bs_process bs)\<rparr>"
  shows "\<exists>mg1 mg2 root su. startup_state_of ops (b_l_addr b) mg1 root rtld = Done (mg2, Some su) \<and> w_root w' = Some root \<and>
    w_early w' = w_early w @ (case find_loaded_symbol ops mg2 (ascii ''__libc_early_init'') of None \<Rightarrow> [] | Some f \<Rightarrow> [f]) \<and>
    w_stack w' = w_stack w \<and> started b st ro (bs_process bs) su (link_ctx mg2) w'"
proof -
  obtain mg1 mg2 root su where su: "startup_state_of ops (b_l_addr b) mg1 root rtld = Done (mg2, Some su)"
    and w': "w' = published_world ops b st bs mg2
       (w\<lparr>w_links := (w_links w)(rtld := (w_links w rtld)\<lparr>l_next := 0, l_prev := 0, l_real := rtld\<rparr>)\<rparr>) su root"
      (is "_ = published_world _ _ _ _ _ ?w _ _")
    using assms(2) by (rule link_startup_root_ok)
  note r = published_world_reads [OF assms(1) w']
  have "read_at RtldGlobalRo (rtld_global_ro st) (w_mem w') q = Some v" if "(q, v) \<in> set (aux_writes st ro len)" for q v
  proof -
    have "map_of (aux_writes st ro len) q = Some v" using that aux_writes_ok(1) by simp
    moreover have "q \<in> fst ` set (aux_writes st ro len)" using that by force
    ultimately show ?thesis using r(3) [of q ro len] aux by simp
  qed
  then have "list_all (\<lambda>(q, v). read_at RtldGlobalRo (rtld_global_ro st) (w_mem w') q = Some v) (aux_writes st ro len)"
    by (auto simp: list_all_iff)
  moreover have "seg (w_links w') 0 (st_maps su) 0" if "distinct (st_maps su)"
    using link_loaded_loop_seg [OF that] r(4) by (simp add: link_loaded_objects_def)
  moreover have rest: "w_dl_argv w' = w_dl_argv w" "w_globals w' = w_globals w" "w_root w' = Some root" "w_stack w' = w_stack w"
    "w_early w' = w_early w @ (case find_loaded_symbol ops mg2 (ascii ''__libc_early_init'') of None \<Rightarrow> [] | Some f \<Rightarrow> [f])"
    by (auto simp: w' published_world_def startup_publish_def Let_def split: option.split prod.split)
  ultimately have "started b st ro (bs_process bs) su (link_ctx mg2) w'"
    using r(1,2) glob unfolding started_def by (intro conjI) (simp_all only: simp_thms, blast+)
  then show ?thesis using su rest by blast
qed

section \<open>The two ways to start\<close>

lemma run_program_cases:
  assumes "run_program ops lk b st mg w inp bs = Done (Boot (mg', w', r))" and "r = Inr target"
  obtains k mg1 rtld where
    "\<not> direct inp \<Longrightarrow> prepare_kernel_mapped_main ops lk b st mg1 (w\<lparr>w_kernel := k\<rparr>) bs rtld = Done (mg', w', r)"
    "direct inp \<Longrightarrow> prepare_direct_exec ops lk b st mg1 (w\<lparr>w_kernel := k\<rparr>) bs rtld = Some (Done (mg', w', r))"
proof -
  obtain k where c: "check_standard_fds_if_secure (b_kernel b) (w_kernel w) (secure (aux (initial inp))) = Some k"
    using assms by (auto simp: run_program_def split: option.split_asm)
  obtain robj where l: "load_bootstrap_object b RTLD_NAME (bs_rtld bs) = Inr robj"
    using assms c by (cases "load_bootstrap_object b RTLD_NAME (bs_rtld bs)") (simp_all add: run_program_def)
  obtain mg1 y where g: "rtld_register_loaded ops b mg robj (RTLD_GLOBAL OR RTLD_NODELETE) = Done (mg1, y)"
    using assms c l by (auto simp: run_program_def run_bind_Done Let_def)
  have "y = Inl e \<Longrightarrow> False" for e using assms c l g by (simp add: run_program_def)
  then obtain rtld where y: "y = Inr rtld" by (cases y) auto
  show thesis
  proof (rule that [of mg1 k rtld])
    show "prepare_kernel_mapped_main ops lk b st mg1 (w\<lparr>w_kernel := k\<rparr>) bs rtld = Done (mg', w', r)" if "\<not> direct inp"
      using assms(1) c l g y that by (auto simp: run_program_def run_bind_Done)
    show "prepare_direct_exec ops lk b st mg1 (w\<lparr>w_kernel := k\<rparr>) bs rtld = Some (Done (mg', w', r))" if "direct inp"
      using assms(1) c l g y that by (auto simp: run_program_def run_bind_Done split: option.split_asm)
  qed
qed

lemma run_startup_program:
  assumes "run_startup ops lk b st mg w inp = Done (Boot res)"
  obtains stack' ro sec bs w1 where
    "run_process (b_phdr_size b) (b_read_ehdr b) (b_files b) (w_mem w) (w_stack w) inp = Done (Boot (stack', ro, sec, bs))"
    "publish_process st (w\<lparr>w_stack_end := raw (initial inp)\<rparr>) stack' ro sec bs = Some w1"
    "run_program ops lk b st mg w1 inp bs = Done (Boot res)"
proof -
  obtain r where p: "run_process (b_phdr_size b) (b_read_ehdr b) (b_files b) (w_mem w) (w_stack w) inp = Done r"
    and c: "(case r of Stuck \<Rightarrow> Done Stuck | Stopped out status \<Rightarrow> Done (Stopped out status)
      | Boot (stack', ro, sec, bs) \<Rightarrow>
          (case publish_process st (w\<lparr>w_stack_end := raw (initial inp)\<rparr>) stack' ro sec bs of
             None \<Rightarrow> Done Stuck | Some w1 \<Rightarrow> run_program ops lk b st mg w1 inp bs)) = Done (Boot res)"
    using assms by (auto simp: run_startup_def Let_def run_bind_Done)
  then show thesis by (auto split: boot.split_asm option.split_asm prod.split_asm intro: that)
qed

lemma kernel_mapped_started:
  assumes "prepare_kernel_mapped_main ops lk b st mg w bs rtld = Done (mg', w', Inr target)"
  obtains main where "load_bootstrap_object b [] (bs_main bs) = Inr main" "target = b_entry b main"
    "link_startup_root ops lk b st mg w [] main bs rtld = Done (mg', w', None)"
  using assms by (auto simp: prepare_kernel_mapped_main_def run_bind_Done split: sum.split_asm option.split_asm)

text \<open>Starting a program that the kernel has mapped: if the bootstrap succeeds, control goes to the entry point of
  the program's image, the start-up root is recorded for the exit of the process, the stack is as the kernel left it,
  libc's early initialisation is called once if a loaded object has it, and at that moment the statics describe the
  process: arguments and auxiliary values, the loaded group and its search list, the static TLS layout; the link
  maps of the group form one list.\<close>

lemma kernel_start:
  assumes "statics_apart st" and "\<not> direct inp"
    and "run_startup ops lk b st mg w inp = Done (Boot (mg', w', Inr target))"
  shows "\<exists>main ro sec bs rtld mg1 mg2 root su.
    publish_bootstrap_state (b_phdr_size b) (b_read_ehdr b) (process (initial inp)) (aux (initial inp)) (main_load_bias inp)
      (rtld_load_bias inp) = (ro, sec, bs) \<and>
    load_bootstrap_object b [] (bs_main bs) = Inr main \<and> target = b_entry b main \<and>
    startup_state_of ops (b_l_addr b) mg1 root rtld = Done (mg2, Some su) \<and> w_root w' = Some root \<and>
    w_early w' = w_early w @ (case find_loaded_symbol ops mg2 (ascii ''__libc_early_init'') of None \<Rightarrow> [] | Some f \<Rightarrow> [f]) \<and>
    w_stack w' = w_stack w \<and> started b st ro (process (initial inp)) su (link_ctx mg2) w'"
proof -
  obtain stack' ro sec bs w1 where
    p: "run_process (b_phdr_size b) (b_read_ehdr b) (b_files b) (w_mem w) (w_stack w) inp = Done (Boot (stack', ro, sec, bs))"
    and pp: "publish_process st (w\<lparr>w_stack_end := raw (initial inp)\<rparr>) stack' ro sec bs = Some w1"
    and rp: "run_program ops lk b st mg w1 inp bs = Done (Boot (mg', w', Inr target))"
    using assms(3) by (rule run_startup_program)
  have bs: "publish_bootstrap_state (b_phdr_size b) (b_read_ehdr b) (process (initial inp)) (aux (initial inp))
      (main_load_bias inp) (rtld_load_bias inp) = (ro, sec, bs)" "stack' = w_stack w"
    using p assms(2) by (simp_all add: run_process_def)
  then have pr: "bs_process bs = process (initial inp)" by (auto simp: publish_bootstrap_state_def)
  obtain k mg1 rtld where k: "prepare_kernel_mapped_main ops lk b st mg1 (w1\<lparr>w_kernel := k\<rparr>) bs rtld = Done (mg', w', Inr target)"
    using rp assms(2) by (auto elim: run_program_cases)
  obtain main where m: "load_bootstrap_object b [] (bs_main bs) = Inr main" "target = b_entry b main"
    and l: "link_startup_root ops lk b st mg1 (w1\<lparr>w_kernel := k\<rparr>) [] main bs rtld = Done (mg', w', None)"
    using k by (rule kernel_mapped_started)
  obtain len where len: "\<forall>p v. map_of (aux_writes st ro len) p = Some v \<longrightarrow>
      read_at RtldGlobalRo (rtld_global_ro st) (w_mem w1) p = Some v"
    and w1: "w_stack w1 = stack'" "w_dl_argv w1 = argv (bs_process bs)"
      "w_globals w1 = \<lparr>g_argc = argc (bs_process bs), g_argv = argv (bs_process bs), g_envp = envp (bs_process bs)\<rparr>"
    using assms(1) pp by (rule publish_process_ok)
  have e: "w_early w1 = w_early w" using pp by (auto simp: publish_process_def)
  have "\<exists>mg1 mg2 root su. startup_state_of ops (b_l_addr b) mg1 root rtld = Done (mg2, Some su) \<and> w_root w' = Some root \<and>
    w_early w' = w_early (w1\<lparr>w_kernel := k\<rparr>) @
      (case find_loaded_symbol ops mg2 (ascii ''__libc_early_init'') of None \<Rightarrow> [] | Some f \<Rightarrow> [f]) \<and>
    w_stack w' = w_stack (w1\<lparr>w_kernel := k\<rparr>) \<and> started b st ro (bs_process bs) su (link_ctx mg2) w'"
    by (rule link_startup_root_started [OF assms(1) l, of ro len]) (use len w1 in simp_all)
  then obtain mg1 mg2 root su where "startup_state_of ops (b_l_addr b) mg1 root rtld = Done (mg2, Some su)" "w_root w' = Some root"
    "w_early w' = w_early w @ (case find_loaded_symbol ops mg2 (ascii ''__libc_early_init'') of None \<Rightarrow> [] | Some f \<Rightarrow> [f])"
    "w_stack w' = w_stack w" "started b st ro (process (initial inp)) su (link_ctx mg2) w'"
    using e w1 bs pr by auto
  with bs m show ?thesis by blast
qed

text \<open>A direct invocation: the image that \<open>load_exec\<close> found is entered, the auxiliary vector on the stack is patched for
  it, and a dynamic image is linked and published like a kernel-mapped one.\<close>

lemma direct_exec_started:
  assumes "prepare_direct_exec ops lk b st mg w bs rtld = Some (Done (mg', w', Inr target))"
  obtains path exec ph num stack' where "cstr_bytes (w_mem w) (exec_path (bs_process bs)) = Some path"
    "b_load_exec b path = Inr exec" "target = ex_entry exec"
    "(ph, num) = (case ex_phdrs exec of Some x \<Rightarrow> x | None \<Rightarrow> (0, 0))"
    "patch_auxv (b_phdr_size b) (w_stack w) (auxv (bs_process bs)) ph num (obj_load_bias (bs_rtld bs)) target
       (exec_path (bs_process bs)) = Some stack'"
    "\<forall>dyn. ex_dynamic exec = Some dyn \<longrightarrow>
       link_startup_root ops lk b st mg (w\<lparr>w_stack := stack'\<rparr>) path dyn bs rtld = Done (mg', w', None)"
    "ex_dynamic exec = None \<longrightarrow> w_stack w' = stack'"
proof -
  obtain path where path: "cstr_bytes (w_mem w) (exec_path (bs_process bs)) = Some path"
    using assms by (auto simp: prepare_direct_exec_def split: option.split_asm)
  have u: "from_utf8 path \<noteq> None"
  proof
    assume "from_utf8 path = None"
    with assms path show False by (simp add: prepare_direct_exec_def)
  qed
  obtain exec where exec: "b_load_exec b path = Inr exec"
    using assms path u by (cases "b_load_exec b path") (auto simp: prepare_direct_exec_def)
  obtain ph num where ph: "(ph, num) = (case ex_phdrs exec of Some x \<Rightarrow> x | None \<Rightarrow> (0, 0))" by (metis surj_pair)
  note step = assms [unfolded prepare_direct_exec_def path option.case if_not_P [OF u] exec sum.case ph [symmetric] Let_def prod.case]
  obtain stack' where pa: "patch_auxv (b_phdr_size b) (w_stack w) (auxv (bs_process bs)) ph num (obj_load_bias (bs_rtld bs))
      (ex_entry exec) (exec_path (bs_process bs)) = Some stack'"
    using step by (cases "patch_auxv (b_phdr_size b) (w_stack w) (auxv (bs_process bs)) ph num (obj_load_bias (bs_rtld bs))
      (ex_entry exec) (exec_path (bs_process bs))") auto
  have t: "target = ex_entry exec"
    using step by (auto simp: pa run_bind_Done split: option.split_asm)
  have "link_startup_root ops lk b st mg (w\<lparr>w_stack := stack'\<rparr>) path dyn bs rtld = Done (mg', w', None)"
    if "ex_dynamic exec = Some dyn" for dyn
    using step that by (auto simp: pa run_bind_Done split: option.split_asm)
  moreover have "w_stack w' = stack'" if "ex_dynamic exec = None"
    using step that by (auto simp: pa)
  ultimately show thesis by (intro that [OF path exec t ph pa [folded t]]) blast+
qed

lemma direct_start:
  assumes "statics_apart st" and "direct inp"
    and "run_startup ops lk b st mg w inp = Done (Boot (mg', w', Inr target))"
  shows "\<exists>stack1 ro sec bs path exec ph num.
    run_process (b_phdr_size b) (b_read_ehdr b) (b_files b) (w_mem w) (w_stack w) inp = Done (Boot (stack1, ro, sec, bs)) \<and>
    b_load_exec b path = Inr exec \<and> target = ex_entry exec \<and> (ph, num) = (case ex_phdrs exec of Some x \<Rightarrow> x | None \<Rightarrow> (0, 0)) \<and>
    patch_auxv (b_phdr_size b) stack1 (auxv (bs_process bs)) ph num (obj_load_bias (bs_rtld bs)) target
      (exec_path (bs_process bs)) = Some (w_stack w') \<and>
    (ex_dynamic exec \<noteq> None \<longrightarrow> (\<exists>rtld mg1 mg2 root su. startup_state_of ops (b_l_addr b) mg1 root rtld = Done (mg2, Some su) \<and>
      w_root w' = Some root \<and> started b st ro (bs_process bs) su (link_ctx mg2) w'))"
proof -
  obtain stack1 ro sec bs w1 where
    p: "run_process (b_phdr_size b) (b_read_ehdr b) (b_files b) (w_mem w) (w_stack w) inp = Done (Boot (stack1, ro, sec, bs))"
    and pp: "publish_process st (w\<lparr>w_stack_end := raw (initial inp)\<rparr>) stack1 ro sec bs = Some w1"
    and rp: "run_program ops lk b st mg w1 inp bs = Done (Boot (mg', w', Inr target))"
    using assms(3) by (rule run_startup_program)
  obtain k mg1 rtld where k: "prepare_direct_exec ops lk b st mg1 (w1\<lparr>w_kernel := k\<rparr>) bs rtld = Some (Done (mg', w', Inr target))"
    using run_program_cases [OF rp refl] assms(2) by metis
  obtain path exec ph num stack' where
    e: "b_load_exec b path = Inr exec" "target = ex_entry exec" "(ph, num) = (case ex_phdrs exec of Some x \<Rightarrow> x | None \<Rightarrow> (0, 0))"
    and pa: "patch_auxv (b_phdr_size b) (w_stack (w1\<lparr>w_kernel := k\<rparr>)) (auxv (bs_process bs)) ph num (obj_load_bias (bs_rtld bs)) target
      (exec_path (bs_process bs)) = Some stack'"
    and dyn: "\<forall>dyn. ex_dynamic exec = Some dyn \<longrightarrow>
      link_startup_root ops lk b st mg1 (w1\<lparr>w_kernel := k, w_stack := stack'\<rparr>) path dyn bs rtld = Done (mg', w', None)"
    and stat: "ex_dynamic exec = None \<longrightarrow> w_stack w' = stack'"
    using k by (rule direct_exec_started)
  obtain len where len: "\<forall>p v. map_of (aux_writes st ro len) p = Some v \<longrightarrow>
      read_at RtldGlobalRo (rtld_global_ro st) (w_mem w1) p = Some v"
    and w1: "w_stack w1 = stack1" "w_dl_argv w1 = argv (bs_process bs)"
      "w_globals w1 = \<lparr>g_argc = argc (bs_process bs), g_argv = argv (bs_process bs), g_envp = envp (bs_process bs)\<rparr>"
    using assms(1) pp by (rule publish_process_ok)
  have s: "\<exists>mg3 mg2 root su. startup_state_of ops (b_l_addr b) mg3 root rtld = Done (mg2, Some su) \<and> w_root w' = Some root \<and>
      w_stack w' = stack' \<and> started b st ro (bs_process bs) su (link_ctx mg2) w'" if "ex_dynamic exec = Some d" for d
  proof -
    note l = link_startup_root_started [OF assms(1) dyn [rule_format, OF that], of ro len]
    show ?thesis using l len w1 by auto
  qed
  have st: "w_stack w' = stack'" using s stat by (cases "ex_dynamic exec") blast+
  have fin: "ex_dynamic exec \<noteq> None \<longrightarrow> (\<exists>rtld mg1 mg2 root su. startup_state_of ops (b_l_addr b) mg1 root rtld = Done (mg2, Some su) \<and>
      w_root w' = Some root \<and> started b st ro (bs_process bs) su (link_ctx mg2) w')"
    using s by blast
  show ?thesis using p e pa fin st w1(1) by (intro exI conjI) (assumption | simp)+
qed

end
