(* ===== verification/Entry.thy ===== *)
theory Entry
  imports Boot
begin

text \<open>
  The entry point of the interpreter (\<open>_start\<close> of \<open>src/rtld/impl/src/arch/x86_64/entry.rs\<close>), written in assembly: it
  keeps the initial stack pointer, calls \<open>rtld_bootstrap\<close> with an aligned stack, restores the stack pointer, leaves
  \<open>rtld_fini\<close> for the program and jumps to the address the bootstrap returned.  Together with the ends of the
  process in \<open>runtime.rs\<close> (\<open>exit\<close> and the panic handler) this is the whole life of the interpreter before the program.
  The two assembly stubs of the C interface are here too.
\<close>

section \<open>Model\<close>

record regs =
  rax :: usize
  rbx :: usize
  rsp :: usize
  rdi :: usize
  rsi :: usize
  rdx :: usize
  rip :: usize

text \<open>The instructions before the call; \<open>ehdr\<close> and \<open>dyn\<close> are the addresses of \<open>__ehdr_start\<close> and \<open>_DYNAMIC\<close>.\<close>

definition entry_call :: "usize \<Rightarrow> usize \<Rightarrow> regs \<Rightarrow> regs" where
  "entry_call ehdr dyn r =
     (let r = r\<lparr>rbx := rsp r\<rparr>;
          r = r\<lparr>rdi := rbx r\<rparr>;
          r = r\<lparr>rsi := ehdr\<rparr>;
          r = r\<lparr>rdx := dyn\<rparr>
      in r\<lparr>rsp := rsp r AND - 16\<rparr>)"

text \<open>The instructions after it; the call keeps \<open>rbx\<close>, as the calling convention says.\<close>

definition entry_jump :: "usize \<Rightarrow> usize \<Rightarrow> regs \<Rightarrow> regs" where
  "entry_jump fini target r =
     (let r = r\<lparr>rax := target\<rparr>;
          r = r\<lparr>rsp := rbx r\<rparr>;
          r = r\<lparr>rdx := fini\<rparr>
      in r\<lparr>rip := rax r\<rparr>)"

text \<open>A start ends with the jump, with the end of the process, or not at all.\<close>

datatype 'w start_end = Jump regs 'w | Exited int | Hangs

definition entry_start :: "(usize \<Rightarrow> usize \<Rightarrow> usize \<Rightarrow> ('c \<times> 'w \<times> usize) boot run) \<Rightarrow> usize \<Rightarrow> usize \<Rightarrow> usize \<Rightarrow> regs \<Rightarrow> ('c \<times> 'w) start_end" where
  "entry_start bootstrap ehdr dyn fini r =
     (let r = entry_call ehdr dyn r in
      case bootstrap (rdi r) (rsi r) (rdx r) of
        Panic \<Rightarrow> Exited RTLD_FATAL_EXIT_STATUS
      | Done Stuck \<Rightarrow> Hangs
      | Done (Stopped out status) \<Rightarrow> Exited status
      | Done (Boot (c, w, target)) \<Rightarrow> Jump (entry_jump fini target r) (c, w))"

definition start_process ::
  "('r, 'z) reloc_ops \<Rightarrow> ('c, 'i, 'l, 'm, 'y) link_ops \<Rightarrow> ('c, 'i, 'l, 'e, 'raw, 'p, 'q, 'b, 'f) linker_ops \<Rightarrow>
     ('c, 'm, 'e, 'raw, 'k, 'src) boot_ops \<Rightarrow> rtld_statics \<Rightarrow> 'r \<Rightarrow> ('c, 'l, 'm) manager \<Rightarrow> ('i, 'y, 'k) boot_world \<Rightarrow>
     usize \<Rightarrow> usize \<Rightarrow> usize \<Rightarrow> regs \<Rightarrow> (('c, 'l, 'm) manager \<times> ('i, 'y, 'k) boot_world) start_end" where
  "start_process rops ops lk b st rm mg w ehdr dyn fini r =
     entry_start (\<lambda>stack ehdr dyn. rtld_bootstrap rops ops lk b st rm mg w stack ehdr dyn) ehdr dyn fini r"

text \<open>The address left in \<open>rdx\<close>, which the program registers to be called at its exit.\<close>

definition rtld_fini ::
  "('c, 'i, 'l, 'm, 'y) link_ops \<Rightarrow> ('c, 'l, 'm) manager \<Rightarrow> ('i, 'y, 'k) boot_world \<Rightarrow>
     ('c, 'l, 'm) manager \<times> ('i, 'y, 'k) boot_world \<times> 'm list" where
  "rtld_fini ops mg w =
     (let (mg', root, ms) = finalize_startup ops mg (w_root w) in (mg', w\<lparr>w_root := root\<rparr>, ms))"

text \<open>The exported \<open>dlopen\<close> and \<open>dlsym\<close> of the C interface (\<open>api/dlopen.rs\<close>, \<open>api/dlsym.rs\<close>) are two instructions: the return address, which
  says who called, becomes the third argument, and the function behind is entered on the same stack.  \<open>str_of\<close> reads the
  C string at an address, \<open>None\<close> for null.\<close>

definition caller_stub :: "wmem \<Rightarrow> usize \<Rightarrow> regs \<Rightarrow> regs" where
  "caller_stub stack target r = r\<lparr>rdx := stack (rsp r), rip := target\<rparr>"

definition c_dlopen ::
  "('c, 'i, 'l, 'm, 'y) link_ops \<Rightarrow> ('c, 'i, 'l, 'e, 'raw, 'p, 'q, 'b, 'f) linker_ops \<Rightarrow> ('e \<Rightarrow> bytes) \<Rightarrow>
     bytes list option \<Rightarrow> (usize \<Rightarrow> bytes option) \<Rightarrow> usize \<Rightarrow> ('c, 'l, 'm) process \<Rightarrow> nat \<Rightarrow> wmem \<Rightarrow> regs \<Rightarrow>
     (('c, 'l, 'm) process \<times> usize) run" where
  "c_dlopen ops lk show_loader env str_of target s t stack r =
     (let r = caller_stub stack target r
      in dlopen_with_caller ops lk show_loader env s t (str_of (rdi r)) (ucast (rsi r)) (rdx r))"

definition c_dlsym ::
  "('c, 'i, 'l, 'm, 'y) link_ops \<Rightarrow> ('y \<Rightarrow> usize) \<Rightarrow> (usize \<Rightarrow> bytes option) \<Rightarrow> usize \<Rightarrow> ('c, 'l, 'm) process \<Rightarrow> nat \<Rightarrow> wmem \<Rightarrow>
     regs \<Rightarrow> (('c, 'l, 'm) process \<times> usize) run" where
  "c_dlsym ops into_raw str_of target s t stack r =
     (let r = caller_stub stack target r
      in dlsym_with_caller ops into_raw s t (rdi r) (str_of (rsi r)) (rdx r))"

section \<open>Properties\<close>

lemma rtld_bootstrap_startup:
  assumes "startup_new rops (b_phdr_size b) (b_read_phdr b) rm (w_stack w) stack ehdr dyn = Boot (rm1, inp)"
    and "pass_through_entry rops (b_phdr_size b) (b_read_phdr b) rm1 inp = None"
    and "rtld_bootstrap rops ops lk b st rm mg w stack ehdr dyn = Done res"
  obtains (boot) mg1 w1 t where "run_startup ops lk b st mg w inp = Done (Boot (mg1, w1, Inr t))" "res = Boot (mg1, w1, t)"
  | (error) x out where "run_startup ops lk b st mg w inp = Done (Boot x)" "res = Stopped out RTLD_FATAL_EXIT_STATUS"
  | (stop) out status where "run_startup ops lk b st mg w inp = Done (Stopped out status)" "res = Stopped out status"
  | (stuck) "res = Stuck"
proof -
  obtain v where v: "run_startup ops lk b st mg w inp = Done v"
    using assms by (auto simp: rtld_bootstrap_def run_bind_Done)
  have r: "res = (case v of
        Stuck \<Rightarrow> Stuck
      | Stopped out status \<Rightarrow> Stopped out status
      | Boot (mg1, w1, Inr target) \<Rightarrow> Boot (mg1, w1, target)
      | Boot (mg1, w1, Inl error) \<Rightarrow>
          Stopped (write_stderr (ascii (if direct inp then ''rtld: direct exec failed: ''
              else ''rtld: startup failed: '')) @ write_stderr (error_text (b_show b) error) @
            write_stderr newline) RTLD_FATAL_EXIT_STATUS)"
    using assms v by (simp add: rtld_bootstrap_def)
  show thesis
  proof (cases v)
    case (Boot x)
    obtain mg1 w1 y where x: "x = (mg1, w1, y)" by (cases x)
    show thesis by (cases y) (use r v Boot x boot error in simp_all)
  qed (use r v stop stuck in simp_all)
qed

lemma rtld_bootstrap_Boot:
  assumes "startup_new rops (b_phdr_size b) (b_read_phdr b) rm (w_stack w) stack ehdr dyn = Boot (rm1, inp)"
    and "rtld_bootstrap rops ops lk b st rm mg w stack ehdr dyn = Done (Boot (mg', w', target))"
  shows "case pass_through_entry rops (b_phdr_size b) (b_read_phdr b) rm1 inp of
      Some t \<Rightarrow> (mg', w', target) = (mg, w, t)
    | None \<Rightarrow> run_startup ops lk b st mg w inp = Done (Boot (mg', w', Inr target))"
proof (cases "pass_through_entry rops (b_phdr_size b) (b_read_phdr b) rm1 inp")
  case None
  from assms(1) None assms(2) show ?thesis by (rule rtld_bootstrap_startup) (simp_all add: None)
qed (use assms in \<open>simp add: rtld_bootstrap_def\<close>)

lemma run_program_Stopped:
  assumes "run_program ops lk b st mg w inp bs = Done (Stopped out status)"
  shows "status = RTLD_FATAL_EXIT_STATUS"
proof (cases "check_standard_fds_if_secure (b_kernel b) (w_kernel w) (secure (aux (initial inp)))")
  case (Some k)
  obtain robj where l: "load_bootstrap_object b RTLD_NAME (bs_rtld bs) = Inr robj"
    using assms Some by (cases "load_bootstrap_object b RTLD_NAME (bs_rtld bs)") (simp_all add: run_program_def)
  obtain mg1 y where g: "rtld_register_loaded ops b mg robj (RTLD_GLOBAL OR RTLD_NODELETE) = Done (mg1, y)"
    using assms Some l by (auto simp: run_program_def run_bind_Done Let_def)
  show ?thesis
  proof (cases y)
    case (Inr rtld)
    then show ?thesis using assms Some l g
      by (auto simp: run_program_def run_bind_Done Let_def split: option.split_asm if_split_asm)
  qed (use assms Some l g in \<open>simp add: run_program_def\<close>)
qed (use assms in \<open>simp add: run_program_def\<close>)

lemma arg_step_Exit: "arg_step fs m wm ac av index a0 = Inl (Done (Some (Exit w code))) \<Longrightarrow> code \<in> {0, 1}"
  by (auto simp: arg_step_def Let_def exit_help_def exit_with_def missing_option_value_def run_bind_Done
      split: if_split_asm option.split_asm)

lemma parse_args_Exit: "parse_args fs m wm ac av index a0 = Done (Some (Exit w code)) \<Longrightarrow> code \<in> {0, 1}"
proof (induction fs m wm ac av index a0 rule: parse_args.induct)
  case (1 fs m wm ac av index a0)
  then show ?case
  proof (cases "index < ac")
    case True
    show ?thesis
    proof (cases "arg_step fs m wm ac av index a0")
      case (Inl r)
      then show ?thesis using 1(2) True arg_step_Exit by (auto simp: parse_args.simps [of _ _ _ ac])
    next
      case (Inr x)
      then show ?thesis using 1 True by (cases x) (simp add: parse_args.simps [of _ _ _ ac _ index])
    qed
  qed (auto simp: parse_args.simps [of _ _ _ ac] exit_help_def)
qed

lemma handle_direct_invocation_Exit:
  "handle_direct_invocation fs m wm ac av = Done (Some (Exit w code)) \<Longrightarrow> code \<in> {0, 1}"
  using parse_args_Exit by (auto simp: handle_direct_invocation_def exit_help_def split: if_split_asm)

lemma run_process_Stopped:
  assumes "run_process ps eh fs strings wm inp = Done (Stopped out status)"
  shows "direct inp \<and> status \<in> {0, 1}"
proof (cases "direct inp")
  case True
  let ?h = "handle_direct_invocation fs strings wm (argc (process (initial inp))) (argv (process (initial inp)))"
  obtain y where y: "?h = Done y" using assms True by (auto simp: run_process_def run_bind_Done)
  have "\<exists>w. y = Some (Exit w status)"
    using assms True y by (auto simp: run_process_def split: option.split_asm outcome.split_asm)
  then show ?thesis using True y handle_direct_invocation_Exit by blast
qed (use assms in \<open>simp add: run_process_def\<close>)

lemma run_startup_Stopped:
  assumes "run_startup ops lk b st mg w inp = Done (Stopped out status)"
  shows "status = RTLD_FATAL_EXIT_STATUS \<or> direct inp \<and> status \<in> {0, 1}"
proof -
  let ?p = "run_process (b_phdr_size b) (b_read_ehdr b) (b_files b) (w_mem w) (w_stack w) inp"
  obtain y where y: "?p = Done y" using assms by (auto simp: run_startup_def run_bind_Done Let_def)
  show ?thesis
  proof (cases y)
    case (Boot x)
    then show ?thesis using assms y
      by (cases x) (auto simp: run_startup_def Let_def dest: run_program_Stopped split: option.split_asm)
  next
    case (Stopped o' s')
    then show ?thesis using assms y run_process_Stopped by (auto simp: run_startup_def)
  qed (use assms y in \<open>simp add: run_startup_def\<close>)
qed

lemma rtld_bootstrap_Stopped:
  assumes "rtld_bootstrap rops ops lk b st rm mg w stack ehdr dyn = Done (Stopped out status)"
  shows "status = RTLD_FATAL_EXIT_STATUS \<or> status \<in> {0, 1} \<and>
    (\<exists>rm1 inp. startup_new rops (b_phdr_size b) (b_read_phdr b) rm (w_stack w) stack ehdr dyn = Boot (rm1, inp) \<and> direct inp)"
proof (cases "startup_new rops (b_phdr_size b) (b_read_phdr b) rm (w_stack w) stack ehdr dyn")
  case (Boot x)
  obtain rm1 inp where x: "x = (rm1, inp)" by (cases x)
  have p: "pass_through_entry rops (b_phdr_size b) (b_read_phdr b) rm1 inp = None"
    using assms Boot x by (cases "pass_through_entry rops (b_phdr_size b) (b_read_phdr b) rm1 inp") (simp_all add: rtld_bootstrap_def)
  from Boot [unfolded x] p assms show ?thesis
    by (rule rtld_bootstrap_startup) (use Boot x run_startup_Stopped in fastforce)+
next
  case (Stopped o' s')
  then have "s' = RTLD_FATAL_EXIT_STATUS" by (auto simp: startup_new_def Let_def split: prod.split_asm bool.split_asm option.split_asm)
  with Stopped show ?thesis using assms by (simp add: rtld_bootstrap_def)
qed (use assms in \<open>simp add: rtld_bootstrap_def\<close>)

section \<open>Entry and exit\<close>

text \<open>What a start leaves for the program.  For an image that the kernel has mapped, control goes to its entry point;
  for a direct invocation to the entry point of the image that was loaded, and the auxiliary vector describes that image.
  The start-up root is recorded for \<open>rtld_fini\<close> and the statics describe the process.\<close>

definition mapped_started where
  "mapped_started ops b st w inp target w' \<longleftrightarrow>
     (\<exists>main ro sec bs rtld mg1 mg2 root su.
        publish_bootstrap_state (b_phdr_size b) (b_read_ehdr b) (process (initial inp)) (aux (initial inp)) (main_load_bias inp)
          (rtld_load_bias inp) = (ro, sec, bs) \<and>
        load_bootstrap_object b [] (bs_main bs) = Inr main \<and> target = b_entry b main \<and>
        startup_state_of ops (b_l_addr b) mg1 root rtld = Done (mg2, Some su) \<and> w_root w' = Some root \<and>
        w_early w' = w_early w @ (case find_loaded_symbol ops mg2 (ascii ''__libc_early_init'') of None \<Rightarrow> [] | Some f \<Rightarrow> [f]) \<and>
        w_stack w' = w_stack w \<and> started b st ro (process (initial inp)) su (link_ctx mg2) w')"

definition direct_started where
  "direct_started ops b st w inp target w' \<longleftrightarrow>
     (\<exists>stack1 ro sec bs path exec ph num.
        run_process (b_phdr_size b) (b_read_ehdr b) (b_files b) (w_mem w) (w_stack w) inp = Done (Boot (stack1, ro, sec, bs)) \<and>
        b_load_exec b path = Inr exec \<and> target = ex_entry exec \<and> (ph, num) = (case ex_phdrs exec of Some x \<Rightarrow> x | None \<Rightarrow> (0, 0)) \<and>
        patch_auxv (b_phdr_size b) stack1 (auxv (bs_process bs)) ph num (obj_load_bias (bs_rtld bs)) target
          (exec_path (bs_process bs)) = Some (w_stack w') \<and>
        (ex_dynamic exec \<noteq> None \<longrightarrow> (\<exists>rtld mg1 mg2 root su. startup_state_of ops (b_l_addr b) mg1 root rtld = Done (mg2, Some su) \<and>
          w_root w' = Some root \<and> started b st ro (bs_process bs) su (link_ctx mg2) w')))"

lemma entry_call_aligned: "16 dvd unat (rsp (entry_call ehdr dyn r))" "rsp (entry_call ehdr dyn r) \<le> rsp r"
proof -
  have "unat (rsp r AND - 16) = unat (rsp r) - unat (rsp r) mod 16"
    using unat_and_not_pow2_minus_1 [of "rsp r" 4] by simp
  then show "16 dvd unat (rsp (entry_call ehdr dyn r))" "rsp (entry_call ehdr dyn r) \<le> rsp r"
    by (simp_all add: entry_call_def word_le_nat_alt dvd_minus_mod)
qed

lemma entry_start_Jump:
  assumes "entry_start bootstrap ehdr dyn fini r = Jump r' (c, w)"
  shows "bootstrap (rsp r) ehdr dyn = Done (Boot (c, w, rip r')) \<and> rsp r' = rsp r \<and> rdx r' = fini"
  using assms by (auto simp: entry_start_def entry_call_def entry_jump_def Let_def split: run.split_asm boot.split_asm)


text \<open>C10. How a start ends when it does not reach the program: the process exits with status 127 whenever the program
  was mapped by the kernel or the failure came before the arguments were read, and with 0, 1 or 127 when the
  interpreter was invoked directly.\<close>

theorem start_exit_status:
  assumes "start_process rops ops lk b st rm mg w ehdr dyn fini r = Exited status"
  shows "status = RTLD_FATAL_EXIT_STATUS \<or> status \<in> {0, 1} \<and>
    (\<exists>rm1 inp. startup_new rops (b_phdr_size b) (b_read_phdr b) rm (w_stack w) (rsp r) ehdr dyn = Boot (rm1, inp) \<and> direct inp)"
proof -
  let ?b = "rtld_bootstrap rops ops lk b st rm mg w (rsp r) ehdr dyn"
  have "?b = Panic \<and> status = RTLD_FATAL_EXIT_STATUS \<or> (\<exists>out. ?b = Done (Stopped out status))"
    using assms by (auto simp: start_process_def entry_start_def entry_call_def Let_def split: run.split_asm boot.split_asm)
  then show ?thesis by (elim disjE exE conjE) (erule disjI1, erule rtld_bootstrap_Stopped)
qed

section \<open>Example\<close>

text \<open>A start in which the interpreter and the program are one module each.\<close>

definition demo_boot :: "(nat list, nat, nat, nat, unit, bytes) boot_ops" where
  "demo_boot = \<lparr>b_phdr_size = 56, b_read_phdr = (\<lambda>_. \<lparr>program_type = PT_TLS, p_vaddr = 0\<rparr>),
     b_read_ehdr = (\<lambda>_. \<lparr>e_phentsize = 56, e_phoff = 64, e_phnum = 3, e_entry = 0x100\<rparr>),
     b_files = (\<lambda>_. None), b_kernel = \<lparr>fd_valid = (\<lambda>_ _. True), openat = (\<lambda>s _ _. (s, None))\<rparr>,
     b_load_mapped = (\<lambda>name bias phs en. Inr (if name = [] then 3 else 2)), b_load_exec = (\<lambda>_. Inl 0),
     b_entry = (\<lambda>r. 0x5000), b_name = (\<lambda>_. []), b_link_map = (\<lambda>r. Some (of_nat (4096 * r))), b_module = (\<lambda>r. r),
     b_l_addr = (\<lambda>p. p), b_env = (\<lambda>_. None), b_box_at = (\<lambda>_. 0x9000), 
     b_tls = (\<lambda>_. \<lparr>static_tls = None, static_tls_modules = [], tls_modules = [], dynamic_tls_blocks = [], tls_allocations = [],
       tls_heap = zero_heap, fs_base = 0\<rparr>),
     b_context_error = Unsupported, b_show = (\<lambda>_. [])\<rparr>"

definition boot_linker :: "(nat list, nat, nat, nat, nat, nat, nat, nat, nat) linker_ops" where
  "boot_linker = \<lparr>
     load_dylib = (\<lambda>f k bs. Inl 0), resolve_committed = (\<lambda>caller c path. (c, Inr None)),
     prepare_load = (\<lambda>caller f c path. (c, Inl 0)), prepare_mapped = (\<lambda>caller f c k r. (c, Inr r)),
     relocate = (\<lambda>p. Inr p), publish = (\<lambda>c q. (c @ [q], Inr q)), pub_root = (\<lambda>b. b),
     pub_rollback = (\<lambda>c b. (c, None)), initialize = (\<lambda>b. Inr (b, [b])), failed_rollback = (\<lambda>c f. (c, f))\<rparr>"

definition demo_world :: "(nat, nat, unit) boot_world" where
  "demo_world = \<lparr>w_mem = (\<lambda>_. 0), w_stack = (\<lambda>_. 0), w_links = (\<lambda>_. \<lparr>l_prev = 0, l_next = 0, l_real = 0\<rparr>), w_stack_end = 0,
     w_dl_argv = 0, w_globals = \<lparr>g_argc = 0, g_argv = 0, g_envp = 0\<rparr>, w_root = None, w_kernel = (), w_early = []\<rparr>"

definition mapped_input :: startup_input where
  "mapped_input = \<lparr>initial = \<lparr>raw = 0x7000, process = \<lparr>argc = 1, argv = 0x7008, envp = 0x7018, auxv = 0x7020, exec_path = 0\<rparr>,
       aux = aux_empty\<lparr>phdr := 0x40, phent := 56, phnum := 3, entry := 0x5000, base := 0x400000\<rparr>\<rparr>,
     main_load_bias = 0, main_dynamic = 0, rtld_load_bias = 0x400000, direct = False\<rparr>"

lemma mapped_input_runs:
  "\<exists>mg' w'. run_startup demo_ops boot_linker demo_boot sample_statics (manager_new []) (demo_world\<lparr>w_stack := s\<rparr>) mapped_input =
     Done (Boot (mg', w', Inr 0x5000))"
proof -
  have p: "publish_rtld_ro_aux sample_statics m ro = Some (publish_x86_cpu_defaults (rtld_global_ro sample_statics)
      (foldl (write_at RtldGlobalRo (rtld_global_ro sample_statics)) m (aux_writes sample_statics ro 0)))"
    if "ro_platform ro = 0" for m ro
    using that by (simp add: publish_rtld_ro_aux_def publish_aux_stores c_strlen_def)
  show ?thesis
    by (simp add: run_startup_def run_process_def mapped_input_def publish_bootstrap_state_def publish_process_def p aux_empty_def
        run_program_def check_standard_fds_if_secure_def load_bootstrap_object_def rtld_object_def demo_boot_def phdr_list_def
        rtld_register_loaded_def register_loaded_def demo_ops_def manager_new_def List.map_filter_def add_alias_def
        prepare_kernel_mapped_main_def link_startup_root_def link_mapped_root_def open_with_def effective_flags_def get_env_def
        is_mapped_root_def is_binary_root_def link_open_def finish_open_def boot_linker_def RTLD_NAME_def ascii_def
        startup_hook_def startup_state_of_def register_initial_aliases_def first_elf_def insert_rtld_def startup_publish_def
        split_beta Let_def open_load_def drop_opened_def release_def)
qed

text \<open>The stack the kernel leaves for it, and one for an invocation of the interpreter without arguments.\<close>

definition start_stack :: "(usize \<times> usize) list \<Rightarrow> wmem" where
  "start_stack kvs a = (let ws = stack_words [0x10] [] kvs 0; i = unat (a - 0x7000) div 8
     in if a < 0x7000 \<or> length ws \<le> i then 0 else ws ! i)"

definition mapped_kvs :: "(usize \<times> usize) list" where
  "mapped_kvs = [(AT_PHDR, 0x40), (AT_PHENT, 56), (AT_PHNUM, 3), (AT_BASE, 0x400000), (AT_ENTRY, 0x5000)]"

definition start_world :: "(usize \<times> usize) list \<Rightarrow> (nat, nat, unit) boot_world" where
  "start_world kvs = demo_world\<lparr>w_stack := start_stack kvs\<rparr>"

definition start_regs :: regs where
  "start_regs = \<lparr>rax = 0, rbx = 0, rsp = 0x7000, rdi = 0, rsi = 0, rdx = 0, rip = 0x400100\<rparr>"

lemma start_stack_layout: "process_layout (start_stack mapped_kvs) 0x7000 [0x10] [] mapped_kvs 0"
  "process_layout (start_stack []) 0x7000 [0x10] [] [] 0"
  by (simp_all add: process_layout_def stack_words_def mapped_kvs_def start_stack_def Let_def at_defs)

lemma demo_relocate: "Self_Reloc.relocate demo_reloc_ops m 0x2000 0x400000 = (m, True)"
  by (simp add: Self_Reloc.relocate_def parse_tables_def parse_tables_loop.simps demo_reloc_ops_def finish_tables_def
      validate_def table_empty_def is_empty_table_def apply_tables_def)

lemma start_stack_parse: "parse (start_stack mapped_kvs) 0x7000 = Some (initial mapped_input)"
  "parse (start_stack []) 0x7000 =
     Some \<lparr>raw = 0x7000, process = \<lparr>argc = 1, argv = 0x7008, envp = 0x7018, auxv = 0x7020, exec_path = 0\<rparr>, aux = aux_empty\<rparr>"
  unfolding layout_parse [OF start_stack_layout(1)] layout_parse [OF start_stack_layout(2)]
  by (simp_all add: mapped_input_def envp_of_def auxv_of_def mapped_kvs_def at_defs set_aux_def aux_empty_def)

lemma mapped_phdrs:
  "find_phdr (b_phdr_size demo_boot) (b_read_phdr demo_boot) (aux (initial mapped_input)) t =
     (if t = PT_TLS then Some \<lparr>program_type = PT_TLS, p_vaddr = 0\<rparr> else None)"
proof -
  have u: "[0..<3] = [0, 1, 2 :: nat]" by (simp add: upt_rec)
  show ?thesis
    by (simp add: find_phdr_def mapped_input_def aux_empty_def demo_boot_def phdr_at_def checked_mul_def u List.map_filter_def)
qed

lemma mapped_startup_new:
  "startup_new demo_reloc_ops (b_phdr_size demo_boot) (b_read_phdr demo_boot) m (w_stack (start_world mapped_kvs)) 0x7000 0x400000 0x2000 =
     Boot (m, mapped_input)"
  by (simp add: startup_new_def demo_relocate start_world_def start_stack_parse load_bias_def dynamic_def mapped_phdrs)
    (simp add: mapped_input_def)

lemma mapped_pass_through: "pass_through_entry demo_reloc_ops (b_phdr_size demo_boot) (b_read_phdr demo_boot) m mapped_input = None"
  by (simp add: pass_through_entry_def has_tls_def mapped_phdrs)


theorem start_exit_status_witness:
  "start_process demo_reloc_ops demo_ops boot_linker demo_boot sample_statics (\<lambda>_. 0) (manager_new [])
       (start_world []) 0x400000 0x2000 0x400800 start_regs = Exited 0 \<and>
   (\<exists>rm1 inp. startup_new demo_reloc_ops (b_phdr_size demo_boot) (b_read_phdr demo_boot) (\<lambda>_. 0) (w_stack (start_world []))
     (rsp start_regs) 0x400000 0x2000 = Boot (rm1, inp) \<and> direct inp)"
proof -
  have c: "cstr_bytes (\<lambda>_. 0) 0x10 = Some []" by (simp add: cstr_bytes_def cstr_len_def cstr_len_loop.simps)
  have w: "start_stack [] 0x7008 = 0x10" by (simp add: start_stack_def stack_words_def)
  have e: "start_process demo_reloc_ops demo_ops boot_linker demo_boot sample_statics (\<lambda>_. 0) (manager_new [])
      (start_world []) 0x400000 0x2000 0x400800 start_regs = Exited 0"
    by (simp add: start_process_def entry_start_def entry_call_def start_regs_def rtld_bootstrap_def startup_new_def demo_relocate
        start_world_def start_stack_parse aux_empty_def pass_through_entry_def run_startup_def run_process_def demo_world_def
        handle_direct_invocation_def exit_help_def print_help_def c w Let_def)
  show ?thesis using start_exit_status [OF e] e by (simp add: RTLD_FATAL_EXIT_STATUS_def)
qed

end
