(* ===== verification/Observer.thy ===== *)
theory Observer
  imports Host Tls_Resolver
begin

text \<open>
  The loader's observer of \<open>elf_loader\<close> (\<open>src/src/dlopen/observer.rs\<close>): the lookup order and binding it asks
  for, the link map it builds for every object once its segments are mapped, which it announces to the
  debugger, and the calls of the initialisers.  The mapped object, of another crate, is the record
  \<open>raw_dylib\<close> of what the code reads of it.
\<close>

section \<open>Operations\<close>

datatype lookup_order = LocalFirst | GlobalFirst

definition on_relocation :: "open_flags \<Rightarrow> lookup_order \<times> bool" where
  "on_relocation flags = (if is_deepbind flags then LocalFirst else GlobalFirst, is_now flags)"

record obs_phdr = host_phdr +
  p_align :: usize
  p_filesz :: usize

record link_data =
  ld_addr :: usize
  ld_name :: bytes
  ld_ld :: usize
  ld_phdr :: usize
  ld_entry :: usize
  ld_phnum :: u16
  ld_tls_modid :: usize
  ld_tls_offset :: usize
  ld_tls_blocksize :: usize
  ld_tls_align :: usize
  ld_tls_firstbyte :: usize
  ld_tls_initimage :: usize
  ld_tls_initimage_size :: usize

definition populate_link_map_tls ::
  "link_data \<Rightarrow> usize \<Rightarrow> obs_phdr list \<Rightarrow> usize option \<Rightarrow> usize option \<Rightarrow> link_data" where
  "populate_link_map_tls d start phs tls_mod_id tls_tp_offset =
     (case tls_mod_id of
        None \<Rightarrow> d
      | Some i \<Rightarrow>
          let d1 = d\<lparr>ld_tls_modid := i, ld_tls_offset := (case tls_tp_offset of None \<Rightarrow> 0 | Some off \<Rightarrow> off)\<rparr>
          in case find (\<lambda>ph. program_type ph = PT_TLS) phs of
               None \<Rightarrow> d1
             | Some tls \<Rightarrow>
                 let d2 = d1\<lparr>ld_tls_blocksize := p_memsz tls, ld_tls_align := p_align tls,
                       ld_tls_firstbyte := p_vaddr tls AND saturating_sub (p_align tls) 1,
                       ld_tls_initimage_size := p_filesz tls\<rparr>
                 in if p_filesz tls \<noteq> 0 then d2\<lparr>ld_tls_initimage := start + p_vaddr tls\<rparr> else d2)"

record raw_dylib =
  rd_name :: bytes
  rd_path :: bytes
  rd_base :: usize
  rd_phdrs :: "obs_phdr list"
  rd_phdrs_ptr :: usize
  rd_entry :: usize
  rd_tls :: "module_tls option"

definition link_name :: "raw_dylib \<Rightarrow> bytes" where
  "link_name r = (if rd_path r = [] then rd_name r else rd_path r)"

definition link_data_of :: "raw_dylib \<Rightarrow> link_data" where
  "link_data_of r =
     (let phs = rd_phdrs r
      in populate_link_map_tls
           \<lparr>ld_addr = rd_base r, ld_name = link_name r,
            ld_ld = (case find (\<lambda>ph. program_type ph = PT_DYNAMIC) phs of None \<Rightarrow> 0 | Some ph \<Rightarrow> rd_base r + p_vaddr ph),
            ld_phdr = (if phs = [] then 0 else rd_phdrs_ptr r), ld_entry = rd_entry r,
            ld_phnum = of_nat (min (length phs) 65535),
            ld_tls_modid = 0, ld_tls_offset = 0, ld_tls_blocksize = 0, ld_tls_align = 0, ld_tls_firstbyte = 0,
            ld_tls_initimage = 0, ld_tls_initimage_size = 0\<rparr>
           (rd_base r) phs (map_option mod_id (rd_tls r)) (Option.bind (rd_tls r) tp_offset))"

text \<open>\<open>place\<close> is the address of the boxed link map; a name with a zero byte makes \<open>CString::new\<close> fail.\<close>

definition on_after_dynamic_load :: "usize \<Rightarrow> custom_debug \<Rightarrow> raw_dylib \<Rightarrow> (custom_debug \<times> usize \<times> link_data) run" where
  "on_after_dynamic_load place dbg r =
     (if 0 \<in> set (link_name r) then Panic
      else let m = (maps dbg)(place := \<lparr>l_prev = 0, l_next = 0, l_real = place\<rparr>)
           in Done (add_debug_link_map (dbg\<lparr>maps := m\<rparr>) place, place, link_data_of r))"

text \<open>The initialisers of an object, each with the arguments of the process; \<open>argc as c_int\<close> keeps 32 bits.\<close>

definition run_init_hook :: "libc_globals \<Rightarrow> usize list \<Rightarrow> (usize \<times> u32 \<times> usize \<times> usize) list" where
  "run_init_hook g funcs = map (\<lambda>f. (f, ucast (g_argc g), g_argv g, g_envp g)) funcs"

section \<open>Properties\<close>

lemma debug_list_fresh_map:
  assumes "debug_list s xs" "p \<notin> set xs"
  shows "debug_list (s\<lparr>maps := (maps s)(p := n)\<rparr>) xs"
  using assms by (simp add: debug_list_def seg_frame del: fun_upd_apply)

lemma first_byte_mod:
  fixes v :: usize
  assumes "k < 64"
  shows "unat (v AND saturating_sub (2 ^ k) 1) = unat v mod 2 ^ k"
proof -
  have "(1 :: usize) \<le> 2 ^ k" using unat_pow2_usize [OF assms] by (simp add: word_le_nat_alt)
  then have "saturating_sub (2 ^ k) 1 = (2 ^ k - 1 :: usize)" by (simp add: saturating_sub_def)
  then show ?thesis using unat_and_pow2_minus_1 [of v k] by simp
qed


definition demo_dylib :: raw_dylib where
  "demo_dylib = \<lparr>rd_name = ascii ''libx.so'', rd_path = ascii ''/lib/libx.so'', rd_base = 0x10000,
     rd_phdrs = [\<lparr>program_type = PT_DYNAMIC, p_vaddr = 0x3000, p_offset = 0x3000, p_memsz = 0x200, p_align = 8, p_filesz = 0x200\<rparr>,
       \<lparr>program_type = PT_TLS, p_vaddr = 0x2010, p_offset = 0x2010, p_memsz = 24, p_align = 32, p_filesz = 0\<rparr>],
     rd_phdrs_ptr = 0x10040, rd_entry = 0, rd_tls = Some (DynamicTls 3)\<rparr>"


end
