(* ===== verification/Dlinfo.thy ===== *)
theory Dlinfo
  imports Tls Manager
begin

text \<open>
  The queries about a loaded object that libc forwards to the interpreter: \<open>dlinfo\<close> with the cache of origin
  paths (\<open>src/rtld/impl/src/symbols/dlfcn.rs\<close>) and the list of default search paths
  (\<open>src/rtld/impl/src/symbols/serinfo.rs\<close>), on the byte memory.  The fields of the link maps are read through
  a function, and the place that the allocator chooses for a cached string is an argument.
\<close>

section \<open>C strings\<close>

text \<open>\<open>CStr::from_ptr(p).to_bytes()\<close>; \<open>None\<close> if there is no terminator.\<close>

definition cstr_from_ptr :: "mem \<Rightarrow> usize \<Rightarrow> bytes option" where
  "cstr_from_ptr m p = map_option (\<lambda>n. read_list m p (unat n)) (strlen m p)"

definition holds_cstr :: "mem \<Rightarrow> usize \<Rightarrow> bytes \<Rightarrow> bool" where
  "holds_cstr m p s \<longleftrightarrow> read_list m p (length s + 1) = s @ [0] \<and> 0 \<notin> set s \<and> length s < 2 ^ 63"

lemma read_list_Suc: "read_list m p (Suc n) = read_list m p n @ [m (p + of_nat n)]"
  by (simp add: read_list_def)

lemma nth_read_list: "i < n \<Longrightarrow> read_list m p n ! i = m (p + of_nat i)"
  by (simp add: read_list_def)

lemma cstr_from_ptr_holds:
  assumes "holds_cstr m p s"
  shows "cstr_from_ptr m p = Some s"
proof -
  have r: "read_list m p (length s) = s" "m (p + of_nat (length s)) = 0"
    using assms by (simp_all add: holds_cstr_def read_list_Suc)
  have "m (p + of_nat j) \<noteq> 0" if "j < length s" for j
    using that assms r(1) nth_read_list [OF that, of m p] by (auto simp: holds_cstr_def in_set_conv_nth)
  with r(2) have "strlen m p = Some (of_nat (length s))" by (rule strlen_correct)
  then show ?thesis using assms r(1) by (simp add: cstr_from_ptr_def unat_of_nat_usize holds_cstr_def)
qed

lemma holds_cstr_written:
  assumes "0 \<notin> set s" "length s < 2 ^ 63"
  shows "holds_cstr (write_list m p (s @ [0])) p s"
  using assms read_write_list_same [of "s @ [0]" m p] by (simp add: holds_cstr_def)

lemma holds_cstr_apart:
  assumes "holds_cstr m p s" "apart p (length s + 1) q (length bs)"
  shows "holds_cstr (write_list m q bs) p s"
  using assms read_write_list_apart [OF assms(2), of m] by (simp add: holds_cstr_def)

section \<open>Origins\<close>

text \<open>\<open>Iterator::rposition\<close>.\<close>

definition rposition :: "('a \<Rightarrow> bool) \<Rightarrow> 'a list \<Rightarrow> nat option" where
  "rposition P xs = map_option (\<lambda>i. length xs - 1 - i) (position P (rev xs))"

definition origin_from_name :: "bytes \<Rightarrow> bytes" where
  "origin_from_name name =
     (case rposition (\<lambda>b. b = 47) name of
        Some index \<Rightarrow> (if index = 0 then take 1 name else take index name)
      | None \<Rightarrow> if name = [] then [] else ascii ''.'')"

record link_info =
  li_ns :: u64
  li_name :: usize
  li_tls_modid :: usize
  li_phdr :: usize
  li_phnum :: u16

record origin_entry =
  oe_link_map :: usize
  oe_name :: usize
  oe_origin :: usize

record 'src info_state =
  info_tls :: "'src tls_state"
  origin_cache :: "origin_entry list"

definition info_mem :: "'src info_state \<Rightarrow> mem" where
  "info_mem s = bytes_of (tls_heap (info_tls s))"

definition store :: "'src info_state \<Rightarrow> usize \<Rightarrow> bytes \<Rightarrow> 'src info_state" where
  "store s p bs = s\<lparr>info_tls := (info_tls s)\<lparr>tls_heap := (tls_heap (info_tls s))\<lparr>bytes_of :=
     write_list (info_mem s) p bs\<rparr>\<rparr>\<rparr>"

text \<open>Results are the new state and the value, or \<open>None\<close> when the name is not terminated.\<close>

definition write_origin :: "'src info_state \<Rightarrow> link_info \<Rightarrow> usize \<Rightarrow> ('src info_state \<times> int) option" where
  "write_origin s lm dst =
     (if dst = 0 then Some (s, -1)
      else if li_name lm = 0 then Some (store s dst [0], 0)
      else map_option (\<lambda>name. (store s dst (origin_from_name name @ [0]), 0)) (cstr_from_ptr (info_mem s) (li_name lm)))"

text \<open>\<open>CString::new\<close> copies the string with a terminator to the place the allocator gives, and is an error
  if the string has a zero byte.\<close>

definition origin_path_ptr ::
  "usize \<Rightarrow> 'src info_state \<Rightarrow> usize \<Rightarrow> usize \<Rightarrow> ('src info_state \<times> usize) option run" where
  "origin_path_ptr place s link_map name =
     (if name = 0 then Done (Some (s, 0))
      else case find (\<lambda>e. oe_link_map e = link_map \<and> oe_name e = name) (origin_cache s) of
          Some e \<Rightarrow> Done (Some (s, oe_origin e))
        | None \<Rightarrow>
            (case cstr_from_ptr (info_mem s) name of
               None \<Rightarrow> Done None
             | Some bs \<Rightarrow>
                 let origin = origin_from_name bs in
                 if 0 \<in> set origin then Panic
                 else let s1 = store s place (origin @ [0])
                      in Done (Some (s1\<lparr>origin_cache := origin_cache s1 @
                           [\<lparr>oe_link_map = link_map, oe_name = name, oe_origin = place\<rparr>]\<rparr>, place))))"

definition write_origin_path ::
  "usize \<Rightarrow> 'src info_state \<Rightarrow> usize \<Rightarrow> link_info \<Rightarrow> usize \<Rightarrow> ('src info_state \<times> int) option run" where
  "write_origin_path place s link_map lm dst =
     (if dst = 0 then Done (Some (s, -1))
      else run_bind (origin_path_ptr place s link_map (li_name lm)) (\<lambda>r.
        Done (map_option (\<lambda>(s1, origin). (store s1 dst (le_enc 8 (unat origin)), 0)) r)))"

section \<open>Default search paths\<close>

definition default_library_paths :: "bytes list" where
  "default_library_paths = map (\<lambda>p. ascii p @ [0])
     [''/lib/x86_64-linux-gnu'', ''/usr/lib/x86_64-linux-gnu'', ''/lib'', ''/usr/lib'', ''/lib64'', ''/usr/lib64'']"

text \<open>Both structures take 16 bytes; the last four are padding.\<close>

definition SERINFO_SIZE :: nat where "SERINFO_SIZE = 16"
definition SERPATH_SIZE :: nat where "SERPATH_SIZE = 16"

fun write_serpaths :: "bytes list \<Rightarrow> usize \<Rightarrow> usize \<Rightarrow> mem \<Rightarrow> mem" where
  "write_serpaths [] serpath name m = m"
| "write_serpaths (path # paths) serpath name m =
     write_serpaths paths (serpath + of_nat SERPATH_SIZE) (name + of_nat (length path))
       (write_list (write_usize (write_list m name path) serpath name) (serpath + 8) (le_enc 4 0))"

definition dl_rtld_di_serinfo :: "mem \<Rightarrow> usize \<Rightarrow> bool \<Rightarrow> mem" where
  "dl_rtld_di_serinfo m serinfo counting =
     (if serinfo = 0 then m
      else let paths = default_library_paths;
               path_count = length paths;
               total = SERINFO_SIZE + path_count * SERPATH_SIZE + sum_list (map length paths);
               m1 = write_list (write_usize m serinfo (of_nat total)) (serinfo + 8) (le_enc 4 path_count)
           in if counting then m1
              else write_serpaths paths (serinfo + of_nat SERINFO_SIZE)
                     (serinfo + of_nat (SERINFO_SIZE + path_count * SERPATH_SIZE)) m1)"

section \<open>dlinfo\<close>

definition RTLD_DI_LMID :: int where "RTLD_DI_LMID = 1"
definition RTLD_DI_LINKMAP :: int where "RTLD_DI_LINKMAP = 2"
definition RTLD_DI_SERINFO :: int where "RTLD_DI_SERINFO = 4"
definition RTLD_DI_SERINFOSIZE :: int where "RTLD_DI_SERINFOSIZE = 5"
definition RTLD_DI_ORIGIN :: int where "RTLD_DI_ORIGIN = 6"
definition RTLD_DI_TLS_MODID :: int where "RTLD_DI_TLS_MODID = 9"
definition RTLD_DI_TLS_DATA :: int where "RTLD_DI_TLS_DATA = 10"
definition RTLD_DI_PHDR :: int where "RTLD_DI_PHDR = 11"
definition RTLD_DI_ORIGIN_PATH :: int where "RTLD_DI_ORIGIN_PATH = 12"

definition dlinfo_link_map ::
  "usize \<Rightarrow> 'src info_state \<Rightarrow> usize \<Rightarrow> link_info \<Rightarrow> int \<Rightarrow> usize \<Rightarrow> ('src info_state \<times> int) option run" where
  "dlinfo_link_map place s link_map lm request arg =
     (let word = (\<lambda>v. store s arg (le_enc 8 (unat v)))
      in if request = RTLD_DI_LMID then Done (Some (word (li_ns lm), 0))
         else if request = RTLD_DI_LINKMAP then Done (Some (word link_map, 0))
         else if request = RTLD_DI_ORIGIN then Done (write_origin s lm arg)
         else if request = RTLD_DI_ORIGIN_PATH then write_origin_path place s link_map lm arg
         else if request = RTLD_DI_TLS_MODID then Done (Some (word (li_tls_modid lm), 0))
         else if request = RTLD_DI_TLS_DATA then
           Done (Some (word (if li_tls_modid lm = 0 then 0 else get_addr_soft (info_tls s) (li_tls_modid lm)), 0))
         else if request = RTLD_DI_PHDR then Done (Some (word (li_phdr lm), int (unat (li_phnum lm))))
         else Done (Some (s, -1)))"

definition dlfcn_dlinfo ::
  "usize \<Rightarrow> (usize \<Rightarrow> link_info) \<Rightarrow> ('c, 'l, 'm) manager \<Rightarrow> 'src info_state \<Rightarrow> usize \<Rightarrow> int \<Rightarrow> usize \<Rightarrow>
     ('src info_state \<times> int) option run" where
  "dlfcn_dlinfo place lms mg s handle request arg =
     (let serinfo = (\<lambda>counting. s\<lparr>info_tls := (info_tls s)\<lparr>tls_heap := (tls_heap (info_tls s))\<lparr>bytes_of :=
            dl_rtld_di_serinfo (info_mem s) arg counting\<rparr>\<rparr>\<rparr>)
      in if arg = 0 then Done (Some (s, -1))
         else if request = RTLD_DI_SERINFO then Done (Some (serinfo False, 0))
         else if request = RTLD_DI_SERINFOSIZE then Done (Some (serinfo True, 0))
         else (case handle_link_map mg handle of
                 None \<Rightarrow> Done (Some (s, -1))
               | Some link_map \<Rightarrow>
                   if link_map = 0 then Done (Some (s, -1))
                   else dlinfo_link_map place s link_map (lms link_map) request arg))"

section \<open>Properties of the search paths\<close>

lemma write_serpaths_frame:
  assumes "apart q k sp (length paths * 16)" "apart q k nm (sum_list (map length paths))"
  shows "read_list (write_serpaths paths sp nm m) q k = read_list m q k"
  using assms
proof (induction paths arbitrary: sp nm m)
  case Nil
  then show ?case by simp
next
  case (Cons path paths)
  let ?m = "write_list (write_usize (write_list m nm path) sp nm) (sp + 8) (le_enc 4 0)"
  have a: "apart q k nm (length path)" using apart_subset [OF Cons.prems(2), of 0 "length path"] by simp
  have b: "apart q k sp 8" using apart_subset [OF Cons.prems(1), of 0 8] by simp
  have c: "apart q k (sp + 8) 4" using apart_subset [OF Cons.prems(1), of 8 4] by simp
  have "read_list ?m q k = read_list m q k"
    using a b c by (simp add: write_usize_def read_write_list_apart)
  moreover have "read_list (write_serpaths paths (sp + of_nat 16) (nm + of_nat (length path)) ?m) q k = read_list ?m q k"
    using apart_subset [OF Cons.prems(1), of 16 "length paths * 16"]
      apart_subset [OF Cons.prems(2), of "length path" "sum_list (map length paths)"]
    by (intro Cons.IH) simp_all
  ultimately show ?case by (simp add: SERPATH_SIZE_def)
qed

lemma write_serpaths_entries:
  assumes "a + length paths * 16 \<le> b" "b + sum_list (map length paths) < 2 ^ 64" "i < length paths"
  shows "let m' = write_serpaths paths (p + of_nat a) (p + of_nat b) m;
             nm = p + of_nat (b + sum_list (map length (take i paths)))
         in read_usize m' (p + of_nat (a + i * 16)) = nm \<and> read_list m' nm (length (paths ! i)) = paths ! i"
  using assms
proof (induction paths arbitrary: a b i m)
  case Nil
  then show ?case by simp
next
  case (Cons path paths)
  let ?m = "write_list (write_usize (write_list m (p + of_nat b) path) (p + of_nat a) (p + of_nat b)) (p + of_nat a + 8) (le_enc 4 0)"
  have step: "write_serpaths (path # paths) (p + of_nat a) (p + of_nat b) m =
      write_serpaths paths (p + of_nat (a + 16)) (p + of_nat (b + length path)) ?m"
    by (simp add: SERPATH_SIZE_def ac_simps)
  show ?case
  proof (cases i)
    case 0
    have room: "a + 16 + length paths * 16 \<le> b" "b + length path + sum_list (map length paths) < 2 ^ 64" using Cons.prems by auto
    have off: "p + of_nat a + 8 = p + of_nat (a + 8)" by simp
    have "read_list (write_serpaths paths (p + of_nat (a + 16)) (p + of_nat (b + length path)) ?m) (p + of_nat a) 8 =
        read_list ?m (p + of_nat a) 8"
      by (intro write_serpaths_frame apart_offsets) (use room in auto)
    also have "\<dots> = read_list (write_usize (write_list m (p + of_nat b) path) (p + of_nat a) (p + of_nat b)) (p + of_nat a) 8"
      unfolding off by (intro read_write_list_apart apart_offsets) (use room in auto)
    finally have ptr: "read_usize (write_serpaths paths (p + of_nat (a + 16)) (p + of_nat (b + length path)) ?m) (p + of_nat a) =
        p + of_nat b"
      using read_write_usize [of "write_list m (p + of_nat b) path"] by (simp add: read_usize_def)
    have "read_list (write_serpaths paths (p + of_nat (a + 16)) (p + of_nat (b + length path)) ?m) (p + of_nat b) (length path) =
        read_list ?m (p + of_nat b) (length path)"
      by (intro write_serpaths_frame apart_offsets) (use room in auto)
    also have "\<dots> = read_list (write_list m (p + of_nat b) path) (p + of_nat b) (length path)"
      unfolding off write_usize_def
      by (intro read_write_list_apart [THEN trans] apart_offsets read_write_list_apart) (use room in auto)
    also have "\<dots> = path" by (rule read_write_list_same) (use room in auto)
    finally show ?thesis using ptr by (simp add: 0 step del: write_serpaths.simps)
  next
    case (Suc j)
    have "a + 16 + length paths * 16 \<le> b + length path" "b + length path + sum_list (map length paths) < 2 ^ 64" "j < length paths"
      using Cons.prems Suc by auto
    from Cons.IH [OF this, of ?m] show ?thesis
      by (simp add: Suc step Let_def algebra_simps del: write_serpaths.simps)
  qed
qed

definition serinfo_total :: nat where
  "serinfo_total = 16 + length default_library_paths * 16 + sum_list (map length default_library_paths)"

lemma serinfo_sizes: "length default_library_paths = 6" "sum_list (map length default_library_paths) = 80" "serinfo_total = 192"
  by (simp_all add: default_library_paths_def serinfo_total_def)

lemma le_enc_six: "le_enc 4 6 = [6, 0, 0, 0]" "length [6 :: u8, 0, 0, 0] = 4"
  by code_simp+

text \<open>C40. The search-path query fills the buffer that the size query announces and nothing else: the announced
  size is that of the header, the six entries and the strings, the count is 6, and every entry points to
  its terminated path inside the buffer.\<close>

theorem serinfo_layout:
  assumes "p \<noteq> 0"
  shows "read_usize (dl_rtld_di_serinfo m p True) p = 192 \<and>
    (let m' = dl_rtld_di_serinfo m p False in
     read_usize m' p = 192 \<and> read_list m' (p + 8) 4 = [6, 0, 0, 0] \<and>
     (\<forall>i<6. let q = read_usize m' (p + of_nat (16 + i * 16)); path = default_library_paths ! i in
        read_list m' q (length path) = path \<and> (\<exists>d. q = p + of_nat d \<and> 112 \<le> d \<and> d + length path \<le> 192)) \<and>
     (\<forall>q k. apart q k p 192 \<longrightarrow> read_list m' q k = read_list m q k))"
proof -
  let ?ps = default_library_paths
  define m1 where "m1 = write_list (write_usize m p 192) (p + 8) (le_enc 4 6)"
  have counting: "dl_rtld_di_serinfo m p True = m1"
    using assms serinfo_sizes
    by (simp add: dl_rtld_di_serinfo_def m1_def serinfo_total_def SERINFO_SIZE_def SERPATH_SIZE_def)
  have full: "dl_rtld_di_serinfo m p False = write_serpaths ?ps (p + of_nat 16) (p + of_nat 112) m1" (is "_ = ?m")
    using assms serinfo_sizes
    by (simp add: dl_rtld_di_serinfo_def m1_def serinfo_total_def SERINFO_SIZE_def SERPATH_SIZE_def)
  have head: "read_list m1 p 8 = read_list (write_usize m p 192) p 8"
    unfolding m1_def using apart_offsets [of 0 8 8 4 p] by (intro read_write_list_apart) simp
  then have size: "read_usize m1 p = 192" using read_write_usize [of m p 192] by (simp add: read_usize_def)
  have count: "read_list m1 (p + 8) 4 = [6, 0, 0, 0]"
    unfolding m1_def le_enc_six(1)
    using read_write_list_same [of "[6, 0, 0, 0]" "write_usize m p 192" "p + 8", unfolded le_enc_six(2)] by simp
  have frame: "read_list ?m q k = read_list m1 q k" if "apart q k (p + of_nat 16) 96" "apart q k (p + of_nat 112) 80" for q k
    by (rule write_serpaths_frame) (use that serinfo_sizes in simp_all)
  have "read_list ?m p 8 = read_list m1 p 8"
    using apart_offsets [of 0 8 16 96 p] apart_offsets [of 0 8 112 80 p] by (intro frame) simp_all
  moreover have "read_list ?m (p + 8) 4 = read_list m1 (p + 8) 4"
    using apart_offsets [of 8 4 16 96 p] apart_offsets [of 8 4 112 80 p] by (intro frame) simp_all
  moreover have "let q = read_usize ?m (p + of_nat (16 + i * 16)); path = ?ps ! i in
        read_list ?m q (length path) = path \<and> (\<exists>d. q = p + of_nat d \<and> 112 \<le> d \<and> d + length path \<le> 192)"
    if "i < 6" for i
  proof -
    let ?d = "112 + sum_list (map length (take i ?ps))"
    have split: "?ps = take i ?ps @ ?ps ! i # drop (Suc i) ?ps" using that serinfo_sizes by (intro id_take_nth_drop) simp
    have "sum_list (map length ?ps) = sum_list (map length (take i ?ps)) + length (?ps ! i) + sum_list (map length (drop (Suc i) ?ps))"
      using arg_cong [OF split, of "\<lambda>xs. sum_list (map length xs)"] by (simp only: map_append list.map sum_list_append sum_list.Cons)
    then have "?d + length (?ps ! i) \<le> 192" using serinfo_sizes by simp
    moreover have "read_usize ?m (p + of_nat (16 + i * 16)) = p + of_nat ?d \<and>
        read_list ?m (p + of_nat ?d) (length (?ps ! i)) = ?ps ! i"
      using write_serpaths_entries [of 16 ?ps 112 i p m1] that serinfo_sizes by (simp add: Let_def)
    ultimately show ?thesis unfolding Let_def by (metis le_add1)
  qed
  moreover have "read_list ?m q k = read_list m q k" if "apart q k p 192" for q k
  proof -
    have "read_list ?m q k = read_list m1 q k"
      using apart_subset [OF that, of 16 96] apart_subset [OF that, of 112 80] by (intro frame) simp_all
    also have "\<dots> = read_list m q k"
      using apart_subset [OF that, of 8 4] apart_subset [OF that, of 0 8]
      by (simp add: m1_def write_usize_def read_write_list_apart)
    finally show ?thesis .
  qed
  ultimately show ?thesis unfolding counting full using size count by (simp add: read_usize_def)
qed

theorem serinfo_layout_witness:
  "let m' = dl_rtld_di_serinfo (\<lambda>_. 0) 0x1000 False; q = read_usize m' (0x1000 + of_nat (16 + 2 * 16))
   in read_list m' q 5 = ascii ''/lib'' @ [0]"
proof -
  have nz: "(0x1000 :: usize) \<noteq> 0" by simp
  have path: "default_library_paths ! 2 = ascii ''/lib'' @ [0]" "length (ascii ''/lib'' @ [0]) = 5"
    by (simp_all add: default_library_paths_def)
  have "(2 :: nat) < 6" by simp
  then have "let m' = dl_rtld_di_serinfo (\<lambda>_. 0) 0x1000 False; q = read_usize m' (0x1000 + of_nat (16 + 2 * 16))
      in read_list m' q (length (default_library_paths ! 2)) = default_library_paths ! 2"
    using serinfo_layout [OF nz, of "\<lambda>_. 0"] unfolding Let_def by blast
  then show ?thesis unfolding path .
qed

section \<open>Properties of the origins\<close>

lemma rposition_slash:
  assumes "47 \<notin> set f"
  shows "rposition (\<lambda>b. b = 47) (d @ 47 # f) = Some (length d)"
proof -
  have "position (\<lambda>b. b = 47) (rev f @ 47 # rev d) = Some (length (rev f))"
    using assms by (auto simp: position_Some nth_append in_set_conv_nth rev_nth)
  then show ?thesis by (simp add: rposition_def)
qed

lemma rposition_none: "47 \<notin> set f \<Longrightarrow> rposition (\<lambda>b. b = 47) f = None"
  by (auto simp: rposition_def position_None)

lemma origin_from_name_slash:
  assumes "47 \<notin> set f"
  shows "origin_from_name (d @ 47 # f) = (if d = [] then [47] else d)"
  by (simp add: origin_from_name_def rposition_slash [OF assms])

lemma origin_no_zero: "0 \<notin> set name \<Longrightarrow> 0 \<notin> set (origin_from_name name)"
  by (auto simp: origin_from_name_def ascii_def split: option.split dest: in_set_takeD)

lemma origin_length: "length (origin_from_name name) \<le> length name"
  by (cases name) (auto simp: origin_from_name_def split: option.split)

lemma info_mem_store [simp]: "info_mem (store s p bs) = write_list (info_mem s) p bs"
  by (simp add: store_def info_mem_def)

lemma info_mem_cache [simp]: "info_mem (s\<lparr>origin_cache := c\<rparr>) = info_mem s"
  by (simp add: info_mem_def)

lemma origin_cache_store [simp]: "origin_cache (store s p bs) = origin_cache s"
  by (simp add: store_def)

text \<open>The cached strings are the origins of the names they were made from, which are still there.\<close>

definition cache_ok :: "'src info_state \<Rightarrow> bool" where
  "cache_ok s \<longleftrightarrow> (\<forall>e\<in>set (origin_cache s). \<exists>n. holds_cstr (info_mem s) (oe_name e) n \<and>
     holds_cstr (info_mem s) (oe_origin e) (origin_from_name n))"

definition live_strings :: "'src info_state \<Rightarrow> usize set" where
  "live_strings s = oe_name ` set (origin_cache s) \<union> oe_origin ` set (origin_cache s)"

text \<open>A region apart from the strings at some addresses.\<close>

definition clear_of :: "mem \<Rightarrow> usize set \<Rightarrow> usize \<Rightarrow> nat \<Rightarrow> bool" where
  "clear_of m ps q k \<longleftrightarrow> (\<forall>p\<in>ps. \<forall>t. holds_cstr m p t \<longrightarrow> apart p (length t + 1) q k)"

lemma holds_cstr_unique: "holds_cstr m p s \<Longrightarrow> holds_cstr m p t \<Longrightarrow> s = t"
  by (metis cstr_from_ptr_holds option.inject)

lemma holds_clear:
  "clear_of m ps q (length bs) \<Longrightarrow> p \<in> ps \<Longrightarrow> holds_cstr m p t \<Longrightarrow> holds_cstr (write_list m q bs) p t"
  by (auto simp: clear_of_def intro: holds_cstr_apart)

lemma cache_ok_store:
  assumes "cache_ok s" "clear_of (info_mem s) (live_strings s) q (length bs)"
  shows "cache_ok (store s q bs)"
  unfolding cache_ok_def
proof
  fix e assume e: "e \<in> set (origin_cache (store s q bs))"
  then obtain n where "holds_cstr (info_mem s) (oe_name e) n" "holds_cstr (info_mem s) (oe_origin e) (origin_from_name n)"
    using assms(1) by (auto simp: cache_ok_def)
  moreover have "oe_name e \<in> live_strings s" "oe_origin e \<in> live_strings s" using e by (auto simp: live_strings_def)
  ultimately show "\<exists>n. holds_cstr (info_mem (store s q bs)) (oe_name e) n \<and>
      holds_cstr (info_mem (store s q bs)) (oe_origin e) (origin_from_name n)"
    using holds_clear [OF assms(2)] by auto
qed

lemma origin_path_ptr_ok:
  assumes ok: "cache_ok s" and name: "name \<noteq> 0" "holds_cstr (info_mem s) name n"
    and place: "clear_of (info_mem s) (insert name (live_strings s)) place (length (origin_from_name n) + 1)"
  shows "\<exists>s' p. origin_path_ptr place s link_map name = Done (Some (s', p)) \<and> cache_ok s' \<and>
    holds_cstr (info_mem s') p (origin_from_name n) \<and> live_strings s' \<subseteq> insert name (insert p (live_strings s)) \<and>
    (p = place \<or> p \<in> live_strings s) \<and> (\<forall>q\<in>insert name (live_strings s). \<forall>t. holds_cstr (info_mem s) q t \<longrightarrow> holds_cstr (info_mem s') q t)"
proof (cases "find (\<lambda>e. oe_link_map e = link_map \<and> oe_name e = name) (origin_cache s)")
  case (Some e)
  then have e: "e \<in> set (origin_cache s)" "oe_name e = name" by (auto simp: find_Some_iff)
  then obtain n' where "holds_cstr (info_mem s) name n'" "holds_cstr (info_mem s) (oe_origin e) (origin_from_name n')"
    using ok by (auto simp: cache_ok_def)
  then have "holds_cstr (info_mem s) (oe_origin e) (origin_from_name n)" using name(2) holds_cstr_unique by blast
  then show ?thesis using Some name(1) ok e(1) by (auto simp: origin_path_ptr_def live_strings_def)
next
  case None
  let ?o = "origin_from_name n"
  let ?s1 = "store s place (?o @ [0])"
  let ?s2 = "?s1\<lparr>origin_cache := origin_cache ?s1 @ [\<lparr>oe_link_map = link_map, oe_name = name, oe_origin = place\<rparr>]\<rparr>"
  have z: "0 \<notin> set ?o" "length ?o < 2 ^ 63"
    using name(2) origin_no_zero origin_length [of n] by (auto simp: holds_cstr_def)
  then have run: "origin_path_ptr place s link_map name = Done (Some (?s2, place))"
    using None name cstr_from_ptr_holds [OF name(2)] by (simp add: origin_path_ptr_def Let_def)
  have mem: "info_mem ?s2 = write_list (info_mem s) place (?o @ [0])" by simp
  have keep: "holds_cstr (info_mem ?s2) q t" if "q \<in> insert name (live_strings s)" "holds_cstr (info_mem s) q t" for q t
    unfolding mem using holds_clear [of "info_mem s" "insert name (live_strings s)" place "?o @ [0]"] place that by simp
  have new: "holds_cstr (info_mem ?s2) place ?o" unfolding mem by (rule holds_cstr_written [OF z])
  have "cache_ok ?s1" using cache_ok_store [OF ok, of place "?o @ [0]"] place by (auto simp: clear_of_def)
  moreover have "info_mem ?s2 = info_mem ?s1" by (simp add: mem)
  moreover have "holds_cstr (info_mem ?s2) name n" using keep name(2) by blast
  ultimately have "cache_ok ?s2" using new by (auto simp: cache_ok_def)
  moreover have "live_strings ?s2 \<subseteq> insert name (insert place (live_strings s))"
    by (auto simp: live_strings_def)
  ultimately show ?thesis using run new keep by blast
qed

lemma live_holds: "cache_ok s \<Longrightarrow> q \<in> live_strings s \<Longrightarrow> \<exists>t. holds_cstr (info_mem s) q t"
  by (auto simp: cache_ok_def live_strings_def)

lemma write_origin_path_ok:
  assumes ok: "cache_ok s" and name: "li_name lm \<noteq> 0" "holds_cstr (info_mem s) (li_name lm) n" and arg: "arg \<noteq> 0"
    and place: "clear_of (info_mem s) (insert (li_name lm) (live_strings s)) place (length (origin_from_name n) + 1)"
    and arg_clear: "clear_of (info_mem s) (insert (li_name lm) (live_strings s)) arg 8"
    and apart: "apart place (length (origin_from_name n) + 1) arg 8"
  shows "\<exists>s'. write_origin_path place s link_map lm arg = Done (Some (s', 0)) \<and> cache_ok s' \<and>
    holds_cstr (info_mem s') (read_usize (info_mem s') arg) (origin_from_name n)"
proof -
  obtain s1 p where run: "origin_path_ptr place s link_map (li_name lm) = Done (Some (s1, p)) \<and> cache_ok s1 \<and>
      holds_cstr (info_mem s1) p (origin_from_name n) \<and> live_strings s1 \<subseteq> insert (li_name lm) (insert p (live_strings s)) \<and>
      (p = place \<or> p \<in> live_strings s) \<and>
      (\<forall>q\<in>insert (li_name lm) (live_strings s). \<forall>t. holds_cstr (info_mem s) q t \<longrightarrow> holds_cstr (info_mem s1) q t)"
    using origin_path_ptr_ok [OF ok name place, of link_map] by (elim exE)
  from run have ok1: "cache_ok s1" and hp: "holds_cstr (info_mem s1) p (origin_from_name n)"
    and live: "live_strings s1 \<subseteq> insert (li_name lm) (insert p (live_strings s))" and p: "p = place \<or> p \<in> live_strings s"
    and keep: "\<forall>q\<in>insert (li_name lm) (live_strings s). \<forall>t. holds_cstr (info_mem s) q t \<longrightarrow> holds_cstr (info_mem s1) q t"
    by - (elim conjE, assumption)+
  have old: "apart q (length t + 1) arg 8"
    if q: "q \<in> insert (li_name lm) (live_strings s)" and t: "holds_cstr (info_mem s1) q t" for q t
  proof -
    obtain t0 where t0: "holds_cstr (info_mem s) q t0" using q name(2) live_holds [OF ok] by blast
    have "t = t0" by (rule holds_cstr_unique [OF t keep [rule_format, OF q t0]])
    then show ?thesis using arg_clear q t0 unfolding clear_of_def by blast
  qed
  have "apart p (length (origin_from_name n) + 1) arg 8" using p apart old [OF _ hp] by blast
  then have all: "clear_of (info_mem s1) (insert p (live_strings s1)) arg 8"
    unfolding clear_of_def
  proof (intro ballI allI impI)
    fix q t assume q: "q \<in> insert p (live_strings s1)" and t: "holds_cstr (info_mem s1) q t"
    show "apart q (length t + 1) arg 8"
    proof (cases "q = p")
      case True
      then show ?thesis using \<open>apart p _ arg 8\<close> holds_cstr_unique [OF _ hp] t by auto
    next
      case False
      then show ?thesis using q live by (intro old [OF _ t]) blast
    qed
  qed
  let ?s' = "store s1 arg (le_enc 8 (unat p))"
  have "cache_ok ?s'" using ok1 all by (intro cache_ok_store) (auto simp: clear_of_def)
  moreover have "holds_cstr (info_mem ?s') p (origin_from_name n)"
    using holds_clear [of "info_mem s1" "insert p (live_strings s1)" arg "le_enc 8 (unat p)"] all hp by simp
  moreover have "read_usize (info_mem ?s') arg = p" using read_write_usize [of "info_mem s1" arg p] by (simp add: write_usize_def)
  ultimately show ?thesis using run arg by (auto simp: write_origin_path_def)
qed


definition demo_info :: "bytes \<Rightarrow> bytes \<Rightarrow> origin_entry list \<Rightarrow> bytes info_state" where
  "demo_info name origin cache =
     \<lparr>info_tls = tls_start (zero_heap\<lparr>bytes_of := write_list (write_list (\<lambda>_. 0) 0x300 (origin @ [0])) 0x100 (name @ [0])\<rparr>) 0,
      origin_cache = cache\<rparr>"

lemma demo_info_name:
  assumes "0 \<notin> set name" "length name < 2 ^ 63"
  shows "holds_cstr (info_mem (demo_info name origin cache)) 0x100 name"
  using holds_cstr_written [OF assms] by (simp add: demo_info_def info_mem_def tls_start_def)

lemma demo_clear:
  assumes "0 \<notin> set name" "length name < 200" "0x200 \<le> q" "q + k < 2 ^ 64"
  shows "clear_of (info_mem (demo_info name [] [])) (insert 0x100 (live_strings (demo_info name [] []))) (of_nat q) k"
proof -
  have "holds_cstr (info_mem (demo_info name [] [])) 0x100 name" using assms(1,2) by (intro demo_info_name) auto
  then have "apart 0x100 (length t + 1) (of_nat q) k" if "holds_cstr (info_mem (demo_info name [] [])) 0x100 t" for t
    using holds_cstr_unique [OF that] assms apart_offsets [of "0x100" "length name + 1" q k 0] by auto
  then show ?thesis by (simp add: clear_of_def live_strings_def demo_info_def)
qed

definition demo_lms :: "usize \<Rightarrow> link_info" where
  "demo_lms = (\<lambda>_. \<lparr>li_ns = 0, li_name = 0x100, li_tls_modid = 0, li_phdr = 0, li_phnum = 0\<rparr>)"


text \<open>The cache is never purged: when another object is loaded at the addresses of one that was unloaded, the
  origin of the old one is returned.\<close>

lemma origin_cache_stale:
  "\<exists>s :: bytes info_state. holds_cstr (info_mem s) 0x100 (ascii ''/new/x'') \<and>
     origin_path_ptr 0x500 s 7 0x100 = Done (Some (s, 0x300)) \<and> holds_cstr (info_mem s) 0x300 (ascii ''/old'')"
proof -
  let ?e = "\<lparr>oe_link_map = 7, oe_name = 0x100, oe_origin = 0x300\<rparr>"
  let ?s = "demo_info (ascii ''/new/x'') (ascii ''/old'') [?e]"
  let ?m = "write_list (\<lambda>_. 0) 0x300 (ascii ''/old'' @ [0])"
  have z: "0 \<notin> set (ascii ''/new/x'')" "0 \<notin> set (ascii ''/old'')" by (simp_all add: ascii_def)
  have "apart 0x300 (length (ascii ''/old'') + 1) 0x100 (length (ascii ''/new/x'' @ [0]))"
    using apart_offsets [of "0x300" "length (ascii ''/old'') + 1" "0x100" "length (ascii ''/new/x'' @ [0])" 0] by simp
  then have "holds_cstr (info_mem ?s) 0x300 (ascii ''/old'')"
    using holds_cstr_apart [OF holds_cstr_written [OF z(2)]] by (simp add: demo_info_def info_mem_def tls_start_def)
  moreover have "origin_path_ptr 0x500 ?s 7 0x100 = Done (Some (?s, 0x300))" by (simp add: origin_path_ptr_def demo_info_def)
  moreover have "holds_cstr (info_mem ?s) 0x100 (ascii ''/new/x'')" by (rule demo_info_name) (simp_all add: z)
  ultimately show ?thesis by blast
qed

end
