(* ===== verification/Exports.thy ===== *)
theory Exports
  imports Rtld_Publish Api
begin

text \<open>
  The small functions the interpreter exports to libc (\<open>src/rtld/impl/src/symbols/\<close>): tunables, exceptions, the
  static TLS information, and the table of functions behind libc's own \<open>dlopen\<close> family, which forwards to the C
  interface of \<open>Api\<close>; and the thread pointer system calls of \<open>arch/x86_64/mod.rs\<close>.
\<close>

section \<open>Tunables\<close>

text \<open>\<open>TunableDefault\<close>; a string is the address of a \<open>TunableString\<close>.\<close>

datatype tunable_default = I32 int | Usize usize | TString usize

definition tunable_is_initialized :: "usize \<Rightarrow> bool" where
  "tunable_is_initialized n = False"

text \<open>\<open>nil\<close> is the address of \<open>EMPTY_TUNABLE_STRING\<close>.\<close>

definition TUNABLE_DEFAULTS :: "usize \<Rightarrow> tunable_default list" where
  "TUNABLE_DEFAULTS nil =
     [TString nil, I32 0, I32 0, Usize 0, TString nil, Usize 0, Usize 0, Usize 0, Usize 2048, Usize 0,
      TString nil, I32 0, I32 1048576, I32 50, Usize 0, Usize 0, I32 0, Usize 0, I32 0, Usize 0, Usize 0,
      I32 0, Usize 0, Usize 0, Usize 131072, Usize 0, I32 0, I32 100, I32 1, Usize 41943040, I32 1, I32 2,
      I32 0, I32 1, Usize 4, Usize 512]"

fun tunable_bytes :: "tunable_default \<Rightarrow> bytes" where
  "tunable_bytes (I32 d) = le_enc 4 (nat (d mod 2 ^ 32))"
| "tunable_bytes (Usize d) = le_enc 8 (unat d)"
| "tunable_bytes (TString p) = le_enc 8 (unat p)"

definition tunable_get_val :: "usize \<Rightarrow> mem \<Rightarrow> usize \<Rightarrow> usize \<Rightarrow> mem" where
  "tunable_get_val nil m n v =
     (if v = 0 then m
      else if unat n < length (TUNABLE_DEFAULTS nil) then write_list m v (tunable_bytes (TUNABLE_DEFAULTS nil ! unat n))
      else m)"

section \<open>Errors\<close>

text \<open>\<open>operate\<close> is the callback, with its effect on memory; null pointers are not written.\<close>

definition write_unless_null :: "mem \<Rightarrow> usize \<Rightarrow> bytes \<Rightarrow> mem" where
  "write_unless_null m p bs = (if p = 0 then m else write_list m p bs)"

definition dl_catch_error :: "mem \<Rightarrow> usize \<Rightarrow> usize \<Rightarrow> usize \<Rightarrow> (mem \<Rightarrow> mem) option \<Rightarrow> mem \<times> int" where
  "dl_catch_error m objname errstring mallocedp operate =
     (let m = (case operate of Some f \<Rightarrow> f m | None \<Rightarrow> m);
          m = write_unless_null m objname (le_enc 8 0);
          m = write_unless_null m errstring (le_enc 8 0)
      in (write_unless_null m mallocedp (le_enc 1 0), 0))"

definition dl_catch_exception :: "mem \<Rightarrow> usize \<Rightarrow> (mem \<Rightarrow> mem) option \<Rightarrow> mem \<times> int" where
  "dl_catch_exception m exception operate = (case operate of Some f \<Rightarrow> f m | None \<Rightarrow> m, 0)"

definition DlException :: ctype where
  "DlException = Struct [(''objname'', Word 8), (''errstring'', Word 8), (''message_buffer'', Word 8)]"

definition dl_exception_create :: "mem \<Rightarrow> usize \<Rightarrow> usize \<Rightarrow> usize \<Rightarrow> mem" where
  "dl_exception_create m exception objname errstring =
     (if exception = 0 then m
      else let m = write_at DlException exception m ([Fld ''objname''], unat objname);
               m = write_at DlException exception m ([Fld ''errstring''], unat errstring)
           in write_at DlException exception m ([Fld ''message_buffer''], 0))"

definition dl_exception_create_format :: "mem \<Rightarrow> usize \<Rightarrow> usize \<Rightarrow> usize \<Rightarrow> mem" where
  "dl_exception_create_format m exception objname fmt = dl_exception_create m exception objname fmt"

definition dl_exception_free :: "mem \<Rightarrow> usize \<Rightarrow> mem" where
  "dl_exception_free m exception =
     (if exception = 0 then m
      else let m = write_at DlException exception m ([Fld ''objname''], 0);
               m = write_at DlException exception m ([Fld ''errstring''], 0)
           in write_at DlException exception m ([Fld ''message_buffer''], 0))"

text \<open>\<open>_dl_signal_error\<close>, \<open>_dl_signal_exception\<close> and \<open>_dl_fatal_printf\<close> end the process.\<close>

definition dl_signal_error :: "'a boot" where "dl_signal_error = Stopped [] RTLD_FATAL_EXIT_STATUS"

section \<open>Thread-local storage\<close>

text \<open>The argument of \<open>__tls_get_addr\<close> is a pointer to a module and an offset.\<close>

definition exported_tls_get_addr ::
  "('src \<Rightarrow> bytes option) \<Rightarrow> usize option \<Rightarrow> mem \<Rightarrow> 'src tls_state \<Rightarrow> usize \<Rightarrow> ('src tls_state \<times> usize) run" where
  "exported_tls_get_addr with_image mmap m s index =
     get_addr with_image mmap s (if index = 0 then None else Some (read_usize m index, read_usize m (index + 8)))"

definition dl_allocate_tls ::
  "('src \<Rightarrow> bytes option) \<Rightarrow> usize option \<Rightarrow> usize option \<Rightarrow> 'src tls_state \<Rightarrow> usize \<Rightarrow> ('src tls_state \<times> usize) run" where
  "dl_allocate_tls with_image mmap mmap_dtv s storage = allocate with_image mmap mmap_dtv s storage"

definition dl_allocate_tls_init ::
  "('src \<Rightarrow> bytes option) \<Rightarrow> usize option \<Rightarrow> 'src tls_state \<Rightarrow> usize \<Rightarrow> bool \<Rightarrow> ('src tls_state \<times> usize) run" where
  "dl_allocate_tls_init with_image mmap_dtv s storage main_thread = tls_init with_image mmap_dtv s storage"

definition nptl_change_stack_perm :: "usize \<Rightarrow> int" where "nptl_change_stack_perm stack = 0"

definition dl_x86_get_cpu_features :: "rtld_statics \<Rightarrow> usize" where
  "dl_x86_get_cpu_features st = x86_cpu_features (rtld_global_ro st)"

definition dl_get_tls_static_info :: "'src tls_state \<Rightarrow> mem \<Rightarrow> usize \<Rightarrow> usize \<Rightarrow> mem" where
  "dl_get_tls_static_info s m sz al =
     (let (tls_size, tls_align) = static_info s;
          m = write_unless_null m sz (le_enc 8 (unat tls_size))
      in write_unless_null m al (le_enc 8 (unat tls_align)))"

text \<open>\<open>l_tls_modid\<close> is read through the link map.\<close>

definition dl_tls_get_addr_soft :: "(usize \<Rightarrow> usize) \<Rightarrow> 'src tls_state \<Rightarrow> usize \<Rightarrow> usize" where
  "dl_tls_get_addr_soft l_tls_modid s lm = (if lm = 0 then 0 else get_addr_soft s (l_tls_modid lm))"

text \<open>The result of a raw system call is an error number if it lies in the last 4095 values.\<close>

definition raw_ok :: "usize \<Rightarrow> bool" where "raw_ok res \<longleftrightarrow> res \<le> - 4096"

definition arch_install_thread_pointer :: "usize \<Rightarrow> bool" where
  "arch_install_thread_pointer res = raw_ok res"

definition arch_get_thread_pointer :: "usize \<Rightarrow> usize \<Rightarrow> usize" where
  "arch_get_thread_pointer res tp = (if raw_ok res then tp else 0)"

section \<open>The function table of libc\<close>

definition dlfcn_dlopen ::
  "('c, 'i, 'l, 'm, 'y) link_ops \<Rightarrow> ('c, 'i, 'l, 'e, 'raw, 'p, 'q, 'b, 'f) linker_ops \<Rightarrow> ('e \<Rightarrow> bytes) \<Rightarrow>
     bytes list option \<Rightarrow> ('c, 'l, 'm) process \<Rightarrow> nat \<Rightarrow> bytes option \<Rightarrow> open_flags \<Rightarrow> usize \<Rightarrow> (('c, 'l, 'm) process \<times> usize) run" where
  "dlfcn_dlopen ops lk show_loader env s t filename flags caller =
     dlopen_with_caller ops lk show_loader env s t filename flags caller"

definition dlfcn_dlmopen ::
  "('c, 'i, 'l, 'm, 'y) link_ops \<Rightarrow> ('c, 'i, 'l, 'e, 'raw, 'p, 'q, 'b, 'f) linker_ops \<Rightarrow> ('e \<Rightarrow> bytes) \<Rightarrow>
     bytes list option \<Rightarrow> ('c, 'l, 'm) process \<Rightarrow> nat \<Rightarrow> int \<Rightarrow> bytes option \<Rightarrow> open_flags \<Rightarrow> usize \<Rightarrow>
     (('c, 'l, 'm) process \<times> usize) run" where
  "dlfcn_dlmopen ops lk show_loader env s t nsid filename flags caller =
     dlfcn_dlopen ops lk show_loader env s t filename flags caller"

definition libc_dlopen_mode ::
  "('c, 'i, 'l, 'm, 'y) link_ops \<Rightarrow> ('c, 'i, 'l, 'e, 'raw, 'p, 'q, 'b, 'f) linker_ops \<Rightarrow> ('e \<Rightarrow> bytes) \<Rightarrow>
     bytes list option \<Rightarrow> ('c, 'l, 'm) process \<Rightarrow> nat \<Rightarrow> bytes option \<Rightarrow> open_flags \<Rightarrow> (('c, 'l, 'm) process \<times> usize) run" where
  "libc_dlopen_mode ops lk show_loader env s t filename flags = dlfcn_dlopen ops lk show_loader env s t filename flags 0"

definition dlfcn_dlclose :: "('c, 'i, 'l, 'm, 'y) link_ops \<Rightarrow> ('c, 'l, 'm) process \<Rightarrow> nat \<Rightarrow> usize \<Rightarrow> (('c, 'l, 'm) process \<times> int) run" where
  "dlfcn_dlclose ops s t handle = dlclose ops s t handle"

definition libc_dlclose :: "('c, 'i, 'l, 'm, 'y) link_ops \<Rightarrow> ('c, 'l, 'm) process \<Rightarrow> nat \<Rightarrow> usize \<Rightarrow> (('c, 'l, 'm) process \<times> int) run" where
  "libc_dlclose ops s t handle = dlfcn_dlclose ops s t handle"

definition dlfcn_dlsym ::
  "('c, 'i, 'l, 'm, 'y) link_ops \<Rightarrow> ('y \<Rightarrow> usize) \<Rightarrow> ('c, 'l, 'm) process \<Rightarrow> nat \<Rightarrow> usize \<Rightarrow> bytes option \<Rightarrow> usize \<Rightarrow>
     (('c, 'l, 'm) process \<times> usize) run" where
  "dlfcn_dlsym ops into_raw s t handle name caller = dlsym_with_caller ops into_raw s t handle name caller"

definition libc_dlsym ::
  "('c, 'i, 'l, 'm, 'y) link_ops \<Rightarrow> ('y \<Rightarrow> usize) \<Rightarrow> ('c, 'l, 'm) process \<Rightarrow> nat \<Rightarrow> usize \<Rightarrow> bytes option \<Rightarrow>
     (('c, 'l, 'm) process \<times> usize) run" where
  "libc_dlsym ops into_raw s t handle name = dlfcn_dlsym ops into_raw s t handle name 0"

text \<open>The version is not looked at.\<close>

definition dlfcn_dlvsym ::
  "('c, 'i, 'l, 'm, 'y) link_ops \<Rightarrow> ('y \<Rightarrow> usize) \<Rightarrow> ('c, 'l, 'm) process \<Rightarrow> nat \<Rightarrow> usize \<Rightarrow> bytes option \<Rightarrow> bytes option \<Rightarrow> usize \<Rightarrow>
     (('c, 'l, 'm) process \<times> usize) run" where
  "dlfcn_dlvsym ops into_raw s t handle name version caller = dlfcn_dlsym ops into_raw s t handle name caller"

definition libc_dlvsym ::
  "('c, 'i, 'l, 'm, 'y) link_ops \<Rightarrow> ('y \<Rightarrow> usize) \<Rightarrow> ('c, 'l, 'm) process \<Rightarrow> nat \<Rightarrow> usize \<Rightarrow> bytes option \<Rightarrow> bytes option \<Rightarrow>
     (('c, 'l, 'm) process \<times> usize) run" where
  "libc_dlvsym ops into_raw s t handle name version = dlfcn_dlvsym ops into_raw s t handle name version 0"

definition dlfcn_dlerror :: "('c, 'l, 'm) process \<Rightarrow> nat \<Rightarrow> ('c, 'l, 'm) process \<times> bytes option" where
  "dlfcn_dlerror s t = dlerror s t"

definition dlfcn_dladdr1 ::
  "('c, 'i, 'l, 'm, 'y) link_ops \<Rightarrow> 'm elf_view \<Rightarrow> mem \<Rightarrow> ('c, 'l, 'm) manager \<Rightarrow> usize \<Rightarrow> usize \<Rightarrow>
     mem \<times> (('c, 'l, 'm) manager \<times> dl_info option) run" where
  "dlfcn_dladdr1 ops ev m mg addr extra_info = (write_unless_null m extra_info (le_enc 8 0), dladdr ops ev mg addr)"

section \<open>Properties\<close>

lemma raw_ok_iff: "raw_ok res \<longleftrightarrow> sint res < - 4095 \<or> 0 \<le> sint res"
proof -
  have b: "- (2 ^ 63) \<le> sint res" "sint res < 2 ^ 63" using sint_ge [of res] sint_lt [of res] by simp_all
  have u: "uint res = sint res mod 2 ^ 64" by (simp add: uint_sint take_bit_eq_mod)
  have "(sint res + 2 ^ 64) mod 2 ^ 64 = sint res + 2 ^ 64" if "sint res < 0"
    using b that by (intro mod_pos_pos_trivial) simp_all
  then have "uint res = (if 0 \<le> sint res then sint res else sint res + 2 ^ 64)"
    using b u by (auto simp: mod_pos_pos_trivial)
  moreover have "raw_ok res \<longleftrightarrow> uint res \<le> 2 ^ 64 - 4096" by (simp add: raw_ok_def word_le_def uint_word_ariths)
  ultimately show ?thesis using b by auto
qed

lemma tunable_widths: "length (tunable_bytes d) \<in> {4, 8}"
  by (cases d) simp_all

text \<open>Asking for a tunable writes its default, 4 or 8 bytes for the kind of value it has, at the given address and
  nothing else; an unknown number or a null address writes nothing.\<close>

theorem tunable_get_val_writes:
  "(v \<noteq> 0 \<longrightarrow> unat n < 36 \<longrightarrow>
      (let bs = tunable_bytes (TUNABLE_DEFAULTS nil ! unat n) in
       length bs \<in> {4, 8} \<and> read_list (tunable_get_val nil m n v) v (length bs) = bs \<and>
       (\<forall>q k. apart q k v (length bs) \<longrightarrow> read_list (tunable_get_val nil m n v) q k = read_list m q k))) \<and>
   (v = 0 \<or> 36 \<le> unat n \<longrightarrow> tunable_get_val nil m n v = m)"
proof -
  have l: "length (TUNABLE_DEFAULTS nil) = 36" by (simp add: TUNABLE_DEFAULTS_def)
  let ?bs = "tunable_bytes (TUNABLE_DEFAULTS nil ! unat n)"
  have "length ?bs < 2 ^ 64" using tunable_widths [of "TUNABLE_DEFAULTS nil ! unat n"] by auto
  then show ?thesis
    using tunable_widths [of "TUNABLE_DEFAULTS nil ! unat n"]
    by (auto simp: tunable_get_val_def l Let_def read_write_list_same read_write_list_apart)
qed

theorem tunable_get_val_writes_witness:
  "read_list (tunable_get_val 0x100 (\<lambda>_. 0xff) 27 0x2000) 0x2000 (length [100 :: u8, 0, 0, 0]) = [100, 0, 0, 0]"
proof -
  have "tunable_bytes (TUNABLE_DEFAULTS 0x100 ! unat (27 :: usize)) = [100, 0, 0, 0]"
  proof -
    have "TUNABLE_DEFAULTS 0x100 ! unat (27 :: usize) = I32 100" by (simp add: TUNABLE_DEFAULTS_def)
    moreover have "nat ((100 :: int) mod 2 ^ 32) = 100" "(4 :: nat) = Suc (Suc (Suc (Suc 0)))" by simp_all
    then have "tunable_bytes (I32 100) = le_enc (Suc (Suc (Suc (Suc 0)))) 100" by (simp only: tunable_bytes.simps)
    moreover have "le_enc (Suc (Suc (Suc (Suc 0)))) 100 = [100, 0, 0, 0]" by (simp only: le_enc.simps) simp
    ultimately show ?thesis by simp
  qed
  with tunable_get_val_writes
    [where v = "0x2000" and n = "27" and nil = "0x100" and m = "\<lambda>_. 0xff"] show ?thesis by (simp add: Let_def)
qed

text \<open>Exceptions: what was stored is read back, and nothing outside the structure changes.\<close>

lemma dl_exception_layout: "wf_type DlException" "size_of DlException = 24"
  by (simp_all add: DlException_def round_up_def)

lemma dl_exception_scalars:
  "scalar_width DlException [Fld ''objname''] = Some 8" "scalar_width DlException [Fld ''errstring''] = Some 8"
  "scalar_width DlException [Fld ''message_buffer''] = Some 8"
  by (simp_all add: scalar_width_def scalar_at_def DlException_def Let_def)

interpretation exception_vars: field_store "scalar_width DlException" "read_at DlException g" "write_at DlException g" for g
  by (rule field_store_struct) (simp_all add: dl_exception_layout)

lemma dl_exception_roundtrip:
  assumes "e \<noteq> 0"
  shows "map (read_at DlException e (dl_exception_create m e objname errstring))
      [[Fld ''objname''], [Fld ''errstring''], [Fld ''message_buffer'']] = map Some [unat objname, unat errstring, 0]"
    and "map (read_at DlException e (dl_exception_free m e))
      [[Fld ''objname''], [Fld ''errstring''], [Fld ''message_buffer'']] = map Some [0, 0, 0]"
  using assms unat_usize_bound [of objname] unat_usize_bound [of errstring]
  by (simp_all add: dl_exception_create_def dl_exception_free_def exception_vars.load_store dl_exception_scalars)

end
