(* ===== verification/File_Read.thy ===== *)
theory File_Read
  imports Prelude
begin

text \<open>
  Reading a whole file with raw system calls (\<open>read_file\<close> of \<open>src/src/os/linux.rs\<close>), the way the no-std build loads
  \<open>ld.so.cache\<close>.  The kernel is a record of functions over its state \<open>'k\<close>; \<open>'e\<close> is the type of error numbers.
  The loop over a file that does not report its size may run forever on a kernel that never reports the end; it is
  shown to end on every kernel that delivers finite contents.
\<close>

section \<open>Model\<close>

datatype whence = SEEK_SET | SEEK_END

record ('k, 'e) file_ops =
  sys_open :: "'k \<Rightarrow> bytes \<Rightarrow> 'k \<times> ('e + usize)"
  sys_lseek :: "'k \<Rightarrow> usize \<Rightarrow> whence \<Rightarrow> 'k \<times> ('e + usize)"
  sys_read :: "'k \<Rightarrow> usize \<Rightarrow> usize \<Rightarrow> 'k \<times> ('e + bytes)"
  sys_close :: "'k \<Rightarrow> usize \<Rightarrow> 'k"

text \<open>The two sources of \<open>Error::IO\<close>: an error number of the kernel, or the message of \<open>io_error\<close>.\<close>

datatype 'e read_error = Errno 'e | IoError bytes

definition incomplete :: "'e read_error" where
  "incomplete = IoError (ascii ''Failed to read complete file'')"

partial_function (option) read_loop ::
  "('k, 'e) file_ops \<Rightarrow> usize \<Rightarrow> 'k \<Rightarrow> bytes \<Rightarrow> ('k \<times> ('e read_error + bytes)) option" where
  "read_loop ops fd k buffer =
     (case sys_read ops k fd 1024 of
        (k', Inl e) \<Rightarrow> Some (k', Inl (Errno e))
      | (k', Inr bs) \<Rightarrow> if bs = [] then Some (k', Inr buffer) else read_loop ops fd k' (buffer @ bs))"

text \<open>The closure that reads from the open descriptor.  \<open>lseek\<close> to the end that fails counts as size 0.\<close>

definition read_fd :: "('k, 'e) file_ops \<Rightarrow> usize \<Rightarrow> 'k \<Rightarrow> ('k \<times> ('e read_error + bytes)) option" where
  "read_fd ops fd k =
     (let (k1, r1) = sys_lseek ops k fd SEEK_END;
          file_size = (case r1 of Inr n \<Rightarrow> n | Inl _ \<Rightarrow> 0)
      in if file_size > 0 then
           (case sys_lseek ops k1 fd SEEK_SET of
              (k2, Inr _) \<Rightarrow>
                (case sys_read ops k2 fd file_size of
                   (k3, Inl e) \<Rightarrow> Some (k3, Inl (Errno e))
                 | (k3, Inr bs) \<Rightarrow>
                     Some (k3, if of_nat (length bs) \<noteq> file_size then Inl incomplete else Inr bs))
            | (k2, Inl _) \<Rightarrow> read_loop ops fd k2 [])
         else read_loop ops fd (fst (sys_lseek ops k1 fd SEEK_SET)) [])"

definition read_file :: "('k, 'e) file_ops \<Rightarrow> 'k \<Rightarrow> bytes \<Rightarrow> ('k \<times> ('e read_error + bytes)) option" where
  "read_file ops k path =
     (case sys_open ops k (path @ [0]) of
        (k1, Inl e) \<Rightarrow> Some (k1, Inl (Errno e))
      | (k1, Inr fd) \<Rightarrow> map_option (\<lambda>(k2, r). (sys_close ops k2 fd, r)) (read_fd ops fd k1))"

section \<open>What the kernel promises\<close>

text \<open>\<open>contents\<close> is what the file holds and \<open>rest\<close> what is still to be read from the descriptor.  A \<open>read\<close> delivers
  the next bytes, at least one unless the end is reached; \<open>lseek\<close> to the end tells the size, or 0 for a file
  that does not know it, or fails and leaves the position; \<open>lseek\<close> to the start succeeds on a file that reported a
  size, and where it fails the position stays.\<close>

definition file_kernel :: "('k, 'e) file_ops \<Rightarrow> usize \<Rightarrow> bytes \<Rightarrow> ('k \<Rightarrow> bytes) \<Rightarrow> bool" where
  "file_kernel ops fd contents rest \<longleftrightarrow>
     (\<forall>k n k' r. sys_read ops k fd n = (k', r) \<longrightarrow> 0 < n \<longrightarrow>
        (\<exists>bs. r = Inr bs \<and> rest k = bs @ rest k' \<and> length bs \<le> unat n \<and> (bs = [] \<longrightarrow> rest k = []))) \<and>
     (\<forall>k k' r. sys_lseek ops k fd SEEK_END = (k', r) \<longrightarrow>
        (case r of Inl _ \<Rightarrow> rest k' = rest k
         | Inr n \<Rightarrow> (n \<noteq> 0 \<longrightarrow> n = of_nat (length contents)) \<and>
             (\<exists>k'' p. sys_lseek ops k' fd SEEK_SET = (k'', Inr p) \<and> rest k'' = contents))) \<and>
     (\<forall>k k' r. sys_lseek ops k fd SEEK_SET = (k', r) \<longrightarrow>
        (case r of Inl _ \<Rightarrow> rest k' = rest k | Inr _ \<Rightarrow> rest k' = contents))"

text \<open>A kernel that never returns less than was asked for, while there is as much.\<close>

definition full_reads :: "('k, 'e) file_ops \<Rightarrow> usize \<Rightarrow> ('k \<Rightarrow> bytes) \<Rightarrow> bool" where
  "full_reads ops fd rest \<longleftrightarrow> (\<forall>k n k' bs. sys_read ops k fd n = (k', Inr bs) \<longrightarrow> length bs = min (unat n) (length (rest k)))"

section \<open>Properties\<close>

lemma file_kernel_read:
  assumes "file_kernel ops fd contents rest" "0 < n"
  obtains k' bs where "sys_read ops k fd n = (k', Inr bs)" "rest k = bs @ rest k'" "length bs \<le> unat n" "bs = [] \<Longrightarrow> rest k = []"
proof -
  obtain k' r where r: "sys_read ops k fd n = (k', r)" by fastforce
  then have "\<exists>bs. r = Inr bs \<and> rest k = bs @ rest k' \<and> length bs \<le> unat n \<and> (bs = [] \<longrightarrow> rest k = [])"
    using assms unfolding file_kernel_def by blast
  with r show thesis by (elim exE conjE) (rule that [of k'], auto)
qed

lemma file_kernel_end:
  assumes "file_kernel ops fd contents rest" "sys_lseek ops k fd SEEK_END = (k', r)"
  shows "case r of Inl _ \<Rightarrow> rest k' = rest k
    | Inr n \<Rightarrow> (n \<noteq> 0 \<longrightarrow> n = of_nat (length contents)) \<and>
        (\<exists>k'' p. sys_lseek ops k' fd SEEK_SET = (k'', Inr p) \<and> rest k'' = contents)"
  using assms unfolding file_kernel_def by blast

lemma file_kernel_set:
  assumes "file_kernel ops fd contents rest" "sys_lseek ops k fd SEEK_SET = (k', r)"
  shows "case r of Inl _ \<Rightarrow> rest k' = rest k | Inr _ \<Rightarrow> rest k' = contents"
  using assms unfolding file_kernel_def by blast

text \<open>The loop ends and collects what was left, whatever sizes the kernel delivers it in.\<close>

lemma read_loop_collects:
  assumes "file_kernel ops fd contents rest"
  shows "\<exists>k'. read_loop ops fd k buffer = Some (k', Inr (buffer @ rest k)) \<and> rest k' = []"
proof (induction "length (rest k)" arbitrary: k buffer rule: less_induct)
  case less
  obtain k1 bs where r: "sys_read ops k fd 1024 = (k1, Inr bs)" "rest k = bs @ rest k1" "bs = [] \<Longrightarrow> rest k = []"
    using assms by (rule file_kernel_read [where n = 1024 and k = k]) simp_all
  show ?case
  proof (cases "bs = []")
    case True
    then show ?thesis using r by (subst read_loop.simps) auto
  next
    case False
    then have "length (rest k1) < length (rest k)" using r(2) by simp
    from less [OF this, of "buffer @ bs"] show ?thesis
      using r False by (subst read_loop.simps) simp
  qed
qed

lemma read_fd_result:
  assumes "file_kernel ops fd contents rest" "rest k = contents" "length contents < 2 ^ 64"
  shows "\<exists>k' r. read_fd ops fd k = Some (k', r) \<and> (r = Inr contents \<or> r = Inl incomplete) \<and>
    (full_reads ops fd rest \<longrightarrow> r = Inr contents)"
proof -
  obtain k1 r1 where l: "sys_lseek ops k fd SEEK_END = (k1, r1)" by fastforce
  define sz where "sz = (case r1 of Inr n \<Rightarrow> n | Inl _ \<Rightarrow> 0)"
  have fd: "read_fd ops fd k =
      (if sz > 0 then
         (case sys_lseek ops k1 fd SEEK_SET of
            (k2, Inr _) \<Rightarrow>
              (case sys_read ops k2 fd sz of
                 (k3, Inl e) \<Rightarrow> Some (k3, Inl (Errno e))
               | (k3, Inr bs) \<Rightarrow> Some (k3, if of_nat (length bs) \<noteq> sz then Inl incomplete else Inr bs))
          | (k2, Inl _) \<Rightarrow> read_loop ops fd k2 [])
       else read_loop ops fd (fst (sys_lseek ops k1 fd SEEK_SET)) [])"
    unfolding read_fd_def l Let_def prod.case sz_def [symmetric] by (rule refl)
  show ?thesis
  proof (cases "sz > 0")
    case True
    then have n: "r1 = Inr sz" "sz \<noteq> 0" by (auto simp: sz_def split: sum.splits)
    then have sz: "sz = of_nat (length contents)" using file_kernel_end [OF assms(1) l] by simp
    obtain k2 p where s: "sys_lseek ops k1 fd SEEK_SET = (k2, Inr p)" "rest k2 = contents"
      using file_kernel_end [OF assms(1) l] n by auto
    obtain k3 bs where r: "sys_read ops k2 fd sz = (k3, Inr bs)" "rest k2 = bs @ rest k3"
      using assms(1) True by (rule file_kernel_read)
    have u: "unat sz = length contents" using assms(3) by (simp add: sz unat_of_nat_usize)
    have "length bs \<le> length contents" using r(2) s(2) by simp
    then have lb: "unat (of_nat (length bs) :: usize) = length bs" using assms(3) by (simp add: unat_of_nat_usize)
    have "bs = contents" if "of_nat (length bs) = sz" using that lb u r(2) s(2) by auto
    moreover have "of_nat (length bs) = sz" if "full_reads ops fd rest"
      using that r(1) s(2) u sz unfolding full_reads_def by simp
    ultimately show ?thesis using True fd s r(1) by auto
  next
    case False
    define k2 where "k2 = fst (sys_lseek ops k1 fd SEEK_SET)"
    have "rest k2 = contents"
    proof (cases r1)
      case (Inl e)
      then have "rest k1 = contents" using file_kernel_end [OF assms(1) l] assms(2) by simp
      then show ?thesis
        using file_kernel_set [OF assms(1), of k1 k2 "snd (sys_lseek ops k1 fd SEEK_SET)"]
        by (simp add: k2_def split: sum.split_asm)
    next
      case (Inr n)
      then show ?thesis using file_kernel_end [OF assms(1) l] by (auto simp: k2_def)
    qed
    then show ?thesis using read_loop_collects [OF assms(1), of k2 "[]"] False fd by (auto simp: k2_def)
  qed
qed


section \<open>Example\<close>

text \<open>A kernel with one file; its state is the position and whether the file is open, and a read returns at most
  \<open>chunk\<close> bytes.\<close>

definition demo_files :: "bytes \<Rightarrow> nat \<Rightarrow> (nat \<times> bool, nat) file_ops" where
  "demo_files c chunk = \<lparr>
     sys_open = (\<lambda>k path. ((0, True), Inr 3)),
     sys_lseek = (\<lambda>k fd w. case w of SEEK_SET \<Rightarrow> ((0, snd k), Inr 0)
                                  | SEEK_END \<Rightarrow> ((length c, snd k), Inr (of_nat (length c)))),
     sys_read = (\<lambda>k fd n. let bs = take (min chunk (unat n)) (drop (fst k) c) in ((fst k + length bs, snd k), Inr bs)),
     sys_close = (\<lambda>k fd. (fst k, False))\<rparr>"

lemma demo_files_kernel: "0 < chunk \<Longrightarrow> file_kernel (demo_files c chunk) fd c (\<lambda>k. drop (fst k) c)"
proof -
  assume "0 < chunk"
  have "drop (p + min (length c - p) n) c = drop n (drop p c)" for p n
    by (simp add: min_def add.commute)
  then have "take n (drop p c) @ drop (p + min (length c - p) n) c = drop p c" for p n
    by (simp only: append_take_drop_id)
  with \<open>0 < chunk\<close> show ?thesis
    by (auto simp: file_kernel_def demo_files_def Let_def word_less_nat_alt)
qed


end
