(* ===== verification/Cache_Search.thy ===== *)
theory Cache_Search
  imports File_Read Open
begin

text \<open>
  How a request for a library is answered from \<open>/etc/ld.so.cache\<close>: \<open>LdCache::new\<close> reads the file with \<open>read_file\<close>
  (\<open>File_Read\<close>) and parses it (\<open>Ld_Cache\<close>), the static \<open>LD_CACHE\<close> of \<open>src/src/dlopen/run.rs\<close> keeps the cache or the
  absence of one, and the candidate provider of the search paths (\<open>Open\<close>) looks the request up.
\<close>

datatype 'e cache_error = CacheIO "'e read_error" | CacheParse ld_error

text \<open>\<open>None\<close>: the file has no end.\<close>

definition load_ld_cache :: "('k, 'e) file_ops \<Rightarrow> 'k \<Rightarrow> ('k \<times> ('e cache_error + ld_cache) run) option" where
  "load_ld_cache ops k =
     map_option (\<lambda>(k', r). (k', case r of
         Inl e \<Rightarrow> Done (Inl (CacheIO e))
       | Inr buffer \<Rightarrow>
           run_bind (ld_cache_new buffer) (\<lambda>x. Done (case x of Inl e \<Rightarrow> Inl (CacheParse e) | Inr c \<Rightarrow> Inr c))))
       (read_file ops k (ascii ''/etc/ld.so.cache''))"

text \<open>\<open>LdCache::new().ok()\<close>.\<close>

definition LD_CACHE :: "('k, 'e) file_ops \<Rightarrow> 'k \<Rightarrow> ('k \<times> ld_cache option run) option" where
  "LD_CACHE ops k =
     map_option (\<lambda>(k', r). (k', run_bind r (\<lambda>x. Done (case x of Inl _ \<Rightarrow> None | Inr c \<Rightarrow> Some c)))) (load_ld_cache ops k)"

text \<open>The first request, which initialises the static.\<close>

definition first_candidate :: "('k, 'e) file_ops \<Rightarrow> 'k \<Rightarrow> bytes \<Rightarrow> ('k \<times> bytes option run) option" where
  "first_candidate ops k request =
     map_option (\<lambda>(k', r). (k', run_bind r (\<lambda>cache. cache_candidate cache request))) (LD_CACHE ops k)"

lemma read_file_result:
  assumes "file_kernel ops fd contents rest" and "sys_open ops k (path @ [0]) = (k1, Inr fd)" and "rest k1 = contents"
    and "length contents < 2 ^ 64"
  obtains k2 r where "read_file ops k path = Some (sys_close ops k2 fd, r)" "r = Inr contents \<or> r = Inl incomplete"
    "full_reads ops fd rest \<longrightarrow> r = Inr contents"
  using read_fd_result [OF assms(1,3,4)] assms(2) that by (fastforce simp: read_file_def)

text \<open>Whatever was read, the request is answered without a panic.\<close>

lemma first_candidate_unfold:
  assumes "read_file ops k (ascii ''/etc/ld.so.cache'') = Some (k', r)"
  shows "first_candidate ops k request = Some (k', case r of
      Inl e \<Rightarrow> Done None
    | Inr buffer \<Rightarrow> run_bind (ld_cache_new buffer) (\<lambda>x. case x of Inl e \<Rightarrow> Done None | Inr c \<Rightarrow> lookup c request))"
proof (cases r)
  case (Inr buffer)
  then show ?thesis using assms ld_cache_new_total [of buffer]
    by (auto simp: first_candidate_def LD_CACHE_def load_ld_cache_def cache_candidate_def split: sum.split)
qed (simp add: assms first_candidate_def LD_CACHE_def load_ld_cache_def cache_candidate_def)



end
