(* ===== verification/C_Query.thy ===== *)
theory C_Query
  imports C_Layout Api Cli
begin

text \<open>
  The structures that the query functions of the C interface fill for their callers (\<open>CDlInfo\<close> and \<open>CDlPhdrInfo\<close> of
  \<open>src/src/abi.rs\<close>, \<open>DlFindObject\<close> of \<open>api/dl_find_object.rs\<close>): the functions of \<open>Api\<close> with the stores they make, on
  the byte memory, and what a C caller reads from it.  The theory also has the accessors of the Rust interface to the
  same data (\<open>library.rs\<close>, \<open>DlInfo\<close> and \<open>DlPhdrInfo\<close>).
\<close>

section \<open>Structures\<close>

definition CDlInfo :: ctype where
  "CDlInfo = Struct [(''dli_fname'', Word 8), (''dli_fbase'', Word 8), (''dli_sname'', Word 8), (''dli_saddr'', Word 8)]"

definition CDlPhdrInfo :: ctype where
  "CDlPhdrInfo = Struct [(''dlpi_addr'', Word 8), (''dlpi_name'', Word 8), (''dlpi_phdr'', Word 8), (''dlpi_phnum'', Word 2),
     (''dlpi_adds'', Word 8), (''dlpi_subs'', Word 8), (''dlpi_tls_modid'', Word 8), (''dlpi_tls_data'', Word 8)]"

definition DlFindObject :: ctype where
  "DlFindObject = Struct [(''dlfo_flags'', Word 8), (''dlfo_map_start'', Word 8), (''dlfo_map_end'', Word 8),
     (''dlfo_link_map'', Word 8), (''dlfo_eh_frame'', Word 8), (''dlfo_reserved'', Arr 7 (Word 8))]"

section \<open>dladdr\<close>

definition symbol_addr :: "dl_info \<Rightarrow> usize option" where
  "symbol_addr i = (if dli_saddr i \<noteq> 0 then Some (dli_saddr i) else None)"

text \<open>\<open>str_at\<close> is the address of a symbol name in the string table.\<close>

definition dladdr_stores :: "(bytes \<Rightarrow> usize) \<Rightarrow> dl_info \<Rightarrow> (step list \<times> nat) list" where
  "dladdr_stores str_at i =
     [([Fld ''dli_fbase''], unat (dli_fbase i)), ([Fld ''dli_fname''], unat (dli_fname i)),
      ([Fld ''dli_saddr''], unat (case symbol_addr i of Some a \<Rightarrow> a | None \<Rightarrow> 0)),
      ([Fld ''dli_sname''], unat (case dli_sname i of None \<Rightarrow> 0 | Some name \<Rightarrow> str_at name))]"

definition c_dladdr ::
  "('c, 'i, 'l, 'm, 'y) link_ops \<Rightarrow> 'm elf_view \<Rightarrow> (bytes \<Rightarrow> usize) \<Rightarrow> ('c, 'l, 'm) manager \<Rightarrow> mem \<Rightarrow> usize \<Rightarrow> usize \<Rightarrow>
     (('c, 'l, 'm) manager \<times> mem \<times> int) run" where
  "c_dladdr ops ev str_at mg m addr info =
     run_bind (dladdr ops ev mg addr) (\<lambda>(mg1, r).
       Done (case r of None \<Rightarrow> (mg1, m, 0) | Some i \<Rightarrow> (mg1, foldl (write_at CDlInfo info) m (dladdr_stores str_at i), 1)))"

section \<open>dl_find_object\<close>

definition find_object_stores :: "find_object \<Rightarrow> (step list \<times> nat) list" where
  "find_object_stores o1 =
     [([Fld ''dlfo_flags''], unat (dlfo_flags o1)), ([Fld ''dlfo_map_start''], unat (dlfo_map_start o1)),
      ([Fld ''dlfo_map_end''], unat (dlfo_map_end o1)), ([Fld ''dlfo_link_map''], unat (dlfo_link_map o1)),
      ([Fld ''dlfo_eh_frame''], unat (dlfo_eh_frame o1))] @
     map (\<lambda>i. ([Fld ''dlfo_reserved'', Idx i], unat (dlfo_reserved o1 ! i))) [0..<7]"

definition c_dl_find_object ::
  "('c, 'i, 'l, 'm, 'y) link_ops \<Rightarrow> 'm elf_view \<Rightarrow> ('c, 'l, 'm) manager \<Rightarrow> mem \<Rightarrow> usize \<Rightarrow> usize \<Rightarrow>
     (('c, 'l, 'm) manager \<times> mem \<times> int) run" where
  "c_dl_find_object ops ev mg m pc dlfo =
     run_bind (dl_find_object ops ev mg pc) (\<lambda>(mg1, r, ret).
       Done (mg1, case r of None \<Rightarrow> m | Some o1 \<Rightarrow> foldl (write_at DlFindObject dlfo) m (find_object_stores o1), ret))"

text \<open>The symbols that libgcc looks for, in the interpreter and in the library.\<close>

definition exported_dl_find_object ::
  "('c, 'i, 'l, 'm, 'y) link_ops \<Rightarrow> 'm elf_view \<Rightarrow> ('c, 'l, 'm) manager \<Rightarrow> mem \<Rightarrow> usize \<Rightarrow> usize \<Rightarrow>
     (('c, 'l, 'm) manager \<times> mem \<times> int) run" where
  "exported_dl_find_object ops ev mg m pc dlfo = c_dl_find_object ops ev mg m pc dlfo"

definition exported_dl_find_dso_for_object ::
  "('c, 'i, 'l, 'm, 'y) link_ops \<Rightarrow> ('c, 'l, 'm) manager \<Rightarrow> usize \<Rightarrow> (('c, 'l, 'm) manager \<times> usize) run" where
  "exported_dl_find_dso_for_object ops mg addr = dl_find_dso_for_object ops mg addr"

section \<open>dl_iterate_phdr\<close>

text \<open>\<open>phdrs_at\<close> is the address of the slice of program headers, whose length is stored in 16 bits.\<close>

definition phdr_stores :: "(phdr_info \<Rightarrow> usize) \<Rightarrow> phdr_info \<Rightarrow> (step list \<times> nat) list" where
  "phdr_stores phdrs_at i =
     [([Fld ''dlpi_addr''], unat (lib_base i)), ([Fld ''dlpi_name''], unat (lib_name i)), ([Fld ''dlpi_phdr''], unat (phdrs_at i)),
      ([Fld ''dlpi_phnum''], unat (of_nat (length (lib_phdrs i)) :: 16 word)), ([Fld ''dlpi_adds''], unat (dlpi_adds i)),
      ([Fld ''dlpi_subs''], unat (dlpi_subs i)), ([Fld ''dlpi_tls_modid''], unat (tls_modid i)), ([Fld ''dlpi_tls_data''], unat (tls_data i))]"

text \<open>The closure around the callback: \<open>at\<close> is the place of \<open>c_info\<close> on the stack.  The callback gets its address and size
  and may change the memory and its own data.\<close>

definition phdr_closure ::
  "(phdr_info \<Rightarrow> usize) \<Rightarrow> usize \<Rightarrow> (mem \<Rightarrow> usize \<Rightarrow> usize \<Rightarrow> 'd \<Rightarrow> mem \<times> 'd \<times> int) \<Rightarrow> mem \<times> 'd \<Rightarrow> phdr_info \<Rightarrow> (mem \<times> 'd) \<times> int" where
  "phdr_closure phdrs_at at callback s info =
     (let c_info = foldl (write_at CDlPhdrInfo at) (fst s) (phdr_stores phdrs_at info);
          (m, d, ret) = callback c_info at (of_nat (size_of CDlPhdrInfo)) (snd s)
      in ((m, d), ret))"

definition c_dl_iterate_phdr ::
  "('c, 'i, 'l, 'm, 'y) link_ops \<Rightarrow> 'm elf_view \<Rightarrow> (usize \<Rightarrow> usize) \<Rightarrow> (phdr_info \<Rightarrow> usize) \<Rightarrow> usize \<Rightarrow> ('c, 'l, 'm) manager \<Rightarrow>
     (mem \<Rightarrow> usize \<Rightarrow> usize \<Rightarrow> 'd \<Rightarrow> mem \<times> 'd \<times> int) option \<Rightarrow> mem \<Rightarrow> 'd \<Rightarrow> (('c, 'l, 'm) manager \<times> (mem \<times> 'd) \<times> int) run" where
  "c_dl_iterate_phdr ops ev tdp phdrs_at at mg callback m d =
     dl_iterate_phdr ops ev tdp mg (map_option (phdr_closure phdrs_at at) callback) (m, d)"

text \<open>The Rust function has a callback that returns a result; its error ends the iteration and is returned.\<close>

definition library_dl_iterate_phdr ::
  "('c, 'i, 'l, 'm, 'y) link_ops \<Rightarrow> 'm elf_view \<Rightarrow> (usize \<Rightarrow> usize) \<Rightarrow> ('c, 'l, 'm) manager \<Rightarrow>
     ('d \<Rightarrow> phdr_info \<Rightarrow> 'd \<times> 'e option) \<Rightarrow> 'd \<Rightarrow> (('c, 'l, 'm) manager \<times> 'd \<times> 'e option) run" where
  "library_dl_iterate_phdr ops ev tdp mg callback d =
     run_bind (dl_iterate_phdr ops ev tdp mg
         (Some (\<lambda>(d, _) i. case callback d i of (d1, e) \<Rightarrow> ((d1, e), if e = None then 0 else 1))) (d, None))
       (\<lambda>(mg1, (d1, e), _). Done (mg1, d1, e))"

section \<open>Accessors\<close>

text \<open>\<open>DlPhdrInfo::name\<close>: the empty string for a null pointer or bytes that are not UTF-8; \<open>None\<close> if there is no terminator.\<close>

definition phdr_info_name :: "mem \<Rightarrow> phdr_info \<Rightarrow> bytes option" where
  "phdr_info_name m i =
     (if lib_name i = 0 then Some []
      else map_option (\<lambda>bs. if from_utf8 bs = None then [] else bs) (cstr_bytes m (lib_name i)))"

definition library_base :: "('c, 'i, 'l, 'm, 'y) link_ops \<Rightarrow> 'm elf_view \<Rightarrow> ('l, 'm) opened_library \<Rightarrow> usize run" where
  "library_base ops ev ol = run_bind (root_module ops ol) (\<lambda>m. Done (ev_base ev m))"

definition library_phdrs :: "('c, 'i, 'l, 'm, 'y) link_ops \<Rightarrow> 'm elf_view \<Rightarrow> ('l, 'm) opened_library \<Rightarrow> (u32 \<times> usize) list run" where
  "library_phdrs ops ev ol = run_bind (root_module ops ol) (\<lambda>m. Done (ev_phdrs ev m))"

text \<open>\<open>cname\<close> expects the extra data, which a module has with its link map.\<close>

definition library_cname :: "('c, 'i, 'l, 'm, 'y) link_ops \<Rightarrow> 'm elf_view \<Rightarrow> ('l, 'm) opened_library \<Rightarrow> usize run" where
  "library_cname ops ev ol =
     run_bind (root_module ops ol) (\<lambda>m. run_bind (expect (link_map_of ops m)) (\<lambda>_. Done (ev_cname ev m)))"

section \<open>What a C caller reads\<close>

lemmas c_query_types = CDlInfo_def CDlPhdrInfo_def DlFindObject_def

lemma c_query_wf: "wf_type CDlInfo" "wf_type CDlPhdrInfo" "wf_type DlFindObject"
  by (simp_all add: c_query_types)

lemma c_query_sizes: "size_of CDlInfo = 32" "size_of CDlPhdrInfo = 64" "size_of DlFindObject = 96"
  by (simp_all add: c_query_types round_up_def)

interpretation dl_info_vars: field_store "scalar_width CDlInfo" "read_at CDlInfo g" "write_at CDlInfo g" for g
  by (rule field_store_struct) (simp_all add: c_query_wf c_query_sizes)

interpretation phdr_info_vars: field_store "scalar_width CDlPhdrInfo" "read_at CDlPhdrInfo g" "write_at CDlPhdrInfo g" for g
  by (rule field_store_struct) (simp_all add: c_query_wf c_query_sizes)

interpretation find_object_vars: field_store "scalar_width DlFindObject" "read_at DlFindObject g" "write_at DlFindObject g" for g
  by (rule field_store_struct) (simp_all add: c_query_wf c_query_sizes)

lemma c_query_scalars:
  "map (scalar_width CDlInfo) [[Fld ''dli_fname''], [Fld ''dli_fbase''], [Fld ''dli_sname''], [Fld ''dli_saddr'']] = [Some 8, Some 8, Some 8, Some 8]"
  "map (scalar_width CDlPhdrInfo) [[Fld ''dlpi_addr''], [Fld ''dlpi_name''], [Fld ''dlpi_phdr''], [Fld ''dlpi_adds''],
     [Fld ''dlpi_subs''], [Fld ''dlpi_tls_modid''], [Fld ''dlpi_tls_data'']] = [Some 8, Some 8, Some 8, Some 8, Some 8, Some 8, Some 8]"
  "scalar_width CDlPhdrInfo [Fld ''dlpi_phnum''] = Some 2"
  "map (scalar_width DlFindObject) [[Fld ''dlfo_flags''], [Fld ''dlfo_map_start''], [Fld ''dlfo_map_end''], [Fld ''dlfo_link_map''],
     [Fld ''dlfo_eh_frame'']] = [Some 8, Some 8, Some 8, Some 8, Some 8]"
  by code_simp+

lemma reserved_scalar: "i < 7 \<Longrightarrow> scalar_width DlFindObject [Fld ''dlfo_reserved'', Idx i] = Some 8"
  by (simp add: scalar_width_def scalar_at_def c_query_types Let_def round_up_def)

lemmas c_query_widths = c_query_scalars [simplified] reserved_scalar

lemma phdr_stores_read:
  "read_at CDlPhdrInfo g (foldl (write_at CDlPhdrInfo g) m (phdr_stores phdrs_at i)) q =
     (case map_of (phdr_stores phdrs_at i) q of None \<Rightarrow> read_at CDlPhdrInfo g m q | Some v \<Rightarrow> Some v)"
proof (rule phdr_info_vars.load_table)
  have "unat (of_nat (length (lib_phdrs i)) :: 16 word) < 65536"
    by (simp add: unat_of_nat)
  then show "list_all (\<lambda>(p, v). case scalar_width CDlPhdrInfo p of None \<Rightarrow> False | Some n \<Rightarrow> v < 256 ^ n) (phdr_stores phdrs_at i)"
    using unat_usize_bound by (simp add: phdr_stores_def c_query_widths)
qed (simp add: phdr_stores_def)

lemma dladdr_stores_read:
  "read_at CDlInfo g (foldl (write_at CDlInfo g) m (dladdr_stores str_at i)) q =
     (case map_of (dladdr_stores str_at i) q of None \<Rightarrow> read_at CDlInfo g m q | Some v \<Rightarrow> Some v)"
  by (rule dl_info_vars.load_table) (use unat_usize_bound in \<open>simp_all add: dladdr_stores_def c_query_widths\<close>)

lemma find_object_stores_read:
  "read_at DlFindObject g (foldl (write_at DlFindObject g) m (find_object_stores o1)) q =
     (case map_of (find_object_stores o1) q of None \<Rightarrow> read_at DlFindObject g m q | Some v \<Rightarrow> Some v)"
proof (rule find_object_vars.load_table)
  show "list_all (\<lambda>(p, v). case scalar_width DlFindObject p of None \<Rightarrow> False | Some n \<Rightarrow> v < 256 ^ n) (find_object_stores o1)"
    using unat_usize_bound by (simp add: find_object_stores_def c_query_widths list_all_iff)
qed (auto simp: find_object_stores_def distinct_map inj_on_def)

text \<open>\<open>dladdr\<close> and \<open>_dl_find_object\<close>: the caller's structure is filled field by field exactly when an object is found,
  and nothing else is written.\<close>

lemma c_dladdr_filled:
  assumes "dladdr ops ev mg addr = Done (mg', r)"
  shows "c_dladdr ops ev str_at mg m addr info =
      Done (mg', case r of None \<Rightarrow> m | Some i \<Rightarrow> foldl (write_at CDlInfo info) m (dladdr_stores str_at i), if r = None then 0 else 1)"
    and "map (read_at CDlInfo info (foldl (write_at CDlInfo info) m (dladdr_stores str_at i)))
        [[Fld ''dli_fname''], [Fld ''dli_fbase''], [Fld ''dli_sname''], [Fld ''dli_saddr'']] =
      map Some [unat (dli_fname i), unat (dli_fbase i), unat (case dli_sname i of None \<Rightarrow> 0 | Some name \<Rightarrow> str_at name),
        unat (dli_saddr i)]"
    and "apart q k info 32 \<Longrightarrow> read_list (foldl (write_at CDlInfo info) m (dladdr_stores str_at i)) q k = read_list m q k"
proof -
  show "c_dladdr ops ev str_at mg m addr info =
      Done (mg', case r of None \<Rightarrow> m | Some i \<Rightarrow> foldl (write_at CDlInfo info) m (dladdr_stores str_at i), if r = None then 0 else 1)"
    by (simp add: c_dladdr_def assms split: option.split)
  show "map (read_at CDlInfo info (foldl (write_at CDlInfo info) m (dladdr_stores str_at i)))
        [[Fld ''dli_fname''], [Fld ''dli_fbase''], [Fld ''dli_sname''], [Fld ''dli_saddr'']] =
      map Some [unat (dli_fname i), unat (dli_fbase i), unat (case dli_sname i of None \<Rightarrow> 0 | Some name \<Rightarrow> str_at name),
        unat (dli_saddr i)]"
    unfolding dladdr_stores_read by (simp add: dladdr_stores_def symbol_addr_def)
  assume "apart q k info 32"
  then show "read_list (foldl (write_at CDlInfo info) m (dladdr_stores str_at i)) q k = read_list m q k"
    by (intro foldl_write_at_frame) (simp_all add: c_query_wf c_query_sizes)
qed

lemma c_dl_find_object_filled:
  assumes "dl_find_object ops ev mg pc = Done (mg', r, ret)"
  shows "ret = (if r = None then - 1 else 0)"
    and "c_dl_find_object ops ev mg m pc dlfo =
      Done (mg', case r of None \<Rightarrow> m | Some o1 \<Rightarrow> foldl (write_at DlFindObject dlfo) m (find_object_stores o1), ret)"
    and "map (read_at DlFindObject dlfo (foldl (write_at DlFindObject dlfo) m (find_object_stores o1)))
        [[Fld ''dlfo_flags''], [Fld ''dlfo_map_start''], [Fld ''dlfo_map_end''], [Fld ''dlfo_link_map''], [Fld ''dlfo_eh_frame'']] =
      map Some [unat (dlfo_flags o1), unat (dlfo_map_start o1), unat (dlfo_map_end o1), unat (dlfo_link_map o1), unat (dlfo_eh_frame o1)]"
    and "apart q k dlfo 96 \<Longrightarrow> read_list (foldl (write_at DlFindObject dlfo) m (find_object_stores o1)) q k = read_list m q k"
proof -
  show "ret = (if r = None then - 1 else 0)"
    using assms by (auto simp: dl_find_object_def run_bind_Done Let_def split: option.split_asm prod.split_asm)
  show "c_dl_find_object ops ev mg m pc dlfo =
      Done (mg', case r of None \<Rightarrow> m | Some o1 \<Rightarrow> foldl (write_at DlFindObject dlfo) m (find_object_stores o1), ret)"
    by (simp add: c_dl_find_object_def assms)
  show "map (read_at DlFindObject dlfo (foldl (write_at DlFindObject dlfo) m (find_object_stores o1)))
        [[Fld ''dlfo_flags''], [Fld ''dlfo_map_start''], [Fld ''dlfo_map_end''], [Fld ''dlfo_link_map''], [Fld ''dlfo_eh_frame'']] =
      map Some [unat (dlfo_flags o1), unat (dlfo_map_start o1), unat (dlfo_map_end o1), unat (dlfo_link_map o1), unat (dlfo_eh_frame o1)]"
    unfolding find_object_stores_read by (simp add: find_object_stores_def)
  assume "apart q k dlfo 96"
  then show "read_list (foldl (write_at DlFindObject dlfo) m (find_object_stores o1)) q k = read_list m q k"
    by (intro foldl_write_at_frame) (simp_all add: c_query_wf c_query_sizes)
qed

text \<open>The fields of \<open>struct dl_phdr_info\<close>, and what they hold for a module.\<close>

definition phdr_fields :: "step list list" where
  "phdr_fields = [[Fld ''dlpi_addr''], [Fld ''dlpi_name''], [Fld ''dlpi_phdr''], [Fld ''dlpi_phnum''], [Fld ''dlpi_adds''],
     [Fld ''dlpi_subs''], [Fld ''dlpi_tls_modid''], [Fld ''dlpi_tls_data'']]"

definition seen_by_c :: "(phdr_info \<Rightarrow> usize) \<Rightarrow> phdr_info \<Rightarrow> nat option list \<times> usize" where
  "seen_by_c phdrs_at i =
     (map Some [unat (lib_base i), unat (lib_name i), unat (phdrs_at i), length (lib_phdrs i) mod 65536, unat (dlpi_adds i),
        unat (dlpi_subs i), unat (tls_modid i), unat (tls_data i)], 64)"

text \<open>A C callback that records the fields and the size it is given, answers by them, and changes the memory by \<open>w\<close>.\<close>

definition recording ::
  "(mem \<Rightarrow> mem) \<Rightarrow> (nat option list \<times> usize \<Rightarrow> int) \<Rightarrow> mem \<Rightarrow> usize \<Rightarrow> usize \<Rightarrow> (nat option list \<times> usize) list \<Rightarrow>
     mem \<times> (nat option list \<times> usize) list \<times> int" where
  "recording w f m p n d = (let s = (map (read_at CDlPhdrInfo p m) phdr_fields, n) in (w m, d @ [s], f s))"

lemma phdr_closure_seen:
  "phdr_closure phdrs_at at (recording w f) (m, d) i =
     ((w (foldl (write_at CDlPhdrInfo at) m (phdr_stores phdrs_at i)), d @ [seen_by_c phdrs_at i]), f (seen_by_c phdrs_at i))"
proof -
  have "map (read_at CDlPhdrInfo at (foldl (write_at CDlPhdrInfo at) m (phdr_stores phdrs_at i))) phdr_fields =
      fst (seen_by_c phdrs_at i)"
    unfolding phdr_fields_def phdr_stores_read by (simp add: phdr_stores_def seen_by_c_def unat_of_nat)
  then show ?thesis by (simp add: phdr_closure_def recording_def Let_def seen_by_c_def c_query_sizes)
qed

lemma iterate_modules_seen:
  fixes ev :: "'m elf_view" and tdp a sb phdrs_at
  assumes "\<forall>x\<in>set ms. link_map_of ops x \<noteq> None"
  defines "seen \<equiv> map (seen_by_c phdrs_at \<circ> phdr_info_of ev tdp a sb) (filter (\<lambda>x. ev_phdrs ev x \<noteq> []) ms)"
  shows "\<exists>m'. iterate_modules ops ev tdp a sb (phdr_closure phdrs_at at
      (recording w f)) (m, d) ms =
    Done ((m', d @ takeWhile (\<lambda>s. f s = 0) seen @ take 1 (dropWhile (\<lambda>s. f s = 0) seen)),
          case dropWhile (\<lambda>s. f s = 0) seen of [] \<Rightarrow> 0 | s # _ \<Rightarrow> f s)"
  using assms(1) unfolding seen_def
proof (induction ms arbitrary: m d)
  case (Cons x ms)
  let ?i = "phdr_info_of ev tdp a sb x"
  have l: "\<forall>y\<in>set ms. link_map_of ops y \<noteq> None" "\<exists>l. link_map_of ops x = Some l" using Cons.prems by auto
  note go = Cons.IH [OF l(1), of "w (foldl (write_at CDlPhdrInfo at) m (phdr_stores phdrs_at ?i))" "d @ [seen_by_c phdrs_at ?i]"]
  show ?case using l(2) go Cons.IH [OF l(1), of m d] by (auto simp: phdr_closure_seen)
qed simp

text \<open>C32. What a C program sees of the loaded objects: \<open>dl_iterate_phdr\<close> hands its callback the address and the size of a
  \<open>struct dl_phdr_info\<close> in which every field, read at its place in the C layout, describes the module, in load order,
  for the modules that have program headers, with the number of headers cut to 16 bits; it stops after the first
  callback that returns non-zero and returns that value, or 0.  Whatever the callbacks do to the memory, the next one
  finds its own structure.\<close>

theorem c_dl_iterate_phdr_seen:
  assumes "library_snapshot ops mg = (mg1, libs)" and "\<forall>x\<in>fst ` set libs. link_map_of ops x \<noteq> None"
    and "release_all ops mg1 (map snd libs) = Done mg2"
  shows "\<exists>m' seen. seen = map (\<lambda>x. seen_by_c phdrs_at (phdr_info_of ev tdp (adds mg) (subs mg) x))
      (filter (\<lambda>x. ev_phdrs ev x \<noteq> []) (map fst libs)) \<and>
    c_dl_iterate_phdr ops ev tdp phdrs_at at mg
      (Some (recording w f)) m [] =
    Done (mg2, (m', takeWhile (\<lambda>s. f s = 0) seen @ take 1 (dropWhile (\<lambda>s. f s = 0) seen)),
          case dropWhile (\<lambda>s. f s = 0) seen of [] \<Rightarrow> 0 | s # _ \<Rightarrow> f s)"
proof -
  let ?info = "phdr_info_of ev tdp (adds mg) (subs mg)"
  let ?seen = "map (seen_by_c phdrs_at \<circ> ?info) (filter (\<lambda>x. ev_phdrs ev x \<noteq> []) (map fst libs))"
  have "\<forall>x\<in>set (map fst libs). link_map_of ops x \<noteq> None" using assms(2) by simp
  from iterate_modules_seen [OF this, of ev tdp "adds mg" "subs mg" phdrs_at at w f m "[]"] obtain m' where
    "iterate_modules ops ev tdp (adds mg) (subs mg) (phdr_closure phdrs_at at
        (recording w f)) (m, []) (map fst libs) =
      Done ((m', takeWhile (\<lambda>s. f s = 0) ?seen @ take 1 (dropWhile (\<lambda>s. f s = 0) ?seen)),
        case dropWhile (\<lambda>s. f s = 0) ?seen of [] \<Rightarrow> 0 | s # _ \<Rightarrow> f s)" by auto
  with assms(1,3) show ?thesis by (intro exI [of _ m']) (simp add: c_dl_iterate_phdr_def dl_iterate_phdr_def comp_def)
qed

theorem c_dl_iterate_phdr_seen_witness:
  "\<exists>mg2 m' seen. c_dl_iterate_phdr demo_ops demo_view (\<lambda>_. 0) (\<lambda>i. lib_base i + 64) 0x7000 (manager_new [0, 1, 2])
       (Some (recording (\<lambda>_ _. 0) (\<lambda>_. 0))) (\<lambda>_. 0xff) [] =
     Done (mg2, (m', seen), 0) \<and>
   seen = [(map Some [4096, 0, 4160, 1, 0, 0, 0, 0], 64), (map Some [8192, 0, 8256, 1, 0, 0, 0, 0], 64)]"
proof -
  have "\<forall>x\<in>fst ` set [(0, 0), (1, 1), (2, 2)]. link_map_of demo_ops x \<noteq> None" by (simp add: demo_ops_def)
  from c_dl_iterate_phdr_seen [OF demo_snapshot(1) this demo_snapshot(2), of "\<lambda>i. lib_base i + 64" demo_view "\<lambda>_. 0" "0x7000"
      "\<lambda>_ _. 0" "\<lambda>_. 0" "\<lambda>_. 0xff"]
  show ?thesis by (auto simp: demo_view_def seen_by_c_def phdr_info_of_def manager_new_def)
qed

end
