(* ===== verification/Spec2Isabelle.thy ===== *)
theory Spec2Isabelle
  imports Reentrancy Tls_Blocks Tls_Resolver Library Cli_Demo Entry Observer Dlinfo Exports Cache_Search C_Query
begin

text \<open>
  A verification development for \<open>rust-dynlinker\<close>, a dynamic linker written in Rust.  The repository has two
  products: the library \<open>dlopen_rs\<close> (\<open>src/src\<close>), which gives a program \<open>dlopen\<close>, \<open>dlsym\<close>, \<open>dladdr\<close> and
  their kin, and an ELF interpreter (\<open>src/rtld/impl/src\<close>), which starts programs in place of glibc's
  \<open>ld-linux\<close> and is built on the same library.  The mapping and relocating of ELF files is done by the crate
  \<open>elf_loader\<close>, which is not part of the repository.

  \<^bold>\<open>Parts, and the theories that model them.\<close>

  \<^item> \<open>Prelude\<close>: machine integers, the parts of Rust's core library in use (checked arithmetic, slices and
    \<open>expect\<close> that panic, UTF-8, little-endian bytes) and the collections \<open>rust_arith\<close>, \<open>no_panic\<close>,
    \<open>run_simps\<close>.  \<open>Done\<close>/\<open>Panic\<close> is code that may panic; \<open>None\<close> is used for a scan that does not return.
  \<^item> \<open>Ld_Cache\<close> (\<open>dlopen/ld_cache.rs\<close>): the reader of \<open>/etc/ld.so.cache\<close>.  \<open>ld_cache_new\<close> establishes an
    invariant under which no accessor panics; the binary search with its two scans refines a linear search on
    a cache in the order \<open>ldconfig\<close> writes, and is sound in any order.
  \<^item> \<open>Loader_Lock\<close> (\<open>registry/loader_lock.rs\<close>): both builds of the recursive lock as interleaving threads.  The
    locale \<open>exclusive_lock\<close> is the contract (mutual exclusion, depth = guards, by rule induction); both
    machines interpret it.  The \<open>std\<close> build loses no wake-up; the futex build can.
  \<^item> \<open>Registry\<close> (same file): the \<open>RefCell\<close> behind that lock.  From the contract of the lock it follows, for both builds,
    that a borrow only panics on a conflicting borrow of the same thread and that an exclusive borrow is exclusive.
  \<^item> \<open>Reentrancy\<close> (\<open>registry/manager.rs\<close>, \<open>dlopen/run.rs\<close>, \<open>api\<close>, \<open>runtime/rtld.rs\<close>, \<open>registry/cxa.rs\<close>): the guards and borrows that every
    function takes, and where it calls code from outside (constructors, destructors, resolvers, callbacks), which
    may call the library again.  However threads interleave, no borrow ever conflicts and every call can finish.
  \<^item> \<open>Memory\<close>, \<open>Dtv\<close> (\<open>rtld/impl/src/memory.rs\<close>, \<open>runtime.rs\<close>, \<open>glibc/v2_39/tls.rs\<close>): the C memory routines
    and the allocator on a byte memory, the thread control block and the dynamic thread vector.  The vector
    interprets the locale \<open>slot_table\<close>: what is stored in a slot is read back, other slots are unchanged.
  \<^item> \<open>Tls\<close>, \<open>Tls_Blocks\<close> (\<open>rtld/impl/src/tls.rs\<close>): the registry of TLS modules, the placement of static blocks, the
    filling of images, thread storage and \<open>__tls_get_addr\<close>.  A reachability invariant gives disjoint static
    blocks; the lazy allocation of dynamic blocks, and their release at thread exit, are exact.
  \<^item> \<open>Tls_Resolver\<close> (\<open>mod tls\<close> of \<open>runtime/rtld.rs\<close>): the bridge from the library to that registry.  The locale
    \<open>tls_provider\<close> states what the bridge needs of the registry, whose operations interpret it; after any
    sequence of calls the records of the bridge agree with the registry.
  \<^item> \<open>Manager\<close> (\<open>registry/manager.rs\<close>, \<open>library.rs\<close>, flags of \<open>lib.rs\<close>): handles, leases, load counters, aliases,
    symbol searches.  Opening and closing refine a stack of leases per handle; the counters count modules.
  \<^item> \<open>Library\<close> (\<open>library.rs\<close>, \<open>ModuleLease\<close>): the counted library objects of the Rust interface.  The registry is not
    touched while a clone is left, and the last drop releases the lease once.
  \<^item> \<open>File_Read\<close> (\<open>os/linux.rs\<close>): reading a whole file by system calls; it ends, closes the descriptor and returns the
    contents or the error of an incomplete read.  \<open>Cache_Search\<close> composes it with \<open>Ld_Cache\<close> and the candidate provider of
    \<open>Open\<close>: from the file \<open>/etc/ld.so.cache\<close> to the path that a request for a library is answered with.
  \<^item> \<open>Open\<close> (\<open>dlopen/run.rs\<close>, \<open>error.rs\<close>): search paths and the phases of an open with their roll-backs.  A
    failed open changes no handle and no counter; the hook of the start-up satisfies the condition this needs
    (\<open>hook_keeps_startup\<close> of \<open>Startup\<close>).
  \<^item> \<open>Dl_Error\<close>, \<open>Api\<close> (\<open>api/*.rs\<close>, \<open>registry/cxa.rs\<close>): the C functions.  The two error stores interpret the
    locale \<open>error_slot\<close> and give the same answers; every function reports failure exactly when it fails.
    \<open>C_Query\<close> has the C structures that \<open>dladdr\<close>, \<open>_dl_find_object\<close> and \<open>dl_iterate_phdr\<close> fill, on the byte memory, and what
    a C caller reads from them.
  \<^item> \<open>Debug_List\<close>, \<open>Observer\<close>, \<open>Host\<close> (\<open>runtime/debug.rs\<close>, \<open>dlopen/observer.rs\<close>, \<open>runtime/host.rs\<close>): the list of link
    maps that debuggers walk, the link map made for every object, and the adoption of a process that glibc
    started: finding \<open>r_debug\<close>, adopting its list, undoing the changes glibc made to dynamic tables,
    registering the loaded objects.
  \<^item> \<open>Stack\<close>, \<open>Self_Reloc\<close>, \<open>Cli\<close>, \<open>Cli_Demo\<close>, \<open>Startup\<close> (\<open>rtld/impl/src/bootstrap\<close>, \<open>cli.rs\<close>, start-up part of
    \<open>runtime/rtld.rs\<close>): the initial stack and its rewriting, the relocation of the interpreter by itself, the
    command line with \<open>--verify\<close> and \<open>--list\<close>, and the start of a program.  A direct invocation leaves the
    process as if the program had been started itself; the start-up search list is linked in order.
    \<open>Boot\<close> composes all of it, up to \<open>rtld_bootstrap\<close>: the registration of the interpreter, the linking of the program
    with the callback that publishes the loaded group before the initialisers run, and the recorded start-up root.
    \<open>Entry\<close> puts the assembly of \<open>_start\<close> around it (\<open>arch/x86_64/entry.rs\<close>), on a record of registers: where a start that
    succeeds jumps to and what it leaves, and the exit status of one that does not; and the stubs of \<open>dlopen\<close> and \<open>dlsym\<close>.
    \<open>Cli_Demo\<close> holds the concrete files and command lines on which the theorems are applied.
  \<^item> \<open>C_Layout\<close>, \<open>Rtld_Global\<close>, \<open>Rtld_Publish\<close> (\<open>glibc/v2_39/mod.rs\<close>, \<open>globals.rs\<close>, \<open>arch/x86_64/mod.rs\<close>, \<open>LinkMap\<close> and
    \<open>RDebug\<close> of \<open>abi.rs\<close>): the structures shared with glibc as types with C layout on the byte memory.  Fields of a
    well-formed structure interpret the locale \<open>field_store\<close>: distinct paths do not interfere.  On top of it, the
    asserted sizes and offsets, the initial contents, and the exact effect of every publication.
  \<^item> \<open>Exports\<close> (\<open>rtld/impl/src/symbols\<close>): tunables, exceptions, TLS exports and libc's table of \<open>dlopen\<close> functions.
  \<^item> \<open>Dlinfo\<close> (\<open>rtld/impl/src/symbols/dlfcn.rs\<close>, \<open>serinfo.rs\<close>): \<open>dlinfo\<close> with its cache of origin paths and the
    list of default search paths.

  \<^bold>\<open>State.\<close>  Statics of the Rust code are records passed explicitly: \<open>manager\<close> is \<open>REGISTRY\<close>, \<open>tls_state\<close> the
  mutex-protected statics of \<open>tls.rs\<close> with the heap, \<open>custom_debug\<close> is \<open>DEBUG\<close>, \<open>resolver\<close> the list of \<open>runtime/rtld.rs\<close>.
  Code under a mutex is one step.  Memory is a total function from 64-bit addresses to bytes, or to words for
  the initial stack; link maps are a store from addresses to their link fields.

  \<^bold>\<open>Parameters.\<close>  Code that is not in the repository is an argument: \<open>link_ops\<close> and \<open>linker_ops\<close> (the link context
  and the linker of \<open>elf_loader\<close>), \<open>elf_view\<close>, \<open>host_view\<close> and \<open>raw_dylib\<close> (ELF structures), \<open>reloc_ops\<close> (relocation
  entries), \<open>default_resolver\<close>, \<open>boot_ops\<close> (the loading of images at start-up, the answers of the allocator and of
  the TLS registry after linking), \<open>rtld_statics\<close> (addresses fixed when the interpreter is linked), \<open>kernel_ops\<close>, \<open>file_ops\<close>,
  \<open>pread\<close> and the answers of \<open>mmap\<close> (system calls).  What a theorem needs of them is a hypothesis in its statement, and every such theorem is applied to a concrete instance.

  \<^bold>\<open>Termination.\<close>  Loops over lists are structural.  Loops on counters have a \<open>measure\<close>.  Scans of memory for a
  terminator are partial functions into \<open>option\<close>, and the theorems prove that they return on well-formed data.
  No fuel is used; the 20-byte buffer of \<open>write_decimal\<close> is shown to be large enough.  Arithmetic that the code leaves
  unchecked wraps, as in a release build.

  \<^bold>\<open>Not modelled.\<close>  The system calls that write and exit themselves (outputs are lists of writes, an exit is the result
  \<open>Stopped\<close>, a panic of the interpreter is its end with status 127); symbol versions for the assembler (\<open>versions.rs\<close>);
  functions with an empty body (\<open>audit.rs\<close>, \<open>debug.rs\<close>), accessors that only project a field, \<open>Debug\<close> output; the code for
  other processors than x86-64; re-exports and configuration (\<open>mod.rs\<close> and \<open>lib.rs\<close> files); build scripts, examples,
  benchmarks and tests.  \<open>Reentrancy\<close> abstracts what a function does between its borrows; its effect is in the other theories.  In \<open>Boot\<close> the TLS registry after linking is read off the link context,
  since the modules are registered by \<open>elf_loader\<close> during the linking.
\<close>

end
